(* ===== verification/Prelude.thy ===== *)
theory Prelude
  imports Main "HOL-Library.Word"
begin

text \<open>
  Shared vocabulary of the development.

  \<^item> the value types every component uses: bytes, UUIDs, instants and durations
    (nanoseconds, as Go's \<open>time\<close> package counts them), JSON value trees;
  \<^item> the action type \<open>('w, 'e, 'a) act\<close> into which the Go functions are translated: an
    action reads and changes a state \<open>'w\<close> and leaves it by one of two exits, \<open>Inl e\<close>
    (the Go function returned an error, or the HTTP handler wrote a response and returned)
    or \<open>Inr a\<close> (it went on with a value);
  \<^item> a two-exit Hoare triple \<open>spec\<close> and a frame predicate \<open>keeps\<close>, with one rule per
    way of composing actions, collected in \<open>spec_rules\<close> and \<open>keeps_rules\<close>;
  \<^item> generic lemmas on rows kept in lists, which are what SQL tables become.
\<close>

named_theorems spec_rules \<open>Hoare rules of the action combinators and of the operations\<close>
named_theorems keeps_rules \<open>frame rules: an operation leaves a projection of the state alone\<close>
named_theorems act_defs \<open>definitions of the action combinators\<close>

section \<open>Values\<close>

type_synonym byte = "8 word"
type_synonym bytes = "byte list"

text \<open>An instant and a duration: nanoseconds.\<close>

type_synonym time = int
type_synonym duration = int

text \<open>
  \<open>uuid.UUID\<close> is a sixteen-byte array. The library functions on it (printing, parsing,
  building one from a slice) are parameters of the model, see the theory \<open>World\<close>.
\<close>

datatype uuid = UUID (uuid_bytes: bytes)

definition uuid_Nil :: uuid where
  "uuid_Nil = UUID (replicate 16 0)"

text \<open>
  A JSON document as the value tree that \<open>encoding/json\<close> builds from it. Object members
  keep their order and their duplicates, which the decoder's field rules depend on. A number
  keeps its literal: no field that the program decodes is a number.
\<close>

datatype json =
    JNull
  | JBool bool
  | JNum string
  | JStr string
  | JArr "json list"
  | JObj "(string \<times> json) list"

section \<open>Actions\<close>

type_synonym ('w, 'e, 'a) act = "'w \<Rightarrow> ('e + 'a) \<times> 'w"

definition ret :: "'a \<Rightarrow> ('w, 'e, 'a) act" where
  "ret a = (\<lambda>w. (Inr a, w))"

definition failE :: "'e \<Rightarrow> ('w, 'e, 'a) act" where
  "failE e = (\<lambda>w. (Inl e, w))"

text \<open>\<open>x, err := m(); if err != nil { return err }; f(x)\<close>\<close>

definition bindE :: "('w, 'e, 'a) act \<Rightarrow> ('a \<Rightarrow> ('w, 'e, 'b) act) \<Rightarrow> ('w, 'e, 'b) act" where
  "bindE m f = (\<lambda>w. case m w of (Inl e, w') \<Rightarrow> (Inl e, w') | (Inr a, w') \<Rightarrow> f a w')"

text \<open>\<open>x, err := m(); if err != nil { h(err) }\<close>, where \<open>h\<close> may return or go on.\<close>

definition catchE :: "('w, 'e, 'a) act \<Rightarrow> ('e \<Rightarrow> ('w, 'f, 'a) act) \<Rightarrow> ('w, 'f, 'a) act" where
  "catchE m h = (\<lambda>w. case m w of (Inl e, w') \<Rightarrow> h e w' | (Inr a, w') \<Rightarrow> (Inr a, w'))"

text \<open>\<open>x, err := m()\<close> with the error kept as a value for a later test.\<close>

definition tryE :: "('w, 'e, 'a) act \<Rightarrow> ('w, 'f, 'e + 'a) act" where
  "tryE m = (\<lambda>w. case m w of (r, w') \<Rightarrow> (Inr r, w'))"

definition getE :: "('w \<Rightarrow> 'a) \<Rightarrow> ('w, 'e, 'a) act" where
  "getE f = (\<lambda>w. (Inr (f w), w))"

definition putE :: "('w \<Rightarrow> 'w) \<Rightarrow> ('w, 'e, unit) act" where
  "putE f = (\<lambda>w. (Inr (), f w))"

text \<open>\<open>if b { m() }\<close>\<close>

definition whenE :: "bool \<Rightarrow> ('w, 'e, unit) act \<Rightarrow> ('w, 'e, unit) act" where
  "whenE b m = (if b then m else ret ())"

lemmas act_unfold [act_defs] =
  ret_def failE_def bindE_def catchE_def tryE_def getE_def putE_def whenE_def

lemma bindE_ret [simp]: "bindE (ret a) f = f a"
  by (simp add: bindE_def ret_def)

lemma bindE_failE [simp]: "bindE (failE e) f = failE e"
  by (simp add: bindE_def failE_def)

lemma bindE_assoc: "bindE (bindE m f) g = bindE m (\<lambda>a. bindE (f a) g)"
  by (rule ext) (simp add: bindE_def split: prod.split sum.split)

text \<open>How an action that is known to end in one way or the other continues.\<close>

lemma bindE_Inr: "m w = (Inr a, w') \<Longrightarrow> bindE m f w = f a w'"
  by (simp add: bindE_def)

lemma bindE_Inl: "m w = (Inl e, w') \<Longrightarrow> bindE m f w = (Inl e, w')"
  by (simp add: bindE_def)

lemma bindE_InrE:
  assumes "bindE m f w = (Inr b, w'')"
  obtains a w' where "m w = (Inr a, w')" and "f a w' = (Inr b, w'')"
  using assms by (auto simp: bindE_def split: prod.splits sum.splits)

lemma catchE_Inr: "m w = (Inr a, w') \<Longrightarrow> catchE m h w = (Inr a, w')"
  by (simp add: catchE_def)

lemma catchE_Inl: "m w = (Inl e, w') \<Longrightarrow> catchE m h w = h e w'"
  by (simp add: catchE_def)

lemma tryE_eq: "m w = (r, w') \<Longrightarrow> tryE m w = (Inr r, w')"
  by (simp add: tryE_def)

lemmas act_steps = bindE_Inr bindE_Inl catchE_Inr catchE_Inl tryE_eq

section \<open>Two-exit triples\<close>

text \<open>
  \<open>spec P m Q R\<close>: from a state where \<open>P\<close> holds, \<open>m\<close> ends with a value \<open>a\<close> in a
  state where \<open>Q a\<close> holds, or by its other exit \<open>e\<close> where \<open>R e\<close> holds. Actions are
  total functions, so this is total correctness.
\<close>

definition spec ::
  "('w \<Rightarrow> bool) \<Rightarrow> ('w, 'e, 'a) act \<Rightarrow> ('a \<Rightarrow> 'w \<Rightarrow> bool) \<Rightarrow> ('e \<Rightarrow> 'w \<Rightarrow> bool) \<Rightarrow> bool" where
  "spec P m Q R \<longleftrightarrow>
     (\<forall>w. P w \<longrightarrow> (case m w of (Inr a, w') \<Rightarrow> Q a w' | (Inl e, w') \<Rightarrow> R e w'))"

lemma specI:
  assumes "\<And>w a w'. P w \<Longrightarrow> m w = (Inr a, w') \<Longrightarrow> Q a w'"
    and "\<And>w e w'. P w \<Longrightarrow> m w = (Inl e, w') \<Longrightarrow> R e w'"
  shows "spec P m Q R"
  using assms by (auto simp: spec_def split: prod.split sum.split)

lemma specD_Inr: "spec P m Q R \<Longrightarrow> P w \<Longrightarrow> m w = (Inr a, w') \<Longrightarrow> Q a w'"
  by (fastforce simp: spec_def)

lemma specD_Inl: "spec P m Q R \<Longrightarrow> P w \<Longrightarrow> m w = (Inl e, w') \<Longrightarrow> R e w'"
  by (fastforce simp: spec_def)

lemma spec_weaken:
  assumes "spec P' m Q' R'" and "\<And>w. P w \<Longrightarrow> P' w"
    and "\<And>a w. Q' a w \<Longrightarrow> Q a w" and "\<And>e w. R' e w \<Longrightarrow> R e w"
  shows "spec P m Q R"
  using assms by (fastforce simp: spec_def split: prod.splits sum.splits)

lemma spec_pre: "spec P' m Q R \<Longrightarrow> (\<And>w. P w \<Longrightarrow> P' w) \<Longrightarrow> spec P m Q R"
  by (auto simp: spec_def)

lemma spec_ret [spec_rules]: "(\<And>w. P w \<Longrightarrow> Q a w) \<Longrightarrow> spec P (ret a) Q R"
  by (simp add: spec_def ret_def)

lemma spec_failE [spec_rules]: "(\<And>w. P w \<Longrightarrow> R e w) \<Longrightarrow> spec P (failE e) Q R"
  by (simp add: spec_def failE_def)

lemma spec_getE [spec_rules]: "(\<And>w. P w \<Longrightarrow> Q (f w) w) \<Longrightarrow> spec P (getE f) Q R"
  by (simp add: spec_def getE_def)

lemma spec_putE [spec_rules]: "(\<And>w. P w \<Longrightarrow> Q () (f w)) \<Longrightarrow> spec P (putE f) Q R"
  by (simp add: spec_def putE_def)

lemma spec_bindE:
  "spec P m M R \<Longrightarrow> (\<And>a. spec (M a) (f a) Q R) \<Longrightarrow> spec P (bindE m f) Q R"
  by (fastforce simp: spec_def bindE_def split: prod.splits sum.splits)

lemma spec_catchE:
  "spec P m Q M \<Longrightarrow> (\<And>e. spec (M e) (h e) Q R) \<Longrightarrow> spec P (catchE m h) Q R"
  by (fastforce simp: spec_def catchE_def split: prod.splits sum.splits)

lemma spec_tryE [spec_rules]:
  assumes "spec P m (\<lambda>a. Q (Inr a)) (\<lambda>e. Q (Inl e))"
  shows "spec P (tryE m) Q R"
proof (rule specI)
  fix w r w' assume "P w" and "tryE m w = (Inr r, w')"
  then show "Q r w'"
    using specD_Inr [OF assms] specD_Inl [OF assms]
    by (cases r) (auto simp: tryE_def split: prod.splits)
qed (simp add: tryE_def split: prod.splits)

lemma spec_if [spec_rules]:
  "(b \<Longrightarrow> spec P m Q R) \<Longrightarrow> (\<not> b \<Longrightarrow> spec P n Q R) \<Longrightarrow> spec P (if b then m else n) Q R"
  by simp

lemma spec_whenE [spec_rules]:
  "(b \<Longrightarrow> spec P m Q R) \<Longrightarrow> (\<And>w. \<not> b \<Longrightarrow> P w \<Longrightarrow> Q () w) \<Longrightarrow> spec P (whenE b m) Q R"
  by (simp add: whenE_def spec_def ret_def)

lemma spec_option [spec_rules]:
  "(x = None \<Longrightarrow> spec P m Q R) \<Longrightarrow> (\<And>a. x = Some a \<Longrightarrow> spec P (f a) Q R) \<Longrightarrow>
   spec P (case x of None \<Rightarrow> m | Some a \<Rightarrow> f a) Q R"
  by (cases x) auto

lemma spec_sum [spec_rules]:
  "(\<And>e. x = Inl e \<Longrightarrow> spec P (g e) Q R) \<Longrightarrow> (\<And>a. x = Inr a \<Longrightarrow> spec P (f a) Q R) \<Longrightarrow>
   spec P (case x of Inl e \<Rightarrow> g e | Inr a \<Rightarrow> f a) Q R"
  by (cases x) auto

lemma spec_prod [spec_rules]:
  "(\<And>a b. x = (a, b) \<Longrightarrow> spec P (f a b) Q R) \<Longrightarrow> spec P (case x of (a, b) \<Rightarrow> f a b) Q R"
  by (cases x) auto

section \<open>Invariants and frames\<close>

text \<open>\<open>holds I m\<close>: both exits of \<open>m\<close> keep the invariant \<open>I\<close>.\<close>

abbreviation holds :: "('w \<Rightarrow> bool) \<Rightarrow> ('w, 'e, 'a) act \<Rightarrow> bool" where
  "holds I m \<equiv> spec I m (\<lambda>_. I) (\<lambda>_. I)"

lemma holds_bindE [spec_rules]:
  "holds I m \<Longrightarrow> (\<And>a. spec I (f a) Q (\<lambda>_. I)) \<Longrightarrow> spec I (bindE m f) Q (\<lambda>_. I)"
  by (rule spec_bindE)

lemma holds_catchE [spec_rules]:
  "holds I m \<Longrightarrow> (\<And>e. spec I (h e) (\<lambda>_. I) R) \<Longrightarrow> spec I (catchE m h) (\<lambda>_. I) R"
  by (rule spec_catchE)

lemma holdsI: "(\<And>w x w'. I w \<Longrightarrow> m w = (x, w') \<Longrightarrow> I w') \<Longrightarrow> holds I m"
  by (rule specI) blast+

lemma holdsD: "holds I m \<Longrightarrow> m w = (x, w') \<Longrightarrow> I w \<Longrightarrow> I w'"
  by (cases x) (auto dest: specD_Inr specD_Inl)

lemma holds_snd: "holds I m \<Longrightarrow> I w \<Longrightarrow> I (snd (m w))"
  by (rule holdsD [OF _ surjective_pairing])

text \<open>\<open>keeps f m\<close>: whatever \<open>m\<close> does, the part \<open>f\<close> of the state is as before.\<close>

definition keeps :: "('w \<Rightarrow> 'x) \<Rightarrow> ('w, 'e, 'a) act \<Rightarrow> bool" where
  "keeps f m \<longleftrightarrow> (\<forall>w. f (snd (m w)) = f w)"

lemma keepsD: "keeps f m \<Longrightarrow> m w = (r, w') \<Longrightarrow> f w' = f w"
  by (metis keeps_def snd_conv)

lemma keepsI: "(\<And>w r w'. m w = (r, w') \<Longrightarrow> f w' = f w) \<Longrightarrow> keeps f m"
  unfolding keeps_def by (metis prod.collapse)

lemma keeps_holds: "keeps f m \<Longrightarrow> holds (\<lambda>w. J (f w)) m"
  by (rule specI) (auto dest: keepsD)

lemma keeps_ret [keeps_rules]: "keeps f (ret a)"
  by (simp add: keeps_def ret_def)

lemma keeps_failE [keeps_rules]: "keeps f (failE e)"
  by (simp add: keeps_def failE_def)

lemma keeps_getE [keeps_rules]: "keeps f (getE g)"
  by (simp add: keeps_def getE_def)

lemma keeps_putE [keeps_rules]: "(\<And>w. f (g w) = f w) \<Longrightarrow> keeps f (putE g)"
  by (simp add: keeps_def putE_def)

lemma keeps_bindE [keeps_rules]: "keeps f m \<Longrightarrow> (\<And>a. keeps f (g a)) \<Longrightarrow> keeps f (bindE m g)"
  by (simp add: keeps_def bindE_def split: prod.split sum.split) (metis snd_conv)

lemma keeps_catchE [keeps_rules]: "keeps f m \<Longrightarrow> (\<And>e. keeps f (h e)) \<Longrightarrow> keeps f (catchE m h)"
  by (simp add: keeps_def catchE_def split: prod.split sum.split) (metis snd_conv)

lemma keeps_tryE [keeps_rules]: "keeps f m \<Longrightarrow> keeps f (tryE m)"
  by (simp add: keeps_def tryE_def split: prod.split) (metis snd_conv)

lemma keeps_whenE [keeps_rules]: "keeps f m \<Longrightarrow> keeps f (whenE b m)"
  by (simp add: whenE_def keeps_ret)

lemma keeps_if [keeps_rules]:
  "(b \<Longrightarrow> keeps f m) \<Longrightarrow> (\<not> b \<Longrightarrow> keeps f n) \<Longrightarrow> keeps f (if b then m else n)"
  by simp

lemma keeps_option [keeps_rules]:
  "keeps f m \<Longrightarrow> (\<And>a. keeps f (g a)) \<Longrightarrow> keeps f (case x of None \<Rightarrow> m | Some a \<Rightarrow> g a)"
  by (cases x) auto

lemma keeps_sum [keeps_rules]:
  "(\<And>e. keeps f (h e)) \<Longrightarrow> (\<And>a. keeps f (g a)) \<Longrightarrow>
   keeps f (case x of Inl e \<Rightarrow> h e | Inr a \<Rightarrow> g a)"
  by (cases x) auto

lemma keeps_prod [keeps_rules]:
  "(\<And>a b. keeps f (g a b)) \<Longrightarrow> keeps f (case x of (a, b) \<Rightarrow> g a b)"
  by (cases x) auto

section \<open>Rows in lists\<close>

text \<open>
  An SQL table is the list of its rows. \<open>UPDATE \<dots> WHERE\<close> rewrites the matching rows in
  place, \<open>COUNT(*)\<close> is the length of the filtered list, and a lookup over a unique index
  finds at most one row.
\<close>

definition update_where :: "('r \<Rightarrow> bool) \<Rightarrow> ('r \<Rightarrow> 'r) \<Rightarrow> 'r list \<Rightarrow> 'r list" where
  "update_where p f rows = map (\<lambda>r. if p r then f r else r) rows"

definition count_where :: "('r \<Rightarrow> bool) \<Rightarrow> 'r list \<Rightarrow> nat" where
  "count_where p rows = length (filter p rows)"

lemma update_where_Nil [simp]: "update_where p f [] = []"
  by (simp add: update_where_def)

lemma update_where_Cons [simp]:
  "update_where p f (r # rows) = (if p r then f r else r) # update_where p f rows"
  by (simp add: update_where_def)

lemma length_update_where [simp]: "length (update_where p f rows) = length rows"
  by (simp add: update_where_def)

lemma set_update_where: "set (update_where p f rows) = (\<lambda>r. if p r then f r else r) ` set rows"
  by (simp add: update_where_def)

lemma update_where_none: "(\<And>r. r \<in> set rows \<Longrightarrow> \<not> p r) \<Longrightarrow> update_where p f rows = rows"
  by (induction rows) auto

lemma map_update_where:
  "(\<And>r. p r \<Longrightarrow> g (f r) = g r) \<Longrightarrow> map g (update_where p f rows) = map g rows"
  by (induction rows) auto

lemma filter_update_where_same:
  "(\<And>r. p r \<Longrightarrow> q (f r) = q r) \<Longrightarrow>
   filter q (update_where p f rows) = update_where p f (filter q rows)"
  by (induction rows) auto

lemma filter_update_where_other:
  "(\<And>r. p r \<Longrightarrow> \<not> q r \<and> \<not> q (f r)) \<Longrightarrow> filter q (update_where p f rows) = filter q rows"
  by (induction rows) auto

lemma count_where_simps [simp]:
  "count_where p [] = 0"
  "count_where p (r # rows) = (if p r then Suc (count_where p rows) else count_where p rows)"
  by (simp_all add: count_where_def)

lemma count_where_pos: "0 < count_where p rows \<longleftrightarrow> (\<exists>r \<in> set rows. p r)"
  by (induction rows) auto

lemma count_where_eq_0: "count_where p rows = 0 \<longleftrightarrow> (\<forall>r \<in> set rows. \<not> p r)"
  using count_where_pos [of p rows] by auto

lemma count_where_append [simp]: "count_where p (xs @ ys) = count_where p xs + count_where p ys"
  by (simp add: count_where_def)

text \<open>A row that occurs once by its key is the one that \<open>find\<close> returns.\<close>

lemma find_by_key:
  assumes "distinct (map k rows)" and "r \<in> set rows"
  shows "find (\<lambda>x. k x = k r) rows = Some r"
  using assms by (induction rows) (auto simp: image_iff)

lemma find_SomeD: "find p rows = Some r \<Longrightarrow> r \<in> set rows \<and> p r"
  by (induction rows) (auto split: if_splits)

lemma find_NoneD: "find p rows = None \<Longrightarrow> r \<in> set rows \<Longrightarrow> \<not> p r"
  by (auto simp: find_None_iff)

lemma find_only: "u \<in> set us \<Longrightarrow> p u \<Longrightarrow> (\<And>v. v \<in> set us \<Longrightarrow> p v \<Longrightarrow> v = u) \<Longrightarrow> find p us = Some u"
  by (cases "find p us") (metis find_NoneD, metis find_SomeD)

lemma distinct_keyD:
  "distinct (map k rows) \<Longrightarrow> x \<in> set rows \<Longrightarrow> y \<in> set rows \<Longrightarrow> k x = k y \<Longrightarrow> x = y"
  by (auto simp: distinct_map dest: inj_onD)

lemma distinct_map_filterD:
  "distinct (map k (filter p rows)) \<Longrightarrow> x \<in> set rows \<Longrightarrow> y \<in> set rows \<Longrightarrow> p x \<Longrightarrow> p y \<Longrightarrow>
   k x = k y \<Longrightarrow> x = y"
  by (auto simp: distinct_map dest: inj_onD)

end
