(* ===== verification/Domain.thy ===== *)
theory Domain
  imports Prelude
begin

text \<open>
  The entities of \<open>internal/domain\<close> (\<open>User\<close>, \<open>Credential\<close>) and the errors of the
  program as values. A sentinel error is a constructor, so that Go's \<open>errors.Is\<close> is a
  case distinction; an error that the code wraps with \<open>fmt.Errorf\<close> keeps the wrapping
  text and its cause, so that \<open>errors.As\<close> can look through the wrapping as the stores do.
\<close>

section \<open>Entities\<close>

text \<open>
  A Go value of type \<open>[]byte\<close>, where the program can tell \<open>nil\<close> from an empty slice (the
  PostgreSQL driver sends a nil slice as \<open>NULL\<close>): \<open>None\<close> is \<open>nil\<close>. \<open>slice_bytes\<close> is
  what ranging over the slice yields.
\<close>

type_synonym slice = "bytes option"

definition slice_bytes :: "slice \<Rightarrow> bytes" where
  "slice_bytes s = (case s of None \<Rightarrow> [] | Some b \<Rightarrow> b)"

lemma slice_bytes_simps [simp]: "slice_bytes None = []" "slice_bytes (Some b) = b"
  by (simp_all add: slice_bytes_def)

lemma Some_slice_bytes [simp]: "s \<noteq> None \<Longrightarrow> Some (slice_bytes s) = s"
  by (cases s) simp_all

record user =
  user_ID :: uuid
  Username :: string
  DisplayName :: string
  IsGuest :: bool
  user_CreatedAt :: time
  PromotedAt :: "time option"

record credential =
  cred_ID :: uuid
  cred_UserID :: uuid
  CredentialID :: slice
  PublicKey :: slice
  WebAuthnUserHandle :: slice
  AAGUID :: "uuid option"
  SignCount :: "32 word"
  Transports :: "string list"
  AttestationFormat :: string
  AttestationType :: string
  BackupEligible :: bool
  BackupState :: bool
  cred_Name :: "string option"
  cred_CreatedAt :: time
  LastUsedAt :: "time option"

section \<open>Errors\<close>

text \<open>
  What the PostgreSQL driver reports: no row, a constraint violation by its class, or that
  the statement could not be completed (connection lost, context expired, \<dots>).
\<close>

datatype pg_error = NoRows | UniqueViolation | ForeignKeyViolation | NotNullViolation | PgConn

datatype cause = PgCause pg_error | RedisCause | RandCause | OtherCause

datatype err =
    ErrUserNotFound
  | ErrCredentialNotFound
  | ErrUsernameTaken
  | ErrCredentialExists
  | ErrLastCredential
  | ErrSessionNotFound
  | ErrChallengeNotFound
  | ErrGuestNotFound
  | ErrAttestationNotAccepted string
  | ErrAttestationTypeNotAccepted string
  | Wrapped string cause

text \<open>\<open>errors.As(err, &pgErr) && pgErr.Code == pgerrcode.UniqueViolation\<close>\<close>

fun is_unique_violation :: "err \<Rightarrow> bool" where
  "is_unique_violation (Wrapped _ (PgCause UniqueViolation)) = True"
| "is_unique_violation _ = False"

fun_cases is_unique_violationE: "is_unique_violation e"

section \<open>Cookies\<close>

text \<open>
  The fields of \<open>http.Cookie\<close> that the program sets. \<open>MaxAge\<close> is in seconds; a negative
  value asks the browser to drop the cookie.
\<close>

datatype same_site = SameSiteLaxMode | SameSiteStrictMode | SameSiteNoneMode

record cookie =
  ck_Name :: string
  ck_Value :: string
  ck_Path :: string
  ck_HttpOnly :: bool
  ck_Secure :: bool
  ck_SameSite :: same_site
  ck_MaxAge :: int

section \<open>Log lines\<close>

datatype level = LevelInfo | LevelWarn | LevelError

text \<open>
  Level and message; the attributes are those of the request log (\<open>http request\<close>), the
  attributes of the handlers' own lines are left out.
\<close>

datatype attr_value = AStr string | AInt int

record log_entry =
  log_level :: level
  log_msg :: string
  log_attrs :: "(string \<times> attr_value) list"

end
