(* ===== verification/World.thy ===== *)
theory World
  imports Domain
begin

text \<open>
  The state that the program acts on, and the outside services it calls.

  \<^item> Time, the entropy of \<open>crypto/rand\<close>, the two SQL tables of
    \<open>internal/store/postgres/migrations\<close>, the Redis server (a type parameter \<open>'rd\<close>,
    whose commands are the record \<open>redis_client\<close> of the theory \<open>Redis_Client\<close>), the log
    and the header of the response under construction.
  \<^item> PostgreSQL may fail: the state carries a script with one outcome per statement
    (\<open>PgOk\<close>, \<open>PgFail\<close>: the statement did nothing, \<open>PgLost\<close>: it took effect but its
    reply was lost). A theorem that does not mention the script holds for every pattern of
    failures.
  \<^item> \<open>google/uuid\<close> is the record \<open>uuid_lib\<close> of its functions; what the program relies on
    is the predicate \<open>uuid_lib_ok\<close>.
\<close>

section \<open>The uuid library\<close>

record uuid_lib =
  uuid_String :: "uuid \<Rightarrow> string"
  uuid_Parse :: "string \<Rightarrow> uuid option"
  uuid_FromBytes :: "bytes \<Rightarrow> uuid option"
  uuid_NewString :: "nat \<Rightarrow> string"

text \<open>
  Documented behaviour: \<open>Parse\<close> reads back what \<open>String\<close> prints, and \<open>FromBytes\<close>
  copies a slice of exactly sixteen bytes and refuses any other length. \<open>NewString\<close> draws
  its own randomness: it is a function of the number of the call.
\<close>

definition uuid_lib_ok :: "uuid_lib \<Rightarrow> bool" where
  "uuid_lib_ok L \<longleftrightarrow>
     (\<forall>u. uuid_Parse L (uuid_String L u) = Some u) \<and>
     (\<forall>bs. uuid_FromBytes L bs = (if length bs = 16 then Some (UUID bs) else None))"

text \<open>A library that behaves so: a UUID is printed as its bytes, taken as characters.\<close>

definition raw_uuid_lib :: uuid_lib where
  "raw_uuid_lib =
     \<lparr>uuid_String = (\<lambda>u. map (\<lambda>b. char_of (unat b)) (uuid_bytes u)),
      uuid_Parse = (\<lambda>s. Some (UUID (map (\<lambda>c. of_nat (of_char c)) s))),
      uuid_FromBytes = (\<lambda>bs. if length bs = 16 then Some (UUID bs) else None),
      uuid_NewString = (\<lambda>n. replicate n CHR ''x'')\<rparr>"

lemma raw_uuid_lib_ok: "uuid_lib_ok raw_uuid_lib"
proof -
  have "unat (b :: byte) < 256" for b
    using unsigned_less [where 'a = nat, of b] by simp
  then show ?thesis
    by (simp add: uuid_lib_ok_def raw_uuid_lib_def comp_def)
qed

section \<open>Tables\<close>

text \<open>
  A row of the table \<open>credentials\<close>, one field per column. \<open>sign_count\<close> is a
  \<open>BIGINT\<close>, wider than the counter of the domain type. A row of \<open>users\<close> has the
  columns of the domain type \<open>user\<close> and no other.
\<close>

record cred_row =
  row_id :: uuid
  user_id :: uuid
  credential_id :: bytes
  public_key :: bytes
  webauthn_user_handle :: bytes
  aaguid :: "uuid option"
  sign_count :: "64 word"
  transports :: "string list"
  attestation_format :: string
  attestation_type :: string
  backup_eligible :: bool
  backup_state :: bool
  row_name :: "string option"
  created_at :: time
  last_used_at :: "time option"
  deleted_at :: "time option"

datatype pg_outcome = PgOk | PgFail | PgLost

section \<open>The state\<close>

record 'rd world =
  w_now :: time
  w_entropy :: "nat \<Rightarrow> byte option"
  w_epos :: nat
  w_calls :: nat
  w_users :: "user list"
  w_creds :: "cred_row list"
  w_pg :: "pg_outcome list"
  w_genuuid :: "nat \<Rightarrow> uuid"
  w_upos :: nat
  w_rd :: 'rd
  w_log :: "log_entry list"
  w_header :: "cookie list"

type_synonym ('rd, 'a) store_act = "('rd world, err, 'a) act"
type_synonym ('rd, 'a) pg_act = "('rd world, pg_error, 'a) act"

text \<open>The two tables together: what the database holds.\<close>

definition db :: "'rd world \<Rightarrow> user list \<times> cred_row list" where
  "db w = (w_users w, w_creds w)"

lemma db_eq_iff: "db w = db w' \<longleftrightarrow> w_users w = w_users w' \<and> w_creds w = w_creds w'"
  by (simp add: db_def)

lemma db_simps [simp]:
  "db (w\<lparr>w_now := a\<rparr>) = db w"
  "db (w\<lparr>w_epos := n\<rparr>) = db w"
  "db (w\<lparr>w_calls := n\<rparr>) = db w"
  "db (w\<lparr>w_pg := p\<rparr>) = db w"
  "db (w\<lparr>w_upos := n\<rparr>) = db w"
  "db (w\<lparr>w_rd := r\<rparr>) = db w"
  "db (w\<lparr>w_log := l\<rparr>) = db w"
  "db (w\<lparr>w_header := h\<rparr>) = db w"
  by (simp_all add: db_def)

section \<open>Randomness\<close>

text \<open>
  \<open>rand.Read\<close> of \<open>n\<close> bytes takes the next \<open>n\<close> cells of the entropy tape; an empty cell
  makes the read fail.
\<close>

definition rand_Read :: "nat \<Rightarrow> ('rd world, cause, bytes) act" where
  "rand_Read n = (\<lambda>w.
     let cells = map (w_entropy w) [w_epos w ..< w_epos w + n];
         w' = w\<lparr>w_epos := w_epos w + n\<rparr>
     in if None \<in> set cells then (Inl RandCause, w') else (Inr (map the cells), w'))"

lemma length_rand_Read: "rand_Read n w = (Inr bs, w') \<Longrightarrow> length bs = n"
  by (auto simp: rand_Read_def Let_def split: if_splits)

lemma map_Some_the: "None \<notin> set xs \<Longrightarrow> map Some (map the xs) = xs"
  by (induction xs) auto

lemma rand_Read_Inr:
  "rand_Read n w = (Inr bs, w') \<Longrightarrow> map Some bs = map (w_entropy w) [w_epos w ..< w_epos w + n]"
  using map_Some_the [of "map (w_entropy w) [w_epos w ..< w_epos w + n]"]
  by (auto simp: rand_Read_def Let_def split: if_splits)

lemma rand_Read_state: "snd (rand_Read n w) = w\<lparr>w_epos := w_epos w + n\<rparr>"
  by (simp add: rand_Read_def Let_def)

text \<open>A tape without empty cells never fails.\<close>

definition entropy_ok :: "'rd world \<Rightarrow> bool" where
  "entropy_ok w \<longleftrightarrow> (\<forall>n. w_entropy w n \<noteq> None)"

lemma rand_Read_ok:
  assumes "entropy_ok w"
  obtains bs where "rand_Read n w = (Inr bs, w\<lparr>w_epos := w_epos w + n\<rparr>)"
proof -
  have "None \<notin> set (map (w_entropy w) [w_epos w ..< w_epos w + n])"
    using assms by (auto simp: entropy_ok_def) (metis option.distinct(1))
  then show thesis
    using that unfolding rand_Read_def Let_def by simp
qed

lemma keeps_rand_Read [keeps_rules]: "(\<And>w k. f (w\<lparr>w_epos := k\<rparr>) = f w) \<Longrightarrow> keeps f (rand_Read n)"
  by (simp add: keeps_def rand_Read_state)

text \<open>A call of a library function that draws its own randomness gets a number of its own.\<close>

definition next_call :: "('rd world, 'e, nat) act" where
  "next_call = (\<lambda>w. (Inr (w_calls w), w\<lparr>w_calls := Suc (w_calls w)\<rparr>))"

lemma keeps_next_call [keeps_rules]: "(\<And>w k. f (w\<lparr>w_calls := k\<rparr>) = f w) \<Longrightarrow> keeps f next_call"
  by (simp add: keeps_def next_call_def)

section \<open>Logging\<close>

definition logE :: "level \<Rightarrow> string \<Rightarrow> ('rd world, 'e, unit) act" where
  "logE lv msg = putE (\<lambda>w. w\<lparr>w_log := w_log w @ [\<lparr>log_level = lv, log_msg = msg, log_attrs = []\<rparr>]\<rparr>)"

lemma keeps_logE [keeps_rules]: "(\<And>w k. f (w\<lparr>w_log := k\<rparr>) = f w) \<Longrightarrow> keeps f (logE lv msg)"
  by (simp add: logE_def keeps_putE)

section \<open>One SQL statement\<close>

text \<open>
  A statement is a function on the state that either reports a database error and changes
  no table or takes effect. \<open>pg_stmt\<close> runs it under the next outcome of the script.
\<close>

definition pg_next :: "'rd world \<Rightarrow> pg_outcome \<times> 'rd world" where
  "pg_next w = (case w_pg w of [] \<Rightarrow> (PgOk, w) | x # xs \<Rightarrow> (x, w\<lparr>w_pg := xs\<rparr>))"

definition pg_stmt :: "('rd, 'a) pg_act \<Rightarrow> ('rd, 'a) pg_act" where
  "pg_stmt q = (\<lambda>w. case pg_next w of
      (PgOk, w1) \<Rightarrow> q w1
    | (PgFail, w1) \<Rightarrow> (Inl PgConn, w1)
    | (PgLost, w1) \<Rightarrow> (Inl PgConn, snd (q w1)))"

text \<open>\<open>pg_up w\<close>: no failure is scripted.\<close>

definition pg_up :: "'rd world \<Rightarrow> bool" where
  "pg_up w \<longleftrightarrow> w_pg w = []"

lemma pg_up_simps [simp]:
  "pg_up (w\<lparr>w_now := a\<rparr>) = pg_up w"
  "pg_up (w\<lparr>w_epos := n\<rparr>) = pg_up w"
  "pg_up (w\<lparr>w_calls := n\<rparr>) = pg_up w"
  "pg_up (w\<lparr>w_users := us\<rparr>) = pg_up w"
  "pg_up (w\<lparr>w_creds := cs\<rparr>) = pg_up w"
  "pg_up (w\<lparr>w_upos := n\<rparr>) = pg_up w"
  "pg_up (w\<lparr>w_rd := r\<rparr>) = pg_up w"
  "pg_up (w\<lparr>w_log := l\<rparr>) = pg_up w"
  "pg_up (w\<lparr>w_header := h\<rparr>) = pg_up w"
  by (simp_all add: pg_up_def)

lemma pg_stmt_up: "pg_up w \<Longrightarrow> pg_stmt q w = q w"
  by (simp add: pg_stmt_def pg_next_def pg_up_def)

lemma pg_next_state: "pg_next w = (x, w') \<Longrightarrow> \<exists>xs. w' = w\<lparr>w_pg := xs\<rparr>"
  by (cases "w_pg w") (auto simp: pg_next_def intro: exI [of _ "w_pg w"])

text \<open>
  Whatever the script says, a statement leaves the state either as it was, up to the script,
  or as its own effect leaves it; and a value comes from a run of the statement itself.
\<close>

lemma pg_stmt_cases:
  assumes "pg_stmt q w = (r, w')"
  obtains (ran) w1 xs where "w1 = w\<lparr>w_pg := xs\<rparr>" and "q w1 = (r, w')"
  | (failed) xs where "r = Inl PgConn" and "w' = w\<lparr>w_pg := xs\<rparr>"
  | (lost) w1 xs where "r = Inl PgConn" and "w1 = w\<lparr>w_pg := xs\<rparr>" and "w' = snd (q w1)"
proof (cases "pg_next w")
  case (Pair x w1)
  then obtain xs where w1: "w1 = w\<lparr>w_pg := xs\<rparr>"
    using pg_next_state by blast
  show ?thesis
    using assms Pair w1 ran failed lost by (cases x) (auto simp: pg_stmt_def)
qed

lemma keeps_pg_stmt [keeps_rules]:
  assumes "\<And>w k. f (w\<lparr>w_pg := k\<rparr>) = f w" and "keeps f q"
  shows "keeps f (pg_stmt q)"
proof (rule keepsI)
  fix w r w' assume "pg_stmt q w = (r, w')"
  then show "f w' = f w"
    using assms by (cases rule: pg_stmt_cases) (auto simp: keeps_def, metis snd_conv)
qed

lemma holds_pg_stmt [spec_rules]:
  assumes "\<And>w k. I w \<Longrightarrow> I (w\<lparr>w_pg := k\<rparr>)" and "holds I q"
  shows "holds I (pg_stmt q)"
proof -
  have q: "I (snd (q w))" if "I w" for w
    using assms(2) that by (rule holds_snd)
  have "I w'" if "I w" and "pg_stmt q w = (r, w')" for w r w'
    using that(2) by (cases rule: pg_stmt_cases) (use that(1) assms(1) q in \<open>auto, metis snd_conv\<close>)
  then show ?thesis by (blast intro: specI)
qed

text \<open>
  The general rule: the conditions may not depend on the script, and a lost or failed
  statement must leave a state that the error condition allows.
\<close>

lemma spec_pg_stmt:
  assumes P: "\<And>w k. P w \<Longrightarrow> P (w\<lparr>w_pg := k\<rparr>)" and q: "spec P q Q R"
    and "\<And>w. P w \<Longrightarrow> R PgConn w" and "\<And>a w. Q a w \<Longrightarrow> R PgConn w" and "\<And>e w. R e w \<Longrightarrow> R PgConn w"
  shows "spec P (pg_stmt q) Q R"
proof -
  have lost: "R PgConn (snd (q w))" if "P w" for w
    using that assms by (cases "q w"; cases "fst (q w)") (auto dest: specD_Inr specD_Inl)
  have "case r of Inr a \<Rightarrow> Q a w' | Inl e \<Rightarrow> R e w'" if "P w" and "pg_stmt q w = (r, w')" for w r w'
    using that(2)
    by (cases rule: pg_stmt_cases)
       (use that(1) assms lost in \<open>auto split: sum.split dest: specD_Inr specD_Inl\<close>)
  then show ?thesis
    by (fastforce simp: spec_def split: prod.split sum.split)
qed

text \<open>A query: reads the state, and reports a missing row as \<open>NoRows\<close>.\<close>

definition pg_query :: "('rd world \<Rightarrow> 'a option) \<Rightarrow> ('rd, 'a) pg_act" where
  "pg_query f = (\<lambda>w. case f w of None \<Rightarrow> (Inl NoRows, w) | Some a \<Rightarrow> (Inr a, w))"

lemma keeps_pg_query [keeps_rules]: "keeps g (pg_query f)"
  by (auto simp: keeps_def pg_query_def split: option.split)

lemma pg_query_Inr: "pg_query f w = (Inr a, w') \<longleftrightarrow> f w = Some a \<and> w' = w"
  by (auto simp: pg_query_def split: option.splits)

section \<open>A start state\<close>

text \<open>
  Empty tables at time 0, no scripted failure, an entropy tape and a UUID supply that count:
  the state from which the concrete runs of the development start.
\<close>

definition start_world :: "'rd \<Rightarrow> 'rd world" where
  "start_world r =
     \<lparr>w_now = 0, w_entropy = (\<lambda>n. Some (of_nat n)), w_epos = 0, w_calls = 0,
      w_users = [], w_creds = [], w_pg = [],
      w_genuuid = (\<lambda>n. UUID (replicate 15 0 @ [of_nat n])), w_upos = 0,
      w_rd = r, w_log = [], w_header = []\<rparr>"

lemma start_world_simps [simp]:
  "w_now (start_world r) = 0" "w_users (start_world r) = []" "w_creds (start_world r) = []"
  "w_pg (start_world r) = []" "w_rd (start_world r) = r" "w_upos (start_world r) = 0"
  "w_epos (start_world r) = 0" "w_calls (start_world r) = 0"
  "w_log (start_world r) = []" "w_header (start_world r) = []"
  "w_genuuid (start_world r) n = UUID (replicate 15 0 @ [of_nat n])"
  "w_entropy (start_world r) n = Some (of_nat n)" "pg_up (start_world r)" "entropy_ok (start_world r)"
  by (simp_all add: start_world_def pg_up_def entropy_ok_def)

end
