(* ===== verification/Postgres_Users.thy ===== *)
theory Postgres_Users
  imports World
begin

text \<open>
  \<open>internal/store/postgres/user.go\<close> over the table \<open>users\<close> of
  \<open>migrations/000001_init.up.sql\<close>. Each SQL statement of the source is one definition on
  the list of rows, with the table's constraints (primary key, the partial unique index on
  the usernames of registered rows) checked as PostgreSQL checks them; each method of
  \<open>UserStore\<close> runs its statement under the failure script and maps the driver's errors as
  the Go code does.

  Shown: the constraints hold after every method whatever fails; what each method returns
  and changes on every branch.
\<close>

section \<open>The table and its constraints\<close>

text \<open>\<open>PRIMARY KEY (id)\<close> and \<open>users_username_unique_registered\<close>.\<close>

definition users_ok :: "user list \<Rightarrow> bool" where
  "users_ok us \<longleftrightarrow>
     distinct (map user_ID us) \<and> distinct (map Username (filter (\<lambda>u. \<not> IsGuest u) us))"

definition username_taken :: "user list \<Rightarrow> string \<Rightarrow> bool" where
  "username_taken us n \<longleftrightarrow> (\<exists>u \<in> set us. \<not> IsGuest u \<and> Username u = n)"

section \<open>SQL statements\<close>

text \<open>\<open>INSERT INTO users (username, display_name, is_guest) VALUES \<dots> RETURNING \<dots>\<close>\<close>

definition insert_user :: "string \<Rightarrow> string \<Rightarrow> bool \<Rightarrow> ('rd, user) pg_act" where
  "insert_user n d guest = (\<lambda>w.
     let row = \<lparr>user_ID = w_genuuid w (w_upos w), Username = n, DisplayName = d,
                IsGuest = guest, user_CreatedAt = w_now w, PromotedAt = None\<rparr>;
         w1 = w\<lparr>w_upos := Suc (w_upos w)\<rparr>
     in if user_ID row \<in> user_ID ` set (w_users w) \<or> (\<not> guest \<and> username_taken (w_users w) n)
        then (Inl UniqueViolation, w1)
        else (Inr row, w1\<lparr>w_users := w_users w @ [row]\<rparr>))"

text \<open>\<open>UPDATE users SET \<dots> WHERE id = $1 AND is_guest = TRUE RETURNING \<dots>\<close>\<close>

definition promote_row :: "string \<Rightarrow> string \<Rightarrow> time \<Rightarrow> user \<Rightarrow> user" where
  "promote_row n d now u =
     u\<lparr>Username := n, DisplayName := d, IsGuest := False, PromotedAt := Some now\<rparr>"

definition update_promote :: "uuid \<Rightarrow> string \<Rightarrow> string \<Rightarrow> ('rd, user) pg_act" where
  "update_promote i n d = (\<lambda>w.
     case find (\<lambda>u. user_ID u = i \<and> IsGuest u) (w_users w) of
       None \<Rightarrow> (Inl NoRows, w)
     | Some u \<Rightarrow>
         if username_taken (w_users w) n then (Inl UniqueViolation, w)
         else (Inr (promote_row n d (w_now w) u),
               w\<lparr>w_users := update_where (\<lambda>u. user_ID u = i \<and> IsGuest u)
                              (promote_row n d (w_now w)) (w_users w)\<rparr>))"

definition select_user_by_id :: "uuid \<Rightarrow> 'rd world \<Rightarrow> user option" where
  "select_user_by_id i w = find (\<lambda>u. user_ID u = i) (w_users w)"

definition select_user_by_username :: "string \<Rightarrow> 'rd world \<Rightarrow> user option" where
  "select_user_by_username n w = find (\<lambda>u. Username u = n \<and> \<not> IsGuest u) (w_users w)"

section \<open>UserStore\<close>

definition scanUser :: "('rd, user) pg_act \<Rightarrow> ('rd, user) store_act" where
  "scanUser row = catchE row (\<lambda>p.
     if p = NoRows then failE ErrUserNotFound else failE (Wrapped ''scan user'' (PgCause p)))"

definition UserStore_CreateGuest :: "string \<Rightarrow> string \<Rightarrow> ('rd, user) store_act" where
  "UserStore_CreateGuest n d = scanUser (pg_stmt (insert_user n d True))"

definition UserStore_CreateRegistered :: "string \<Rightarrow> string \<Rightarrow> ('rd, user) store_act" where
  "UserStore_CreateRegistered n d =
     catchE (scanUser (pg_stmt (insert_user n d False))) (\<lambda>e.
       if is_unique_violation e then failE ErrUsernameTaken else failE e)"

definition UserStore_GetByID :: "uuid \<Rightarrow> ('rd, user) store_act" where
  "UserStore_GetByID i = scanUser (pg_stmt (pg_query (select_user_by_id i)))"

definition UserStore_GetByUsername :: "string \<Rightarrow> ('rd, user) store_act" where
  "UserStore_GetByUsername n = scanUser (pg_stmt (pg_query (select_user_by_username n)))"

definition UserStore_PromoteGuest :: "uuid \<Rightarrow> string \<Rightarrow> string \<Rightarrow> ('rd, user) store_act" where
  "UserStore_PromoteGuest i n d =
     catchE (scanUser (pg_stmt (update_promote i n d))) (\<lambda>e.
       if is_unique_violation e then failE ErrUsernameTaken else failE e)"

lemmas user_store_defs =
  UserStore_CreateGuest_def UserStore_CreateRegistered_def UserStore_GetByID_def
  UserStore_GetByUsername_def UserStore_PromoteGuest_def scanUser_def

section \<open>The constraints hold\<close>

lemma users_ok_Nil: "users_ok []"
  by (simp add: users_ok_def)

lemma users_ok_insert:
  assumes "users_ok us" and "user_ID u \<notin> user_ID ` set us"
    and "IsGuest u \<or> \<not> username_taken us (Username u)"
  shows "users_ok (us @ [u])"
  using assms by (auto simp: users_ok_def username_taken_def)

lemma promote_row_simps [simp]:
  "user_ID (promote_row n d t u) = user_ID u" "Username (promote_row n d t u) = n"
  "DisplayName (promote_row n d t u) = d" "\<not> IsGuest (promote_row n d t u)"
  "user_CreatedAt (promote_row n d t u) = user_CreatedAt u"
  "PromotedAt (promote_row n d t u) = Some t"
  by (simp_all add: promote_row_def)

lemma promote_ids:
  "user_ID ` set (update_where p (promote_row n d t) us) = user_ID ` set us"
  using map_update_where [of p user_ID "promote_row n d t" us] by (metis list.set_map promote_row_simps(1))

lemma username_taken_Cons [simp]:
  "username_taken (u # us) n \<longleftrightarrow> \<not> IsGuest u \<and> Username u = n \<or> username_taken us n"
  by (auto simp: username_taken_def)

lemma username_takenD: "u \<in> set us \<Longrightarrow> \<not> IsGuest u \<Longrightarrow> username_taken us (Username u)"
  by (auto simp: username_taken_def)

lemma users_ok_Cons:
  "users_ok (u # us) \<longleftrightarrow>
     user_ID u \<notin> user_ID ` set us \<and> (IsGuest u \<or> \<not> username_taken us (Username u)) \<and> users_ok us"
  by (auto simp: users_ok_def username_taken_def image_iff)

lemma username_taken_promote:
  "username_taken (update_where (\<lambda>u. user_ID u = i \<and> IsGuest u) (promote_row n d t) us) m \<Longrightarrow>
   username_taken us m \<or> m = n"
  by (auto simp: username_taken_def set_update_where split: if_splits)

lemma users_ok_promote:
  assumes "users_ok us" and "\<not> username_taken us n"
  shows "users_ok (update_where (\<lambda>u. user_ID u = i \<and> IsGuest u) (promote_row n d t) us)"
  using assms
proof (induction us)
  case Nil
  then show ?case by (simp add: users_ok_def)
next
  case (Cons u us)
  let ?p = "\<lambda>u. user_ID u = i \<and> IsGuest u" and ?f = "promote_row n d t"
  note ids = promote_ids [of ?p n d t us]
  show ?case
  proof (cases "?p u")
    case True
    with Cons.prems have "\<And>x. x \<in> set us \<Longrightarrow> \<not> ?p x"
      by (auto simp: users_ok_Cons image_iff)
    then have "update_where ?p ?f us = us" by (rule update_where_none)
    with True Cons.prems show ?thesis
      by (auto simp: users_ok_Cons)
  next
    case False
    with Cons ids show ?thesis
      by (auto simp: users_ok_Cons dest: username_taken_promote)
  qed
qed

lemma holds_insert_user: "holds (\<lambda>w. users_ok (w_users w)) (insert_user n d g)"
  by (rule specI) (auto simp: insert_user_def Let_def split: if_splits intro: users_ok_insert)

lemma holds_update_promote: "holds (\<lambda>w. users_ok (w_users w)) (update_promote i n d)"
  by (rule specI)
     (auto simp: update_promote_def split: option.splits if_splits intro: users_ok_promote)

lemma holds_scanUser [spec_rules]: "holds I q \<Longrightarrow> holds I (scanUser q)"
  unfolding scanUser_def by (intro spec_rules; simp)

lemma user_store_users_ok:
  "holds (\<lambda>w. users_ok (w_users w)) (UserStore_CreateGuest n d)"
  "holds (\<lambda>w. users_ok (w_users w)) (UserStore_CreateRegistered n d)"
  "holds (\<lambda>w. users_ok (w_users w)) (UserStore_PromoteGuest i n d)"
  unfolding user_store_defs
  by (intro spec_rules holds_insert_user holds_update_promote; simp)+

section \<open>Frames\<close>

lemma keeps_scanUser [keeps_rules]: "keeps f q \<Longrightarrow> keeps f (scanUser q)"
  unfolding scanUser_def by (intro keeps_rules; simp)

lemma keeps_GetByID [keeps_rules]:
  "(\<And>w k. f (w\<lparr>w_pg := k\<rparr>) = f w) \<Longrightarrow> keeps f (UserStore_GetByID i)"
  unfolding UserStore_GetByID_def by (intro keeps_rules)

lemma keeps_GetByUsername [keeps_rules]:
  "(\<And>w k. f (w\<lparr>w_pg := k\<rparr>) = f w) \<Longrightarrow> keeps f (UserStore_GetByUsername n)"
  unfolding UserStore_GetByUsername_def by (intro keeps_rules)

lemma keeps_insert_user:
  "(\<And>w k. f (w\<lparr>w_upos := k\<rparr>) = f w) \<Longrightarrow> (\<And>w k. f (w\<lparr>w_users := k\<rparr>) = f w) \<Longrightarrow>
   keeps f (insert_user n d g)"
  by (simp add: keeps_def insert_user_def Let_def)

lemma keeps_user_writes [keeps_rules]:
  assumes "\<And>w k. f (w\<lparr>w_upos := k\<rparr>) = f w" "\<And>w k. f (w\<lparr>w_users := k\<rparr>) = f w"
    "\<And>w k. f (w\<lparr>w_pg := k\<rparr>) = f w"
  shows "keeps f (UserStore_CreateGuest n d)" and "keeps f (UserStore_CreateRegistered n d)"
    and "keeps f (UserStore_PromoteGuest i n d)"
proof -
  have "keeps f (update_promote i n d)"
    by (simp add: keeps_def update_promote_def assms split: option.split)
  then show "keeps f (UserStore_PromoteGuest i n d)"
    unfolding UserStore_PromoteGuest_def by (intro keeps_rules assms) auto
  show "keeps f (UserStore_CreateGuest n d)" and "keeps f (UserStore_CreateRegistered n d)"
    unfolding UserStore_CreateGuest_def UserStore_CreateRegistered_def
    by (intro keeps_rules keeps_insert_user assms; simp)+
qed

section \<open>What the methods do\<close>

text \<open>
  \<open>fresh_uuid w\<close>: the id that \<open>gen_random_uuid()\<close> hands out next is not in use as a
  user id. (It is a random 122-bit number; a collision is a primary-key violation, which the
  statements above report as such.)
\<close>

definition fresh_user_uuid :: "'rd world \<Rightarrow> bool" where
  "fresh_user_uuid w \<longleftrightarrow> w_genuuid w (w_upos w) \<notin> user_ID ` set (w_users w)"

lemma scanUser_Inr: "scanUser q w = (Inr u, w') \<longleftrightarrow> q w = (Inr u, w')"
  by (auto simp: scanUser_def catchE_def failE_def split: prod.splits sum.splits)

text \<open>A user row that a method returns is a row of the table afterwards.\<close>

lemma CreateRegistered_Inr:
  assumes "UserStore_CreateRegistered n d w = (Inr u, w')"
  shows "w_users w' = w_users w @ [u]" and "\<not> IsGuest u" and "Username u = n" and "DisplayName u = d"
    and "\<not> username_taken (w_users w) n" and "user_ID u \<notin> user_ID ` set (w_users w)"
    and "w_creds w' = w_creds w"
proof -
  have "pg_stmt (insert_user n d False) w = (Inr u, w')"
    using assms by (auto simp: UserStore_CreateRegistered_def catchE_def failE_def scanUser_Inr
        split: prod.splits sum.splits if_splits)
  then obtain xs where "insert_user n d False (w\<lparr>w_pg := xs\<rparr>) = (Inr u, w')"
    by (cases rule: pg_stmt_cases) auto
  then show "w_users w' = w_users w @ [u]" and "\<not> IsGuest u" and "Username u = n"
    and "DisplayName u = d" and "\<not> username_taken (w_users w) n"
    and "user_ID u \<notin> user_ID ` set (w_users w)" and "w_creds w' = w_creds w"
    by (auto simp: insert_user_def Let_def split: if_splits)
qed

lemma CreateGuest_Inr:
  assumes "UserStore_CreateGuest n d w = (Inr u, w')"
  shows "w_users w' = w_users w @ [u]" and "IsGuest u" and "Username u = n" and "DisplayName u = d"
    and "user_ID u \<notin> user_ID ` set (w_users w)" and "w_creds w' = w_creds w"
proof -
  have "pg_stmt (insert_user n d True) w = (Inr u, w')"
    using assms by (simp add: UserStore_CreateGuest_def scanUser_Inr)
  then obtain xs where "insert_user n d True (w\<lparr>w_pg := xs\<rparr>) = (Inr u, w')"
    by (cases rule: pg_stmt_cases) auto
  then show "w_users w' = w_users w @ [u]" and "IsGuest u" and "Username u = n"
    and "DisplayName u = d" and "user_ID u \<notin> user_ID ` set (w_users w)" and "w_creds w' = w_creds w"
    by (auto simp: insert_user_def Let_def split: if_splits)
qed

lemma GetByID_found:
  assumes "pg_up w" and "u \<in> set (w_users w)" and "\<And>v. v \<in> set (w_users w) \<Longrightarrow> user_ID v = user_ID u \<Longrightarrow> v = u"
  shows "UserStore_GetByID (user_ID u) w = (Inr u, w)"
proof -
  have "find (\<lambda>v. user_ID v = user_ID u) (w_users w) = Some u"
    using assms(2,3) by (intro find_only) auto
  then show ?thesis
    using assms(1) by (simp add: UserStore_GetByID_def scanUser_Inr pg_stmt_up pg_query_def select_user_by_id_def)
qed

lemma GetByID_Inr:
  assumes "UserStore_GetByID i w = (Inr u, w')"
  shows "u \<in> set (w_users w)" and "user_ID u = i" and "\<exists>xs. w' = w\<lparr>w_pg := xs\<rparr>"
proof -
  have "pg_stmt (pg_query (select_user_by_id i)) w = (Inr u, w')"
    using assms by (simp add: UserStore_GetByID_def scanUser_Inr)
  then obtain xs where "select_user_by_id i (w\<lparr>w_pg := xs\<rparr>) = Some u" and "w' = w\<lparr>w_pg := xs\<rparr>"
    by (cases rule: pg_stmt_cases) (auto simp: pg_query_Inr)
  then show "u \<in> set (w_users w)" and "user_ID u = i" and "\<exists>xs. w' = w\<lparr>w_pg := xs\<rparr>"
    by (auto simp: select_user_by_id_def dest: find_SomeD)
qed

lemma PromoteGuest_Inr:
  assumes "UserStore_PromoteGuest i n d w = (Inr u, w')"
  obtains g where "g \<in> set (w_users w)" and "user_ID g = i" and "IsGuest g"
    and "u = promote_row n d (w_now w) g" and "\<not> username_taken (w_users w) n"
    and "w_users w' = update_where (\<lambda>u. user_ID u = i \<and> IsGuest u) (promote_row n d (w_now w)) (w_users w)"
    and "w_creds w' = w_creds w"
proof -
  have "pg_stmt (update_promote i n d) w = (Inr u, w')"
    using assms by (auto simp: UserStore_PromoteGuest_def catchE_def failE_def scanUser_Inr
        split: prod.splits sum.splits if_splits)
  then obtain xs where "update_promote i n d (w\<lparr>w_pg := xs\<rparr>) = (Inr u, w')"
    by (cases rule: pg_stmt_cases) auto
  then show thesis
    using that by (auto simp: update_promote_def split: option.splits if_splits dest!: find_SomeD)
qed

lemmas user_store_Inr = CreateRegistered_Inr CreateGuest_Inr GetByID_Inr

section \<open>Properties\<close>

text \<open>
  \<open>CreateRegistered\<close>, when PostgreSQL answers and hands out an unused id, inserts
  exactly one registered row with the given names and returns it if no registered user has
  the username, and otherwise returns \<open>ErrUsernameTaken\<close> and leaves the tables alone.
\<close>

lemma CreateRegistered_functional:
  assumes "pg_up w" and "fresh_user_uuid w"
  shows "UserStore_CreateRegistered n d w =
    (let w1 = w\<lparr>w_upos := Suc (w_upos w)\<rparr>;
         u = \<lparr>user_ID = w_genuuid w (w_upos w), Username = n, DisplayName = d, IsGuest = False,
              user_CreatedAt = w_now w, PromotedAt = None\<rparr>
     in if username_taken (w_users w) n then (Inl ErrUsernameTaken, w1)
        else (Inr u, w1\<lparr>w_users := w_users w @ [u]\<rparr>))"
  using assms
  by (simp add: UserStore_CreateRegistered_def scanUser_def catchE_def failE_def pg_stmt_up
      insert_user_def fresh_user_uuid_def Let_def)

lemma CreateRegistered_functional_example:
  "fst (UserStore_CreateRegistered ''alice'' ''Alice'' (start_world ())) =
     Inr \<lparr>user_ID = UUID (replicate 16 0), Username = ''alice'', DisplayName = ''Alice'',
          IsGuest = False, user_CreatedAt = 0, PromotedAt = None\<rparr>"
proof -
  have "fresh_user_uuid (start_world ())" by (simp add: fresh_user_uuid_def)
  then show ?thesis
    using CreateRegistered_functional [of "start_world ()" "''alice''" "''Alice''"]
    by (simp add: Let_def username_taken_def numeral_eq_Suc)
qed

text \<open>
  A successful \<open>PromoteGuest\<close> turns the guest row with that id, and no other row, into
  a registered one: it keeps its id and creation time and carries the chosen names and a
  promotion time; a lookup by any other id returns what it returned before.
\<close>

lemma PromoteGuest_result:
  assumes "users_ok (w_users w)" and "UserStore_PromoteGuest i n d w = (Inr u, w')"
  shows "\<exists>g. select_user_by_id i w = Some g \<and> IsGuest g
      \<and> u = g\<lparr>Username := n, DisplayName := d, IsGuest := False, PromotedAt := Some (w_now w)\<rparr>
      \<and> select_user_by_id i w' = Some u \<and> (\<forall>j. j \<noteq> i \<longrightarrow> select_user_by_id j w' = select_user_by_id j w)
      \<and> length (w_users w') = length (w_users w)"
proof -
  let ?p = "\<lambda>u. user_ID u = i \<and> IsGuest u" and ?f = "promote_row n d (w_now w)"
  from assms(2) obtain g where g: "g \<in> set (w_users w)" "user_ID g = i" "IsGuest g" "u = ?f g"
    and us: "w_users w' = update_where ?p ?f (w_users w)"
    by (rule PromoteGuest_Inr)
  have ids: "distinct (map user_ID (w_users w))"
    using assms(1) by (simp add: users_ok_def)
  then have before: "select_user_by_id i w = Some g"
    using g find_by_key [of user_ID "w_users w" g] by (simp add: select_user_by_id_def)
  have "map user_ID (w_users w') = map user_ID (w_users w)"
    by (simp add: us map_update_where)
  with ids have "distinct (map user_ID (w_users w'))" by simp
  moreover have "u \<in> set (w_users w')"
    using g us by (force simp: set_update_where)
  ultimately have after: "select_user_by_id i w' = Some u"
    using g find_by_key [of user_ID "w_users w'" u] by (simp add: select_user_by_id_def)
  have "find (\<lambda>u. user_ID u = j) (update_where ?p ?f xs) = find (\<lambda>u. user_ID u = j) xs"
    if "j \<noteq> i" for j xs
    using that by (induction xs) auto
  then show ?thesis
    using before after g us by (auto simp: select_user_by_id_def promote_row_def)
qed

lemma PromoteGuest_result_example:
  "\<exists>u w'. UserStore_PromoteGuest (UUID (replicate 16 0)) ''bob'' ''Bob''
      (snd (UserStore_CreateGuest ''guest-1'' ''Guest'' (start_world ()))) = (Inr u, w')
    \<and> select_user_by_id (UUID (replicate 16 0)) w' = Some u \<and> Username u = ''bob''"
proof -
  let ?w = "snd (UserStore_CreateGuest ''guest-1'' ''Guest'' (start_world ()))"
  have ok: "users_ok (w_users ?w)"
    by (simp add: user_store_defs catchE_def failE_def pg_stmt_up insert_user_def Let_def users_ok_def)
  obtain u w' where run: "UserStore_PromoteGuest (UUID (replicate 16 0)) ''bob'' ''Bob'' ?w = (Inr u, w')"
    by (simp add: user_store_defs catchE_def failE_def pg_stmt_up insert_user_def Let_def
        update_promote_def username_taken_def numeral_eq_Suc)
  then show ?thesis
    using PromoteGuest_result [OF ok run] by fastforce
qed

text \<open>
  C23: a registered username is claimed once. After a successful \<open>CreateRegistered\<close>, in
  every later state that still has the created row (other rows may have come and changed),
  no second \<open>CreateRegistered\<close> and no \<open>PromoteGuest\<close> of any guest obtains the same
  username, whatever PostgreSQL does in between its answers.
\<close>

theorem username_claimed_once:
  assumes "UserStore_CreateRegistered n d w = (Inr u, w1)" and "u \<in> set (w_users w2)"
  shows "(\<forall>d' v w3. UserStore_CreateRegistered n d' w2 \<noteq> (Inr v, w3))
       \<and> (\<forall>i d' v w3. UserStore_PromoteGuest i n d' w2 \<noteq> (Inr v, w3))"
proof -
  have "username_taken (w_users w2) n"
    using CreateRegistered_Inr [OF assms(1)] assms(2) by (auto simp: username_taken_def)
  then show ?thesis
    by (metis CreateRegistered_Inr(5) PromoteGuest_Inr)
qed

theorem username_claimed_once_witness:
  "\<forall>d v w3. UserStore_CreateRegistered ''alice'' d
      (snd (UserStore_CreateRegistered ''alice'' ''Alice'' (start_world ()))) \<noteq> (Inr v, w3)"
proof -
  obtain u w1 where "UserStore_CreateRegistered ''alice'' ''Alice'' (start_world ()) = (Inr u, w1)"
    by (simp add: user_store_defs catchE_def failE_def pg_stmt_up insert_user_def Let_def
        username_taken_def)
  then show ?thesis
    using username_claimed_once [of "''alice''" "''Alice''" "start_world ()" u w1 w1]
    by (simp add: CreateRegistered_Inr)
qed

end
