(* ===== verification/Postgres_Credentials.thy ===== *)
theory Postgres_Credentials
  imports Postgres_Users
begin

text \<open>
  \<open>internal/store/postgres/credential.go\<close> over the table \<open>credentials\<close>: the SQL
  statements on the list of rows with the table's constraints (\<open>NOT NULL\<close> on the three
  \<open>BYTEA\<close> columns, primary key, the partial unique index on the credential ids of live
  rows, the foreign key to \<open>users\<close>), and the
  methods of \<open>CredentialStore\<close>. \<open>SoftDelete\<close> is a transaction of three statements whose
  write becomes visible at the commit; interleavings of several such transactions are the
  subject of the theory \<open>SoftDelete_Concurrency\<close>.
\<close>

section \<open>The table and its constraints\<close>

definition live :: "cred_row \<Rightarrow> bool" where
  "live r \<longleftrightarrow> deleted_at r = None"

definition creds_ok :: "user list \<Rightarrow> cred_row list \<Rightarrow> bool" where
  "creds_ok us cs \<longleftrightarrow>
     distinct (map row_id cs) \<and> distinct (map credential_id (filter live cs)) \<and>
     (\<forall>r \<in> set cs. user_id r \<in> user_ID ` set us)"

definition schema_ok :: "'rd world \<Rightarrow> bool" where
  "schema_ok w \<longleftrightarrow> users_ok (w_users w) \<and> creds_ok (w_users w) (w_creds w)"

text \<open>The live rows of a user, which is what the application takes for the user's passkeys.\<close>

definition live_count :: "cred_row list \<Rightarrow> uuid \<Rightarrow> nat" where
  "live_count cs u = count_where (\<lambda>r. user_id r = u \<and> live r) cs"

section \<open>Rows and domain values\<close>

text \<open>
  The tail of \<open>scanCredential\<close>: the columns into a \<open>domain.Credential\<close>, with
  \<open>uint32(count)\<close>; and the arguments of the \<open>INSERT\<close>, with \<open>int64(c.SignCount)\<close>.
\<close>

definition scan_row :: "cred_row \<Rightarrow> credential" where
  "scan_row r =
     \<lparr>cred_ID = row_id r, cred_UserID = user_id r, CredentialID = Some (credential_id r),
      PublicKey = Some (public_key r), WebAuthnUserHandle = Some (webauthn_user_handle r),
      AAGUID = aaguid r, SignCount = ucast (sign_count r), Transports = transports r,
      AttestationFormat = attestation_format r, AttestationType = attestation_type r,
      BackupEligible = backup_eligible r, BackupState = backup_state r,
      cred_Name = row_name r, cred_CreatedAt = created_at r, LastUsedAt = last_used_at r\<rparr>"

definition row_of :: "uuid \<Rightarrow> time \<Rightarrow> credential \<Rightarrow> cred_row" where
  "row_of i now c =
     \<lparr>row_id = i, user_id = cred_UserID c, credential_id = slice_bytes (CredentialID c),
      public_key = slice_bytes (PublicKey c),
      webauthn_user_handle = slice_bytes (WebAuthnUserHandle c),
      aaguid = AAGUID c, sign_count = ucast (SignCount c), transports = Transports c,
      attestation_format = AttestationFormat c, attestation_type = AttestationType c,
      backup_eligible = BackupEligible c, backup_state = BackupState c,
      row_name = cred_Name c, created_at = now, last_used_at = None, deleted_at = None\<rparr>"

definition scanCredential :: "('rd, cred_row) pg_act \<Rightarrow> ('rd, credential) store_act" where
  "scanCredential row =
     bindE (catchE row (\<lambda>p. if p = NoRows then failE ErrCredentialNotFound
                            else failE (Wrapped ''scan credential'' (PgCause p))))
       (\<lambda>r. ret (scan_row r))"

section \<open>SQL statements\<close>

text \<open>
  The columns \<open>credential_id\<close>, \<open>public_key\<close> and \<open>webauthn_user_handle\<close> are
  \<open>NOT NULL\<close>, and the driver sends a nil slice as \<open>NULL\<close>. The other \<open>NOT NULL\<close>
  columns have types without a nil value, but for \<open>transports\<close>: the only caller builds that
  slice with \<open>make\<close>, so it is a list here. PostgreSQL checks \<open>NOT NULL\<close> before the indexes,
  and the foreign key last.
\<close>

definition not_null :: "credential \<Rightarrow> bool" where
  "not_null c \<longleftrightarrow> CredentialID c \<noteq> None \<and> PublicKey c \<noteq> None \<and> WebAuthnUserHandle c \<noteq> None"

definition insert_credential :: "credential \<Rightarrow> ('rd, cred_row) pg_act" where
  "insert_credential c = (\<lambda>w.
     let row = row_of (w_genuuid w (w_upos w)) (w_now w) c;
         w1 = w\<lparr>w_upos := Suc (w_upos w)\<rparr>
     in if \<not> not_null c then (Inl NotNullViolation, w1)
        else if row_id row \<in> row_id ` set (w_creds w)
           \<or> (\<exists>r \<in> set (w_creds w). live r \<and> Some (credential_id r) = CredentialID c)
        then (Inl UniqueViolation, w1)
        else if cred_UserID c \<notin> user_ID ` set (w_users w) then (Inl ForeignKeyViolation, w1)
        else (Inr row, w1\<lparr>w_creds := w_creds w @ [row]\<rparr>))"

text \<open>\<open>credential_id = $1\<close> is true of no row when the argument is \<open>NULL\<close>.\<close>

definition select_live_by_credential_id :: "slice \<Rightarrow> 'rd world \<Rightarrow> cred_row option" where
  "select_live_by_credential_id c w = find (\<lambda>r. Some (credential_id r) = c \<and> live r) (w_creds w)"

definition select_live_by_user :: "uuid \<Rightarrow> 'rd world \<Rightarrow> cred_row list" where
  "select_live_by_user u w = sort_key created_at (filter (\<lambda>r. user_id r = u \<and> live r) (w_creds w))"

text \<open>\<open>UPDATE credentials SET \<dots> WHERE id = $1 AND deleted_at IS NULL\<close>: the rows affected.\<close>

definition update_live :: "uuid \<Rightarrow> (time \<Rightarrow> cred_row \<Rightarrow> cred_row) \<Rightarrow> ('rd, nat) pg_act" where
  "update_live i f = (\<lambda>w.
     (Inr (count_where (\<lambda>r. row_id r = i \<and> live r) (w_creds w)),
      w\<lparr>w_creds := update_where (\<lambda>r. row_id r = i \<and> live r) (f (w_now w)) (w_creds w)\<rparr>))"

definition mark_deleted :: "time \<Rightarrow> cred_row \<Rightarrow> cred_row" where
  "mark_deleted now r = r\<lparr>deleted_at := Some now\<rparr>"

section \<open>CredentialStore\<close>

text \<open>\<open>if err != nil { return fmt.Errorf("<text>: %w", err) }\<close> after a statement.\<close>

definition wrapPg :: "string \<Rightarrow> ('rd, 'a) pg_act \<Rightarrow> ('rd, 'a) store_act" where
  "wrapPg what q = catchE (pg_stmt q) (\<lambda>p. failE (Wrapped what (PgCause p)))"

definition CredentialStore_Insert :: "credential \<Rightarrow> ('rd, credential) store_act" where
  "CredentialStore_Insert c =
     catchE (scanCredential (pg_stmt (insert_credential c))) (\<lambda>e.
       if is_unique_violation e then failE ErrCredentialExists else failE e)"

definition CredentialStore_GetByCredentialID :: "slice \<Rightarrow> ('rd, credential) store_act" where
  "CredentialStore_GetByCredentialID c =
     scanCredential (pg_stmt (pg_query (select_live_by_credential_id c)))"

definition CredentialStore_ListByUserID :: "uuid \<Rightarrow> ('rd, credential list) store_act" where
  "CredentialStore_ListByUserID u =
     bindE (wrapPg ''list credentials'' (getE (select_live_by_user u)))
       (\<lambda>rows. ret (map scan_row rows))"

definition CredentialStore_UpdateAfterAssertion ::
  "uuid \<Rightarrow> 32 word \<Rightarrow> bool \<Rightarrow> bool \<Rightarrow> ('rd, unit) store_act" where
  "CredentialStore_UpdateAfterAssertion i count be bs =
     bindE (wrapPg ''update credential''
             (update_live i (\<lambda>now r. r\<lparr>sign_count := ucast count, backup_eligible := be,
                backup_state := bs, last_used_at := Some now\<rparr>)))
       (\<lambda>n. if n = 0 then failE ErrCredentialNotFound else ret ())"

definition CredentialStore_SoftDelete :: "uuid \<Rightarrow> ('rd, unit) store_act" where
  "CredentialStore_SoftDelete i =
     bindE (wrapPg ''begin tx'' (ret ())) (\<lambda>_.
     bindE (catchE (pg_stmt (pg_query (\<lambda>w. map_option user_id
                (find (\<lambda>r. row_id r = i \<and> live r) (w_creds w)))))
             (\<lambda>p. if p = NoRows then failE ErrCredentialNotFound
                  else failE (Wrapped ''lock credential'' (PgCause p)))) (\<lambda>userID.
     bindE (wrapPg ''count live credentials'' (getE (\<lambda>w. live_count (w_creds w) userID))) (\<lambda>liveCount.
     if liveCount \<le> 1 then failE ErrLastCredential else
     bindE (wrapPg ''soft-delete credential''
             (getE (\<lambda>w. update_where (\<lambda>r. row_id r = i) (mark_deleted (w_now w)) (w_creds w))))
       (\<lambda>uncommitted.
     wrapPg ''commit tx'' (putE (\<lambda>w. w\<lparr>w_creds := uncommitted\<rparr>))))))"

definition CredentialStore_Rename :: "uuid \<Rightarrow> string \<Rightarrow> ('rd, unit) store_act" where
  "CredentialStore_Rename i n =
     bindE (wrapPg ''rename credential'' (update_live i (\<lambda>now r. r\<lparr>row_name := Some n\<rparr>)))
       (\<lambda>k. if k = 0 then failE ErrCredentialNotFound else ret ())"

section \<open>Rows: round trip and projections\<close>

text \<open>The counter survives the widening to \<open>BIGINT\<close> and the narrowing back.\<close>

lemma scan_row_of:
  "not_null c \<Longrightarrow>
   scan_row (row_of i now c) = c\<lparr>cred_ID := i, cred_CreatedAt := now, LastUsedAt := None\<rparr>"
  by (simp add: scan_row_def row_of_def not_null_def unsigned_ucast_eq take_bit_word_eq_self)

lemma row_of_simps [simp]:
  "row_id (row_of i now c) = i" "user_id (row_of i now c) = cred_UserID c"
  "credential_id (row_of i now c) = slice_bytes (CredentialID c)" "live (row_of i now c)"
  "created_at (row_of i now c) = now" "deleted_at (row_of i now c) = None"
  by (simp_all add: row_of_def live_def)

lemma scan_row_simps [simp]:
  "cred_ID (scan_row r) = row_id r" "cred_UserID (scan_row r) = user_id r"
  "CredentialID (scan_row r) = Some (credential_id r)" "cred_CreatedAt (scan_row r) = created_at r"
  by (simp_all add: scan_row_def)

lemma mark_deleted_simps [simp]:
  "row_id (mark_deleted t r) = row_id r" "user_id (mark_deleted t r) = user_id r"
  "credential_id (mark_deleted t r) = credential_id r" "\<not> live (mark_deleted t r)"
  "deleted_at (mark_deleted t r) = Some t"
  by (simp_all add: mark_deleted_def live_def)

section \<open>The constraints hold\<close>

lemma creds_ok_insert:
  assumes "creds_ok us cs" and "row_id r \<notin> row_id ` set cs" and "user_id r \<in> user_ID ` set us"
    and "\<not> (\<exists>x \<in> set cs. live x \<and> credential_id x = credential_id r)"
  shows "creds_ok us (cs @ [r])"
  using assms by (auto simp: creds_ok_def)

text \<open>An update that keeps the key columns and does not revive a row keeps the constraints.\<close>

lemma creds_ok_update:
  assumes ok: "creds_ok us cs"
    and keys: "\<And>r. row_id (f r) = row_id r" "\<And>r. user_id (f r) = user_id r"
      "\<And>r. credential_id (f r) = credential_id r"
    and live: "\<And>r. live (f r) \<Longrightarrow> live r"
  shows "creds_ok us (update_where p f cs)"
proof -
  have ids: "map row_id (update_where p f cs) = map row_id cs"
    by (simp add: map_update_where keys)
  have sub: "credential_id ` set (filter live (update_where p f xs)) \<subseteq> credential_id ` set (filter live xs)"
    for xs using live by (auto simp: set_update_where keys image_iff split: if_splits)
  have "distinct (map credential_id (filter live (update_where p f xs)))"
    if "distinct (map credential_id (filter live xs))" for xs
    using that
  proof (induction xs)
    case (Cons x xs)
    then show ?case
      using sub [of xs] live [of x] by (auto simp: keys split: if_splits)
  qed simp
  moreover have "\<forall>r \<in> set (update_where p f cs). user_id r \<in> user_ID ` set us"
    using ok by (auto simp: creds_ok_def set_update_where keys)
  ultimately show ?thesis
    using ok ids by (simp add: creds_ok_def)
qed

lemma creds_ok_more_users:
  "creds_ok us cs \<Longrightarrow> user_ID ` set us \<subseteq> user_ID ` set us' \<Longrightarrow> creds_ok us' cs"
  by (auto simp: creds_ok_def)

lemma schema_ok_db: "schema_ok w \<Longrightarrow> db w' = db w \<Longrightarrow> schema_ok w'"
  by (simp add: schema_ok_def db_def)

lemma schema_ok_pg [simp]: "schema_ok (w\<lparr>w_pg := k\<rparr>) = schema_ok w"
  by (simp add: schema_ok_def)

lemma holds_scanCredential [spec_rules]: "holds I q \<Longrightarrow> holds I (scanCredential q)"
  unfolding scanCredential_def by (intro spec_rules; simp)

lemma holds_keeps_db: "keeps db m \<Longrightarrow> holds schema_ok m"
  by (rule specI) (auto dest: keepsD schema_ok_db)

lemma holds_wrapPg [spec_rules]:
  "(\<And>w k. I w \<Longrightarrow> I (w\<lparr>w_pg := k\<rparr>)) \<Longrightarrow> holds I q \<Longrightarrow> holds I (wrapPg what q)"
  unfolding wrapPg_def by (intro spec_rules)

lemma holds_schema_update_live:
  assumes "\<And>t r. row_id (f t r) = row_id r" "\<And>t r. user_id (f t r) = user_id r"
    "\<And>t r. credential_id (f t r) = credential_id r" "\<And>t r. live (f t r) \<Longrightarrow> live r"
  shows "holds schema_ok (update_live i f)"
proof (rule specI)
  fix w :: "'rd world" and a w'
  assume "schema_ok w" and "update_live i f w = (Inr a, w')"
  moreover from this have
    "creds_ok (w_users w) (update_where (\<lambda>r. row_id r = i \<and> live r) (f (w_now w)) (w_creds w))"
    using assms by (intro creds_ok_update) (simp_all add: schema_ok_def)
  ultimately show "schema_ok w'"
    by (auto simp: update_live_def schema_ok_def)
qed (simp add: update_live_def)

lemma schema_insert_user: "holds schema_ok (insert_user n d g)"
  by (rule specI)
     (auto simp: insert_user_def Let_def schema_ok_def split: if_splits
       intro: users_ok_insert creds_ok_more_users)

lemma schema_update_promote: "holds schema_ok (update_promote i n d)"
proof (rule specI)
  fix w :: "'rd world" and u w'
  assume ok: "schema_ok w" and eq: "update_promote i n d w = (Inr u, w')"
  let ?us = "update_where (\<lambda>u. user_ID u = i \<and> IsGuest u) (promote_row n d (w_now w)) (w_users w)"
  have "user_ID ` set ?us = user_ID ` set (w_users w)"
    by (rule promote_ids)
  with ok eq show "schema_ok w'"
    by (auto simp: update_promote_def schema_ok_def split: option.splits if_splits
        intro: users_ok_promote creds_ok_more_users)
qed (auto simp: update_promote_def split: option.splits if_splits)

lemma schema_insert_credential: "holds schema_ok (insert_credential c)"
  by (rule specI)
     (auto simp: insert_credential_def Let_def schema_ok_def not_null_def split: if_splits
       intro!: creds_ok_insert)

lemma user_store_schema_ok:
  "holds schema_ok (UserStore_CreateGuest n d)"
  "holds schema_ok (UserStore_CreateRegistered n d)"
  "holds schema_ok (UserStore_PromoteGuest i n d)"
  unfolding user_store_defs
  by (intro spec_rules schema_insert_user schema_update_promote; simp)+

lemma Insert_schema_ok: "holds schema_ok (CredentialStore_Insert c)"
  unfolding CredentialStore_Insert_def
  by (intro spec_rules schema_insert_credential; simp)

lemma UpdateAfterAssertion_schema_ok: "holds schema_ok (CredentialStore_UpdateAfterAssertion i k be bs)"
  unfolding CredentialStore_UpdateAfterAssertion_def
  by (intro spec_rules holds_schema_update_live; simp add: live_def)

lemma Rename_schema_ok: "holds schema_ok (CredentialStore_Rename i n)"
  unfolding CredentialStore_Rename_def
  by (intro spec_rules holds_schema_update_live; simp add: live_def)

section \<open>SoftDelete\<close>

text \<open>
  What the transaction is meant to do, as a function of the table: refuse a missing or
  deleted row, refuse the user's last live row, otherwise stamp \<open>deleted_at\<close>.
\<close>

definition soft_delete_spec :: "cred_row list \<Rightarrow> uuid \<Rightarrow> time \<Rightarrow> err + cred_row list" where
  "soft_delete_spec cs i now =
     (case find (\<lambda>r. row_id r = i \<and> live r) cs of
        None \<Rightarrow> Inl ErrCredentialNotFound
      | Some r \<Rightarrow> if live_count cs (user_id r) \<le> 1 then Inl ErrLastCredential
                  else Inr (update_where (\<lambda>r. row_id r = i) (mark_deleted now) cs))"

lemma wrapPg_up: "pg_up w \<Longrightarrow> wrapPg what q w = catchE q (\<lambda>p. failE (Wrapped what (PgCause p))) w"
  by (simp add: wrapPg_def catchE_def pg_stmt_up)

lemma SoftDelete_up:
  assumes "pg_up w"
  shows "CredentialStore_SoftDelete i w =
    (case soft_delete_spec (w_creds w) i (w_now w) of
       Inl e \<Rightarrow> (Inl e, w) | Inr cs \<Rightarrow> (Inr (), w\<lparr>w_creds := cs\<rparr>))"
  using assms
  by (simp add: CredentialStore_SoftDelete_def bindE_def wrapPg_up)
     (simp add: act_defs pg_stmt_up pg_query_def soft_delete_spec_def wrapPg_up split: option.split)

text \<open>
  Under any failures: a success is exactly the specified update, and an error leaves the
  table unchanged or, when only the reply to the commit was lost, updated as specified.
\<close>

lemma spec_wrapPg:
  assumes "\<And>w k. P w \<Longrightarrow> P (w\<lparr>w_pg := k\<rparr>)" and "spec P q Q (\<lambda>_. R)"
    and "\<And>w. P w \<Longrightarrow> R w" and "\<And>a w. Q a w \<Longrightarrow> R w"
  shows "spec P (wrapPg what q) Q (\<lambda>_. R)"
  unfolding wrapPg_def
  by (rule spec_catchE [where M = "\<lambda>_. R"], rule spec_pg_stmt) (use assms in \<open>auto intro: spec_failE\<close>)

lemma SoftDelete_spec:
  fixes cs us t
  defines "P \<equiv> \<lambda>w :: 'rd world. w_creds w = cs \<and> w_users w = us \<and> w_now w = t"
  shows "spec P (CredentialStore_SoftDelete i)
     (\<lambda>_ w. soft_delete_spec cs i t = Inr (w_creds w) \<and> w_users w = us)
     (\<lambda>_ w. w_users w = us \<and> (w_creds w = cs \<or> soft_delete_spec cs i t = Inr (w_creds w)))"
    (is "spec P _ ?Q (\<lambda>_. ?R)")
proof -
  let ?row = "find (\<lambda>r. row_id r = i \<and> live r) cs"
  let ?new = "update_where (\<lambda>r. row_id r = i) (mark_deleted t) cs"
  have lock: "spec P (catchE (pg_stmt (pg_query (\<lambda>w. map_option user_id
          (find (\<lambda>r. row_id r = i \<and> live r) (w_creds w)))))
        (\<lambda>p. if p = NoRows then failE ErrCredentialNotFound
             else failE (Wrapped ''lock credential'' (PgCause p))))
      (\<lambda>u w. P w \<and> map_option user_id ?row = Some u) (\<lambda>_. ?R)"
    by (rule spec_catchE [where M = "\<lambda>_. P"], rule spec_pg_stmt)
       (auto simp: P_def spec_def pg_query_def failE_def split: option.split)
  have count: "spec (\<lambda>w. P w \<and> map_option user_id ?row = Some u)
      (wrapPg x (getE (\<lambda>w. live_count (w_creds w) u)))
      (\<lambda>n w. P w \<and> map_option user_id ?row = Some u \<and> n = live_count cs u) (\<lambda>_. ?R)" for u x
    by (rule spec_wrapPg) (auto simp: P_def spec_def getE_def)
  have upd: "spec (\<lambda>w. P w \<and> soft_delete_spec cs i t = Inr ?new)
      (wrapPg x (getE (\<lambda>w. update_where (\<lambda>r. row_id r = i) (mark_deleted (w_now w)) (w_creds w))))
      (\<lambda>y w. P w \<and> y = ?new \<and> soft_delete_spec cs i t = Inr ?new) (\<lambda>_. ?R)" for x
    by (rule spec_wrapPg) (auto simp: P_def spec_def getE_def)
  have commit: "spec (\<lambda>w. P w \<and> y = ?new \<and> soft_delete_spec cs i t = Inr ?new)
      (wrapPg x (putE (\<lambda>w. w\<lparr>w_creds := y\<rparr>))) ?Q (\<lambda>_. ?R)" for x y
    by (rule spec_wrapPg) (auto simp: P_def spec_def putE_def)
  have start: "spec P (wrapPg x (ret ())) (\<lambda>_. P) (\<lambda>_. ?R)" for x
    by (rule spec_wrapPg) (auto simp: P_def spec_def ret_def)
  have guard: "spec (\<lambda>w. P w \<and> map_option user_id ?row = Some u \<and> n = live_count cs u) m ?Q (\<lambda>_. ?R)"
    if "\<not> n \<le> 1" and "spec (\<lambda>w. P w \<and> soft_delete_spec cs i t = Inr ?new) m ?Q (\<lambda>_. ?R)" for u n m
    by (rule spec_pre [OF that(2)]) (use that(1) in \<open>auto simp: soft_delete_spec_def\<close>)
  show ?thesis
    unfolding CredentialStore_SoftDelete_def
    by (rule spec_bindE [OF start], rule spec_bindE [OF lock], rule spec_bindE [OF count],
        rule spec_if, rule spec_failE, simp add: P_def, erule guard, rule spec_bindE [OF upd commit])
qed

section \<open>Counting live rows\<close>

lemma live_count_Nil [simp]: "live_count [] u = 0"
  by (simp add: live_count_def)

lemma live_count_Cons [simp]:
  "live_count (r # cs) u = (if user_id r = u \<and> live r then Suc (live_count cs u) else live_count cs u)"
  by (simp add: live_count_def)

lemma live_count_append [simp]: "live_count (cs @ ds) u = live_count cs u + live_count ds u"
  by (simp add: live_count_def)

lemma live_count_pos: "0 < live_count cs u \<longleftrightarrow> (\<exists>r \<in> set cs. user_id r = u \<and> live r)"
  by (simp add: live_count_def count_where_pos)

text \<open>Deleting one live row of a user lowers that user's count by one and no other count.\<close>

lemma live_count_mark_deleted:
  assumes "distinct (map row_id cs)" and "r \<in> set cs" and "live r"
  shows "live_count (update_where (\<lambda>x. row_id x = row_id r) (mark_deleted t) cs) u =
    (if u = user_id r then live_count cs u - 1 else live_count cs u)"
  using assms
proof (induction cs)
  case (Cons x cs)
  show ?case
  proof (cases "x = r")
    case True
    with Cons.prems have "\<And>y. y \<in> set cs \<Longrightarrow> row_id y \<noteq> row_id r"
      by (auto simp: image_iff)
    then have "update_where (\<lambda>x. row_id x = row_id r) (mark_deleted t) cs = cs"
      by (intro update_where_none) auto
    with True Cons.prems show ?thesis by simp
  next
    case False
    with Cons.prems have r: "r \<in> set cs" and ne: "row_id x \<noteq> row_id r"
      by (auto simp: image_iff)
    have "0 < live_count cs (user_id r)"
      using r Cons.prems(3) by (auto simp: live_count_pos)
    with False r ne Cons show ?thesis by auto
  qed
qed simp

lemma soft_delete_spec_Inr:
  assumes "soft_delete_spec cs i t = Inr cs'"
  obtains r where "r \<in> set cs" and "row_id r = i" and "live r" and "1 < live_count cs (user_id r)"
    and "cs' = update_where (\<lambda>x. row_id x = i) (mark_deleted t) cs"
  using assms by (auto simp: soft_delete_spec_def split: option.splits if_splits dest!: find_SomeD)

lemma soft_delete_spec_count:
  assumes "distinct (map row_id cs)" and "soft_delete_spec cs i t = Inr cs'"
  shows "0 < live_count cs u \<Longrightarrow> 0 < live_count cs' u"
  using assms by (auto elim!: soft_delete_spec_Inr simp: live_count_mark_deleted)

lemma SoftDelete_effect:
  assumes "CredentialStore_SoftDelete i w = (x, w')"
  shows "w_users w' = w_users w"
    and "w_creds w' = w_creds w \<or> soft_delete_spec (w_creds w) i (w_now w) = Inr (w_creds w')"
    and "x = Inr () \<Longrightarrow> soft_delete_spec (w_creds w) i (w_now w) = Inr (w_creds w')"
proof -
  have "w_users w' = w_users w \<and>
      (w_creds w' = w_creds w \<or> soft_delete_spec (w_creds w) i (w_now w) = Inr (w_creds w')) \<and>
      (x = Inr () \<longrightarrow> soft_delete_spec (w_creds w) i (w_now w) = Inr (w_creds w'))"
    using SoftDelete_spec [of "w_creds w" "w_users w" "w_now w" i, unfolded spec_def,
        THEN spec [of _ w]] assms
    by (cases x) simp_all
  then show "w_users w' = w_users w"
    and "w_creds w' = w_creds w \<or> soft_delete_spec (w_creds w) i (w_now w) = Inr (w_creds w')"
    and "x = Inr () \<Longrightarrow> soft_delete_spec (w_creds w) i (w_now w) = Inr (w_creds w')"
    by simp_all
qed

lemma SoftDelete_schema_ok: "holds schema_ok (CredentialStore_SoftDelete i)"
proof -
  have "schema_ok w'" if "schema_ok w" and "CredentialStore_SoftDelete i w = (x, w')"
    for w :: "'rd world" and x w'
  proof -
    have "creds_ok (w_users w) (update_where (\<lambda>x. row_id x = i) (mark_deleted (w_now w)) (w_creds w))"
      using that(1) by (intro creds_ok_update) (simp_all add: schema_ok_def)
    with SoftDelete_effect [OF that(2)] that(1) show ?thesis
      by (auto simp: schema_ok_def elim: soft_delete_spec_Inr)
  qed
  then show ?thesis by (blast intro: specI)
qed

section \<open>Frames and results of the other methods\<close>

lemma keeps_scanCredential [keeps_rules]: "keeps f q \<Longrightarrow> keeps f (scanCredential q)"
  unfolding scanCredential_def by (intro keeps_rules; simp)

lemma keeps_wrapPg [keeps_rules]:
  "(\<And>w k. f (w\<lparr>w_pg := k\<rparr>) = f w) \<Longrightarrow> keeps f q \<Longrightarrow> keeps f (wrapPg what q)"
  unfolding wrapPg_def by (intro keeps_rules)

lemma keeps_GetByCredentialID [keeps_rules]:
  "(\<And>w k. f (w\<lparr>w_pg := k\<rparr>) = f w) \<Longrightarrow> keeps f (CredentialStore_GetByCredentialID c)"
  unfolding CredentialStore_GetByCredentialID_def by (intro keeps_rules)

lemma keeps_ListByUserID [keeps_rules]:
  "(\<And>w k. f (w\<lparr>w_pg := k\<rparr>) = f w) \<Longrightarrow> keeps f (CredentialStore_ListByUserID u)"
  unfolding CredentialStore_ListByUserID_def by (intro keeps_rules)

lemma keeps_credential_writes [keeps_rules]:
  assumes "\<And>w k. f (w\<lparr>w_upos := k\<rparr>) = f w" "\<And>w k. f (w\<lparr>w_creds := k\<rparr>) = f w"
    "\<And>w k. f (w\<lparr>w_pg := k\<rparr>) = f w"
  shows "keeps f (CredentialStore_Insert c)"
    and "keeps f (CredentialStore_UpdateAfterAssertion i n be bs)"
    and "keeps f (CredentialStore_Rename i nm)"
    and "keeps f (CredentialStore_SoftDelete i)"
proof -
  have upd: "keeps f (update_live i g)" for g
    by (simp add: keeps_def update_live_def assms)
  have "keeps f (insert_credential c)"
    by (simp add: keeps_def insert_credential_def Let_def assms)
  then show "keeps f (CredentialStore_Insert c)"
    unfolding CredentialStore_Insert_def by (intro keeps_rules assms; simp)
  show "keeps f (CredentialStore_UpdateAfterAssertion i n be bs)"
    and "keeps f (CredentialStore_Rename i nm)"
    unfolding CredentialStore_UpdateAfterAssertion_def CredentialStore_Rename_def
    by (intro keeps_rules upd assms; simp)+
  show "keeps f (CredentialStore_SoftDelete i)"
    unfolding CredentialStore_SoftDelete_def by (intro keeps_rules assms; simp add: assms)
qed

lemma scanCredential_Inr:
  "scanCredential q w = (Inr c, w') \<longleftrightarrow> (\<exists>r. q w = (Inr r, w') \<and> c = scan_row r)"
  by (auto simp: scanCredential_def act_defs split: prod.splits sum.splits if_splits)

lemma Insert_Inr:
  assumes "CredentialStore_Insert c w = (Inr c', w')"
  obtains r where "w_creds w' = w_creds w @ [r]" and "w_users w' = w_users w"
    and "r = row_of (row_id r) (w_now w) c" and "c' = scan_row r"
    and "cred_UserID c \<in> user_ID ` set (w_users w)" and "row_id r \<notin> row_id ` set (w_creds w)"
    and "not_null c"
proof -
  obtain r where r: "pg_stmt (insert_credential c) w = (Inr r, w')" "c' = scan_row r"
    using assms by (auto simp: CredentialStore_Insert_def catchE_def failE_def scanCredential_Inr
        split: prod.splits sum.splits if_splits)
  then obtain xs where "insert_credential c (w\<lparr>w_pg := xs\<rparr>) = (Inr r, w')"
    by (cases rule: pg_stmt_cases) auto
  then show thesis
    using that [of r] r(2) by (auto simp: insert_credential_def Let_def split: if_splits)
qed

lemma GetByCredentialID_Inr:
  assumes "CredentialStore_GetByCredentialID b w = (Inr c, w')"
  obtains r where "r \<in> set (w_creds w)" and "live r" and "Some (credential_id r) = b" and "c = scan_row r"
    and "\<exists>xs. w' = w\<lparr>w_pg := xs\<rparr>"
proof -
  obtain r where "pg_stmt (pg_query (select_live_by_credential_id b)) w = (Inr r, w')" "c = scan_row r"
    using assms by (auto simp: CredentialStore_GetByCredentialID_def scanCredential_Inr)
  from this(1) this(2) that show thesis
    by (cases rule: pg_stmt_cases)
       (auto simp: pg_query_Inr select_live_by_credential_id_def dest!: find_SomeD)
qed

lemma ListByUserID_Inr:
  assumes "CredentialStore_ListByUserID u w = (Inr cs, w')"
  shows "cs = map scan_row (select_live_by_user u w)" and "\<exists>xs. w' = w\<lparr>w_pg := xs\<rparr>"
proof -
  have "pg_stmt (getE (select_live_by_user u)) w = (Inr rows, w') \<Longrightarrow>
      rows = select_live_by_user u w \<and> (\<exists>xs. w' = w\<lparr>w_pg := xs\<rparr>)" for rows
    by (erule pg_stmt_cases) (auto simp: getE_def select_live_by_user_def)
  with assms show "cs = map scan_row (select_live_by_user u w)" and "\<exists>xs. w' = w\<lparr>w_pg := xs\<rparr>"
    by (auto simp: CredentialStore_ListByUserID_def wrapPg_def act_defs
        split: prod.splits sum.splits)
qed

lemma set_select_live_by_user:
  "set (select_live_by_user u w) = {r \<in> set (w_creds w). user_id r = u \<and> live r}"
  by (auto simp: select_live_by_user_def)

section \<open>Properties\<close>

text \<open>Two passkeys of one registered user: the table of the concrete runs below.\<close>

definition sample_credential :: "uuid \<Rightarrow> bytes \<Rightarrow> credential" where
  "sample_credential u b =
     \<lparr>cred_ID = uuid_Nil, cred_UserID = u, CredentialID = Some b, PublicKey = Some [1],
      WebAuthnUserHandle = Some [2], AAGUID = None, SignCount = 4294967295, Transports = [],
      AttestationFormat = ''none'', AttestationType = ''none'', BackupEligible = False,
      BackupState = False, cred_Name = None, cred_CreatedAt = 0, LastUsedAt = None\<rparr>"

definition sample_user :: user where
  "sample_user = \<lparr>user_ID = UUID [9], Username = ''alice'', DisplayName = ''Alice'', IsGuest = False,
     user_CreatedAt = 0, PromotedAt = None\<rparr>"

definition two_passkeys :: "'rd \<Rightarrow> 'rd world" where
  "two_passkeys r = (start_world r)\<lparr>w_users := [sample_user],
     w_creds := [row_of (UUID [1]) 0 (sample_credential (UUID [9]) [1]),
                 row_of (UUID [2]) 0 (sample_credential (UUID [9]) [2])]\<rparr>"

lemma two_passkeys_simps [simp]:
  "w_users (two_passkeys r) = [sample_user]"
  "w_creds (two_passkeys r) = [row_of (UUID [1]) 0 (sample_credential (UUID [9]) [1]),
                               row_of (UUID [2]) 0 (sample_credential (UUID [9]) [2])]"
  "pg_up (two_passkeys r)" "w_now (two_passkeys r) = 0" "w_upos (two_passkeys r) = 0"
  "w_rd (two_passkeys r) = r" "w_genuuid (two_passkeys r) n = UUID (replicate 15 0 @ [of_nat n])"
  by (simp_all add: two_passkeys_def)

lemma sample_credential_simps [simp]:
  "cred_UserID (sample_credential u b) = u" "CredentialID (sample_credential u b) = Some b"
  "not_null (sample_credential u b)"
  by (simp_all add: sample_credential_def not_null_def)

lemma sample_user_simps [simp]:
  "user_ID sample_user = UUID [9]" "\<not> IsGuest sample_user" "Username sample_user = ''alice''"
  by (simp_all add: sample_user_def)

lemma generated_uuid_long [simp]: "UUID (replicate 15 0 @ [x]) \<noteq> UUID [y]"
  by (auto dest: arg_cong [where f = length])

lemma two_passkeys_schema_ok: "schema_ok (two_passkeys r)"
  by (simp add: schema_ok_def users_ok_def creds_ok_def)

text \<open>
  The database constraints are an invariant of every method of both stores, under
  every pattern of PostgreSQL failures: user ids and row ids unique, usernames unique among
  registered users, credential ids unique among live credentials, and every credential
  belongs to an existing user.
\<close>

lemma stores_keep_schema:
  assumes "schema_ok w"
  shows "schema_ok (snd (UserStore_CreateGuest n d w))
    \<and> schema_ok (snd (UserStore_CreateRegistered n d w))
    \<and> schema_ok (snd (UserStore_PromoteGuest i n d w))
    \<and> schema_ok (snd (CredentialStore_Insert c w))
    \<and> schema_ok (snd (CredentialStore_UpdateAfterAssertion i k be bs w))
    \<and> schema_ok (snd (CredentialStore_SoftDelete i w))
    \<and> schema_ok (snd (CredentialStore_Rename i n w))"
  using assms
  by (intro conjI holds_snd [of schema_ok] user_store_schema_ok Insert_schema_ok
      UpdateAfterAssertion_schema_ok SoftDelete_schema_ok Rename_schema_ok)

lemma stores_keep_schema_example:
  "schema_ok (snd (CredentialStore_SoftDelete (UUID [1]) (two_passkeys ())))"
  by (simp add: stores_keep_schema [OF two_passkeys_schema_ok])

text \<open>
  \<open>SoftDelete\<close> implements its specification on every branch: with PostgreSQL
  answering, it returns \<open>ErrCredentialNotFound\<close> for a missing or already deleted row,
  \<open>ErrLastCredential\<close> for the owner's only live row, and otherwise stamps exactly that row.
\<close>

lemma SoftDelete_refines:
  assumes "pg_up w"
  shows "CredentialStore_SoftDelete i w =
    (case soft_delete_spec (w_creds w) i (w_now w) of
       Inl e \<Rightarrow> (Inl e, w) | Inr cs \<Rightarrow> (Inr (), w\<lparr>w_creds := cs\<rparr>))"
  using assms by (rule SoftDelete_up)

lemma SoftDelete_refines_example:
  "fst (CredentialStore_SoftDelete (UUID [1]) (two_passkeys ())) = Inr ()
   \<and> fst (CredentialStore_SoftDelete (UUID [3]) (two_passkeys ())) = Inl ErrCredentialNotFound"
  using SoftDelete_refines [of "two_passkeys ()" "UUID [1]"] SoftDelete_refines [of "two_passkeys ()" "UUID [3]"]
  by (simp add: soft_delete_spec_def)

text \<open>
  C25: the last-credential guard, for one transaction at a time and under every pattern of
  PostgreSQL failures (a lost reply to the commit included): a user who has a live
  credential before \<open>SoftDelete\<close> has one afterwards, whichever row is deleted.
\<close>

theorem SoftDelete_keeps_one:
  assumes "schema_ok w" and "0 < live_count (w_creds w) u"
  shows "0 < live_count (w_creds (snd (CredentialStore_SoftDelete i w))) u"
proof -
  obtain x w' where run: "CredentialStore_SoftDelete i w = (x, w')"
    by (cases "CredentialStore_SoftDelete i w")
  have "distinct (map row_id (w_creds w))"
    using assms(1) by (simp add: schema_ok_def creds_ok_def)
  with SoftDelete_effect(2) [OF run] assms(2) soft_delete_spec_count show ?thesis
    by (fastforce simp: run)
qed

theorem SoftDelete_keeps_one_witness:
  "0 < live_count (w_creds (snd (CredentialStore_SoftDelete (UUID [1]) (two_passkeys ())))) (UUID [9])"
  by (rule SoftDelete_keeps_one [OF two_passkeys_schema_ok]) simp

lemma SoftDelete_gone:
  assumes "schema_ok w" and "CredentialStore_SoftDelete i w = (Inr (), w')"
    and "r \<in> set (w_creds w)" and "row_id r = i" and "pg_up w'"
  shows "fst (CredentialStore_GetByCredentialID (Some (credential_id r)) w') = Inl ErrCredentialNotFound"
    and "\<forall>u. i \<notin> row_id ` set (select_live_by_user u w')"
proof -
  from SoftDelete_effect(3) [OF assms(2) refl]
  obtain r0 where r0: "r0 \<in> set (w_creds w)" "row_id r0 = i" "live r0"
    and cs: "w_creds w' = update_where (\<lambda>x. row_id x = i) (mark_deleted (w_now w)) (w_creds w)"
    by (rule soft_delete_spec_Inr)
  have keys: "distinct (map row_id (w_creds w))" "distinct (map credential_id (filter live (w_creds w)))"
    using assms(1) by (auto simp: schema_ok_def creds_ok_def)
  have "r = r0"
    by (rule distinct_keyD [OF keys(1) assms(3) r0(1)]) (simp add: r0 assms)
  then have only: "x = r0" if "x \<in> set (w_creds w)" "live x" "credential_id x = credential_id r" for x
    using distinct_map_filterD [OF keys(2) that(1) r0(1)] that r0 by simp
  have dead: "\<not> live x" if "x \<in> set (w_creds w')" and "credential_id x = credential_id r" for x
  proof -
    from that(1) obtain y where "y \<in> set (w_creds w)"
      and x: "x = (if row_id y = i then mark_deleted (w_now w) y else y)"
      unfolding cs set_update_where by blast
    show ?thesis
    proof
      assume "live x"
      then have "x = y" and "row_id y \<noteq> i" using x by (auto split: if_splits)
      with \<open>live x\<close> \<open>y \<in> set (w_creds w)\<close> that(2) only [of y] r0(2) show False by simp
    qed
  qed
  then have "find (\<lambda>x. credential_id x = credential_id r \<and> live x) (w_creds w') = None"
    by (auto simp: find_None_iff)
  then show "fst (CredentialStore_GetByCredentialID (Some (credential_id r)) w') = Inl ErrCredentialNotFound"
    using assms(5)
    by (simp add: CredentialStore_GetByCredentialID_def scanCredential_def act_defs pg_stmt_up
        pg_query_def select_live_by_credential_id_def)
  have "row_id x \<noteq> i" if "x \<in> set (w_creds w')" and "live x" for x
  proof -
    from that(1) obtain y where "x = (if row_id y = i then mark_deleted (w_now w) y else y)"
      unfolding cs set_update_where by blast
    with that(2) show ?thesis by (cases "row_id y = i") simp_all
  qed
  then show "\<forall>u. i \<notin> row_id ` set (select_live_by_user u w')"
    unfolding set_select_live_by_user by blast
qed

text \<open>
  A credential that \<open>SoftDelete\<close> reported as deleted can no longer be used: with
  PostgreSQL answering, \<open>GetByCredentialID\<close> of its credential id returns
  \<open>ErrCredentialNotFound\<close> and no list of its owner's credentials contains it.
\<close>

lemma soft_deleted_gone:
  assumes "schema_ok w" and "CredentialStore_SoftDelete i w = (Inr (), w')"
    and "r \<in> set (w_creds w)" and "row_id r = i" and "pg_up w'"
  shows "fst (CredentialStore_GetByCredentialID (Some (credential_id r)) w') = Inl ErrCredentialNotFound
    \<and> (\<forall>u. i \<notin> row_id ` set (select_live_by_user u w'))"
  using SoftDelete_gone [OF assms] by blast

lemma soft_deleted_gone_example:
  "fst (CredentialStore_GetByCredentialID (Some [1])
      (snd (CredentialStore_SoftDelete (UUID [1]) (two_passkeys ())))) = Inl ErrCredentialNotFound"
proof -
  obtain w' where run: "CredentialStore_SoftDelete (UUID [1]) (two_passkeys ()) = (Inr (), w')"
    and up: "pg_up w'"
    by (simp add: SoftDelete_up soft_delete_spec_def)
  show ?thesis
    using soft_deleted_gone [OF two_passkeys_schema_ok run _ _ up,
        of "row_of (UUID [1]) 0 (sample_credential (UUID [9]) [1])"] run by simp
qed

text \<open>
  What \<open>Insert\<close> stores is what \<open>GetByCredentialID\<close> reads back, all fields of the
  domain value included (the 32-bit sign counter passes through a \<open>BIGINT\<close> column), with
  the id and creation time that the database chose.
\<close>

lemma Insert_GetByCredentialID:
  assumes "schema_ok w" and "CredentialStore_Insert c w = (Inr saved, w')" and "pg_up w'"
  shows "fst (CredentialStore_GetByCredentialID (CredentialID c) w') = Inr saved
    \<and> (\<exists>i. saved = c\<lparr>cred_ID := i, cred_CreatedAt := w_now w, LastUsedAt := None\<rparr>)"
proof -
  from assms(2) obtain r where r: "w_creds w' = w_creds w @ [r]"
    "r = row_of (row_id r) (w_now w) c" "saved = scan_row r" and null: "not_null c"
    by (rule Insert_Inr)
  have "schema_ok w'"
    using holds_snd [OF Insert_schema_ok assms(1), of c] assms(2) by simp
  then have "distinct (map credential_id (filter live (w_creds w')))"
    by (simp add: schema_ok_def creds_ok_def)
  moreover have live_r: "live r" "Some (credential_id r) = CredentialID c"
    by (subst r(2), use null in \<open>simp add: not_null_def\<close>)+
  ultimately have "find (\<lambda>x. credential_id x = credential_id r) (filter live (w_creds w')) = Some r"
    using r(1) by (intro find_by_key) auto
  moreover have "find p (filter q xs) = find (\<lambda>x. p x \<and> q x) xs" for p q :: "cred_row \<Rightarrow> bool" and xs
    by (induction xs) auto
  ultimately have "find (\<lambda>x. Some (credential_id x) = CredentialID c \<and> live x) (w_creds w') = Some r"
    by (simp flip: live_r(2))
  then have "fst (CredentialStore_GetByCredentialID (CredentialID c) w') = Inr saved"
    using assms(3) r(3)
    by (simp add: CredentialStore_GetByCredentialID_def scanCredential_def act_defs pg_stmt_up
        pg_query_def select_live_by_credential_id_def)
  moreover have "saved = scan_row (row_of (row_id r) (w_now w) c)"
    using r(2,3) by simp
  ultimately show ?thesis
    using null by (auto simp: scan_row_of)
qed

lemma Insert_GetByCredentialID_example:
  "\<exists>saved w'. CredentialStore_Insert (sample_credential (UUID [9]) [7]) (two_passkeys ()) = (Inr saved, w')
    \<and> fst (CredentialStore_GetByCredentialID (Some [7]) w') = Inr saved \<and> SignCount saved = 4294967295"
proof -
  obtain saved w' where run:
    "CredentialStore_Insert (sample_credential (UUID [9]) [7]) (two_passkeys ()) = (Inr saved, w')"
    and up: "pg_up w'"
    by (simp add: CredentialStore_Insert_def scanCredential_def act_defs pg_stmt_up insert_credential_def
        Let_def)
  have "SignCount saved = 4294967295"
    using Insert_GetByCredentialID [OF two_passkeys_schema_ok run up]
    by (auto simp: sample_credential_def)
  then show ?thesis
    using Insert_GetByCredentialID [OF two_passkeys_schema_ok run up] run by auto
qed

text \<open>
  Soft deletion frees the credential id. After \<open>SoftDelete\<close> of a credential, a
  credential with the same credential id can be inserted again (for an existing user, with
  PostgreSQL answering and handing out an unused row id).
\<close>

lemma deleted_credential_id_reusable:
  assumes "schema_ok w" and "CredentialStore_SoftDelete i w = (Inr (), w')"
    and "r \<in> set (w_creds w)" and "row_id r = i" and "pg_up w'"
    and "w_genuuid w' (w_upos w') \<notin> row_id ` set (w_creds w')"
    and "CredentialID c = Some (credential_id r)" and "not_null c"
    and "cred_UserID c \<in> user_ID ` set (w_users w')"
  shows "\<exists>saved w''. CredentialStore_Insert c w' = (Inr saved, w'')"
proof -
  have "fst (CredentialStore_GetByCredentialID (Some (credential_id r)) w') = Inl ErrCredentialNotFound"
    using assms(1-5) by (rule SoftDelete_gone(1))
  then have "\<not> (\<exists>x \<in> set (w_creds w'). live x \<and> Some (credential_id x) = CredentialID c)"
    using assms(5,7)
    by (auto simp: CredentialStore_GetByCredentialID_def scanCredential_def act_defs pg_stmt_up
        pg_query_def select_live_by_credential_id_def find_None_iff split: option.splits)
  then show ?thesis
    using assms
    by (simp add: CredentialStore_Insert_def scanCredential_def act_defs pg_stmt_up
        insert_credential_def Let_def)
qed

lemma deleted_credential_id_reusable_example:
  "\<exists>saved w''. CredentialStore_Insert (sample_credential (UUID [9]) [1])
     (snd (CredentialStore_SoftDelete (UUID [1]) (two_passkeys ()))) = (Inr saved, w'')"
proof -
  obtain w' where run: "CredentialStore_SoftDelete (UUID [1]) (two_passkeys ()) = (Inr (), w')"
    and up: "pg_up w'" and new: "w_genuuid w' (w_upos w') \<notin> row_id ` set (w_creds w')"
    and us: "w_users w' = [sample_user]"
    by (simp add: SoftDelete_up soft_delete_spec_def)
  show ?thesis
    using deleted_credential_id_reusable [OF two_passkeys_schema_ok run _ _ up new,
        of "row_of (UUID [1]) 0 (sample_credential (UUID [9]) [1])" "sample_credential (UUID [9]) [1]"]
      run us by simp
qed

text \<open>
  \<open>ListByUserID\<close> returns exactly the live credentials of the user, each once, oldest
  first.
\<close>

lemma ListByUserID_exact:
  assumes "schema_ok w" and "CredentialStore_ListByUserID u w = (Inr cs, w')"
  shows "set cs = scan_row ` {r \<in> set (w_creds w). user_id r = u \<and> live r}
    \<and> distinct (map cred_ID cs) \<and> sorted (map cred_CreatedAt cs)
    \<and> length cs = live_count (w_creds w) u"
proof -
  have cs: "cs = map scan_row (select_live_by_user u w)"
    using assms(2) by (rule ListByUserID_Inr(1))
  have "distinct (map row_id (w_creds w))"
    using assms(1) by (simp add: schema_ok_def creds_ok_def)
  then have "distinct (map row_id (select_live_by_user u w))"
    by (simp add: select_live_by_user_def distinct_map) (blast intro: inj_on_subset)
  then show ?thesis
    by (simp add: cs set_select_live_by_user comp_def select_live_by_user_def live_count_def
        count_where_def)
qed

lemma ListByUserID_exact_example:
  "\<exists>cs w'. CredentialStore_ListByUserID (UUID [9]) (two_passkeys ()) = (Inr cs, w') \<and> length cs = 2"
proof -
  obtain cs w' where run: "CredentialStore_ListByUserID (UUID [9]) (two_passkeys ()) = (Inr cs, w')"
    by (simp add: CredentialStore_ListByUserID_def act_defs wrapPg_def pg_stmt_up)
  then show ?thesis
    using ListByUserID_exact [OF two_passkeys_schema_ok run] by simp
qed

end
