(* ===== verification/SoftDelete_Concurrency.thy ===== *)
theory SoftDelete_Concurrency
  imports Postgres_Credentials
begin

text \<open>
  Several \<open>SoftDelete\<close> transactions of \<open>internal/store/postgres/credential.go\<close> at once.
  \<open>pool.Begin\<close> starts a transaction at PostgreSQL's default level, READ COMMITTED: each
  statement sees what is committed when it starts, \<open>SELECT \<dots> FOR UPDATE\<close> waits for and
  takes the lock of the row it returns, the \<open>COUNT(*)\<close> takes no lock, and the lock is
  released at the end of the transaction. A step of the system is one statement of one
  transaction, or its failure: every statement, \<open>Begin\<close> and \<open>Commit\<close> included, can fail,
  which ends the transaction without effect (the deferred \<open>Rollback\<close>), and the reply to a
  \<open>COMMIT\<close> that took effect can get lost.

  Shown: a transaction that runs alone does what \<open>soft_delete_spec\<close> says; two transactions
  on the same row never both succeed; the last-credential guard holds as long as
  transactions on rows of one user do not overlap, and it fails when they do.
\<close>

section \<open>The system\<close>

text \<open>
  How far a call of \<open>SoftDelete\<close> is: called, transaction begun, row locked (with the owner
  it read), counted, row stamped but not committed, and finished with the value that it
  returns.
\<close>

datatype phase =
    Called
  | Begun
  | Locked uuid
  | Counted uuid nat
  | Stamped uuid
  | Finished "err + unit"

record sys =
  table :: "cred_row list"
  locks :: "uuid \<Rightarrow> nat option"
  target :: "nat \<Rightarrow> uuid"
  phase_of :: "nat \<Rightarrow> phase"
  clock :: time

definition set_phase :: "nat \<Rightarrow> phase \<Rightarrow> sys \<Rightarrow> sys" where
  "set_phase k p s = s\<lparr>phase_of := (phase_of s)(k := p)\<rparr>"

definition finish :: "nat \<Rightarrow> err + unit \<Rightarrow> sys \<Rightarrow> sys" where
  "finish k r s = set_phase k (Finished r) (s\<lparr>locks := (locks s)(target s k := None)\<rparr>)"

definition live_row :: "sys \<Rightarrow> uuid \<Rightarrow> cred_row option" where
  "live_row s i = find (\<lambda>r. row_id r = i \<and> live r) (table s)"

text \<open>The transaction ends, and with it its hold on the row; a commit makes its write visible.\<close>

definition write_row :: "nat \<Rightarrow> sys \<Rightarrow> sys" where
  "write_row k s = s\<lparr>table := update_where (\<lambda>r. row_id r = target s k) (mark_deleted (clock s)) (table s)\<rparr>"

definition pg_failure :: "string \<Rightarrow> err + unit" where
  "pg_failure what = Inl (Wrapped what (PgCause PgConn))"

fun active_for :: "phase \<Rightarrow> uuid option" where
  "active_for (Locked u) = Some u"
| "active_for (Counted u n) = Some u"
| "active_for (Stamped u) = Some u"
| "active_for _ = None"

inductive soft_step :: "sys \<Rightarrow> sys \<Rightarrow> bool" where
  begin_tx:
    "phase_of s k = Called \<Longrightarrow> soft_step s (set_phase k Begun s)"
| begin_fails:
    "phase_of s k = Called \<Longrightarrow> soft_step s (set_phase k (Finished (pg_failure ''begin tx'')) s)"
| lock_row:
    "phase_of s k = Begun \<Longrightarrow> live_row s (target s k) = Some r \<Longrightarrow> locks s (target s k) = None \<Longrightarrow>
     soft_step s (set_phase k (Locked (user_id r)) (s\<lparr>locks := (locks s)(target s k := Some k)\<rparr>))"
| lock_missing:
    "phase_of s k = Begun \<Longrightarrow> live_row s (target s k) = None \<Longrightarrow>
     soft_step s (set_phase k (Finished (Inl ErrCredentialNotFound)) s)"
| lock_fails:
    "phase_of s k = Begun \<Longrightarrow> soft_step s (set_phase k (Finished (pg_failure ''lock credential'')) s)"
| count:
    "phase_of s k = Locked u \<Longrightarrow> soft_step s (set_phase k (Counted u (live_count (table s) u)) s)"
| count_fails:
    "phase_of s k = Locked u \<Longrightarrow> soft_step s (finish k (pg_failure ''count live credentials'') s)"
| refuse:
    "phase_of s k = Counted u n \<Longrightarrow> n \<le> 1 \<Longrightarrow> soft_step s (finish k (Inl ErrLastCredential) s)"
| stamp:
    "phase_of s k = Counted u n \<Longrightarrow> \<not> n \<le> 1 \<Longrightarrow> soft_step s (set_phase k (Stamped u) s)"
| stamp_fails:
    "phase_of s k = Counted u n \<Longrightarrow> \<not> n \<le> 1 \<Longrightarrow>
     soft_step s (finish k (pg_failure ''soft-delete credential'') s)"
| commit:
    "phase_of s k = Stamped u \<Longrightarrow> soft_step s (finish k (Inr ()) (write_row k s))"
| commit_fails:
    "phase_of s k = Stamped u \<Longrightarrow> soft_step s (finish k (pg_failure ''commit tx'') s)"
| commit_lost:
    "phase_of s k = Stamped u \<Longrightarrow> soft_step s (finish k (pg_failure ''commit tx'') (write_row k s))"
| tick: "t \<ge> clock s \<Longrightarrow> soft_step s (s\<lparr>clock := t\<rparr>)"

inductive runs :: "sys \<Rightarrow> sys \<Rightarrow> bool" where
  refl: "runs s s"
| step: "runs s t \<Longrightarrow> soft_step t u \<Longrightarrow> runs s u"

text \<open>Every transaction has just been called for, and nothing is locked.\<close>

definition initial :: "sys \<Rightarrow> bool" where
  "initial s \<longleftrightarrow> distinct (map row_id (table s)) \<and> (\<forall>i. locks s i = None) \<and> (\<forall>k. phase_of s k = Called)"

lemma set_phase_simps [simp]:
  "table (set_phase k p s) = table s" "locks (set_phase k p s) = locks s"
  "target (set_phase k p s) = target s" "clock (set_phase k p s) = clock s"
  "phase_of (set_phase k p s) = (phase_of s)(k := p)"
  by (simp_all add: set_phase_def)

lemma finish_simps [simp]:
  "table (finish k r s) = table s" "target (finish k r s) = target s" "clock (finish k r s) = clock s"
  "locks (finish k r s) = (locks s)(target s k := None)"
  "phase_of (finish k r s) = (phase_of s)(k := Finished r)"
  by (simp_all add: finish_def)

lemma write_row_simps [simp]:
  "table (write_row k s) = update_where (\<lambda>r. row_id r = target s k) (mark_deleted (clock s)) (table s)"
  "locks (write_row k s) = locks s" "target (write_row k s) = target s" "clock (write_row k s) = clock s"
  "phase_of (write_row k s) = phase_of s"
  by (simp_all add: write_row_def)

lemma pg_failure_Inl [simp]: "pg_failure what \<noteq> Inr ()"
  by (simp add: pg_failure_def)

lemma soft_step_target: "soft_step s t \<Longrightarrow> target t = target s"
  by (induction rule: soft_step.induct) simp_all

lemma runs_target: "runs s t \<Longrightarrow> target t = target s"
  by (induction rule: runs.induct) (simp_all add: soft_step_target)

lemma live_rowD: "live_row s i = Some r \<Longrightarrow> r \<in> set (table s) \<and> row_id r = i \<and> live r"
  by (auto simp: live_row_def dest: find_SomeD)

lemma live_row_Some:
  "distinct (map row_id (table s)) \<Longrightarrow> r \<in> set (table s) \<Longrightarrow> live r \<Longrightarrow> live_row s (row_id r) = Some r"
  by (cases "live_row s (row_id r)")
     (auto simp: live_row_def dest!: find_SomeD dest: find_NoneD distinct_keyD)

section \<open>Locks and rows\<close>

text \<open>
  The invariant: a transaction between its lock and its end holds the lock of its row, the
  row is live and belongs to the user it read; a transaction that succeeded left a dead row.
\<close>

definition soft_inv :: "sys \<Rightarrow> bool" where
  "soft_inv s \<longleftrightarrow> distinct (map row_id (table s)) \<and>
     (\<forall>k u. active_for (phase_of s k) = Some u \<longrightarrow>
        locks s (target s k) = Some k \<and>
        (\<exists>r \<in> set (table s). row_id r = target s k \<and> user_id r = u \<and> live r)) \<and>
     (\<forall>k. phase_of s k = Finished (Inr ()) \<longrightarrow> (\<forall>r \<in> set (table s). row_id r = target s k \<longrightarrow> \<not> live r)) \<and>
     (\<forall>j k. phase_of s j = Finished (Inr ()) \<longrightarrow> phase_of s k = Finished (Inr ()) \<longrightarrow> target s j = target s k
        \<longrightarrow> j = k)"

lemma soft_invD:
  assumes "soft_inv s"
  shows "distinct (map row_id (table s))"
    and "active_for (phase_of s k) = Some u \<Longrightarrow> locks s (target s k) = Some k"
    and "active_for (phase_of s k) = Some u \<Longrightarrow>
      \<exists>r \<in> set (table s). row_id r = target s k \<and> user_id r = u \<and> live r"
    and "phase_of s k = Finished (Inr ()) \<Longrightarrow> r \<in> set (table s) \<Longrightarrow> row_id r = target s k \<Longrightarrow> \<not> live r"
    and "phase_of s j = Finished (Inr ()) \<Longrightarrow> phase_of s k = Finished (Inr ()) \<Longrightarrow> target s j = target s k
      \<Longrightarrow> j = k"
  using assms unfolding soft_inv_def by blast+

lemma soft_inv_initial: "initial s \<Longrightarrow> soft_inv s"
  by (simp add: initial_def soft_inv_def)

text \<open>A change of one phase that neither enters nor leaves a transaction's critical part.\<close>

lemma soft_inv_set_phase:
  assumes "soft_inv s" and "p \<noteq> Finished (Inr ())"
    and "\<And>u. active_for p = Some u \<Longrightarrow> active_for (phase_of s k) = Some u"
  shows "soft_inv (set_phase k p s)"
  using assms unfolding soft_inv_def by (auto split: if_splits)

lemma soft_inv_one_lock:
  assumes "soft_inv s" and "active_for (phase_of s k) = Some u" and "j \<noteq> k" and "target s j = target s k"
  shows "active_for (phase_of s j) = None"
  using soft_invD(2) [OF assms(1,2)] soft_invD(2) [OF assms(1), of j] assms(3,4)
  by (cases "active_for (phase_of s j)") auto

lemma soft_inv_finish:
  assumes "soft_inv s" and "active_for (phase_of s k) = Some u"
    and "x \<noteq> Inr ()"
  shows "soft_inv (finish k x s)"
proof -
  have "active_for (phase_of s j) = None" if "j \<noteq> k" and "target s j = target s k" for j
    using soft_inv_one_lock [OF assms(1,2) that] .
  with assms(1,3) show ?thesis unfolding soft_inv_def by auto
qed

lemma soft_inv_commit:
  assumes inv: "soft_inv s" and act: "active_for (phase_of s k) = Some u"
  shows "soft_inv (finish k x (write_row k s))"
proof -
  let ?t = "update_where (\<lambda>r. row_id r = target s k) (mark_deleted (clock s)) (table s)"
  have rows: "r \<in> set ?t \<Longrightarrow> row_id r \<noteq> target s k \<and> r \<in> set (table s) \<or> \<not> live r \<and> row_id r = target s k"
    for r by (auto simp: set_update_where split: if_splits)
  have kept: "r \<in> set (table s) \<Longrightarrow> row_id r \<noteq> target s k \<Longrightarrow> r \<in> set ?t" for r
    by (force simp: set_update_where)
  have other: "active_for (phase_of s j) = None" if "j \<noteq> k" and "target s j = target s k" for j
    using soft_inv_one_lock [OF inv act that] .
  have once: "target s j \<noteq> target s k" if "phase_of s j = Finished (Inr ())" for j
    using soft_invD(3) [OF inv act] soft_invD(4) [OF inv that] by auto
  have "distinct (map row_id ?t)"
    using soft_invD(1) [OF inv] by (simp add: map_update_where)
  moreover have "\<exists>r \<in> set ?t. row_id r = target s j \<and> user_id r = v \<and> live r"
    if "j \<noteq> k" and "active_for (phase_of s j) = Some v" for j v
    using soft_invD(3) [OF inv that(2)] other [OF that(1)] that(2) kept by (metis option.discI)
  moreover have "\<not> live r" if "phase_of s j = Finished (Inr ())" "r \<in> set ?t" "row_id r = target s j" for j r
    using rows [OF that(2)] soft_invD(4) [OF inv that(1)] that(3) by blast
  moreover have "\<not> live r" if "r \<in> set ?t" "row_id r = target s k" for r
    using rows [OF that(1)] that(2) by blast
  ultimately show ?thesis
    using soft_invD(2,5) [OF inv] other once once [symmetric] unfolding soft_inv_def
    by (auto split: if_splits)
qed

lemma soft_step_inv: "soft_step s t \<Longrightarrow> soft_inv s \<Longrightarrow> soft_inv t"
proof (induction rule: soft_step.induct)
  case (lock_row s k r)
  then have r: "r \<in> set (table s)" "row_id r = target s k" "live r"
    by (auto dest: live_rowD)
  have "active_for (phase_of s j) = None" if "target s j = target s k" for j
    using soft_invD(2) [OF lock_row.prems, of j] lock_row.hyps(3) that
    by (cases "active_for (phase_of s j)") auto
  with lock_row r show ?case unfolding soft_inv_def by auto
next
  case (commit s k u)
  then show ?case by (intro soft_inv_commit [where u = u]) simp_all
next
  case (commit_lost s k u)
  then show ?case by (intro soft_inv_commit [where u = u]) simp_all
next
  case (tick s t)
  then show ?case by (simp add: soft_inv_def)
qed (auto intro!: soft_inv_set_phase soft_inv_finish)

lemma runs_inv: "runs s t \<Longrightarrow> soft_inv s \<Longrightarrow> soft_inv t"
  by (induction rule: runs.induct) (auto intro: soft_step_inv)

section \<open>Transactions that do not overlap\<close>

text \<open>
  \<open>no_overlap s\<close>: at most one transaction per user is between its lock and its end.
  \<open>runs_apart\<close> are the runs all of whose states are such.
\<close>

definition no_overlap :: "sys \<Rightarrow> bool" where
  "no_overlap s \<longleftrightarrow> (\<forall>j k u. active_for (phase_of s j) = Some u \<longrightarrow> active_for (phase_of s k) = Some u \<longrightarrow> j = k)"

inductive runs_apart :: "sys \<Rightarrow> sys \<Rightarrow> bool" where
  refl: "no_overlap s \<Longrightarrow> runs_apart s s"
| step: "runs_apart s t \<Longrightarrow> soft_step t u \<Longrightarrow> no_overlap u \<Longrightarrow> runs_apart s u"

lemma runs_apart_runs: "runs_apart s t \<Longrightarrow> runs s t"
  by (induction rule: runs_apart.induct) (auto intro: runs.intros)

text \<open>A count stays true until its transaction ends, so a commit leaves a live row behind.\<close>

definition count_inv :: "(uuid \<Rightarrow> bool) \<Rightarrow> sys \<Rightarrow> bool" where
  "count_inv has s \<longleftrightarrow>
     (\<forall>k u n. phase_of s k = Counted u n \<longrightarrow> n = live_count (table s) u) \<and>
     (\<forall>k u. phase_of s k = Stamped u \<longrightarrow> 1 < live_count (table s) u) \<and>
     (\<forall>u. has u \<longrightarrow> 0 < live_count (table s) u)"

lemma count_inv_commit:
  assumes inv: "soft_inv s" and apart: "no_overlap s" and cnt: "count_inv has s"
    and ph: "phase_of s k = Stamped u"
  shows "count_inv has (finish k x (write_row k s))"
proof -
  let ?t = "update_where (\<lambda>r. row_id r = target s k) (mark_deleted (clock s)) (table s)"
  obtain r where r: "r \<in> set (table s)" "row_id r = target s k" "user_id r = u" "live r"
    using soft_invD(3) [OF inv, of k u] ph by auto
  have new: "live_count ?t v = (if v = u then live_count (table s) v - 1 else live_count (table s) v)" for v
    using live_count_mark_deleted [OF soft_invD(1) [OF inv] r(1,4), of "clock s" v] r(2,3) by simp
  have "j = k" if "phase_of s j = Counted u n \<or> phase_of s j = Stamped u" for j n
    using apart that ph unfolding no_overlap_def by (metis active_for.simps(2,3))
  with cnt ph new show ?thesis
    unfolding count_inv_def by (auto split: if_splits)
qed

lemma count_inv_step:
  "soft_step s t \<Longrightarrow> soft_inv s \<Longrightarrow> no_overlap s \<Longrightarrow> count_inv has s \<Longrightarrow> count_inv has t"
proof (induction rule: soft_step.induct)
  case (commit s k u)
  then show ?case by (intro count_inv_commit)
next
  case (commit_lost s k u)
  then show ?case by (intro count_inv_commit)
next
  case (stamp s k u n)
  then have "1 < live_count (table s) u" unfolding count_inv_def by fastforce
  with stamp show ?case unfolding count_inv_def by auto
qed (simp_all add: count_inv_def)

lemma runs_apart_count_inv:
  assumes "runs_apart s t" and "soft_inv s" and "count_inv has s"
  shows "soft_inv t \<and> no_overlap t \<and> count_inv has t"
  using assms
  by (induction rule: runs_apart.induct) (auto intro: soft_step_inv count_inv_step)

section \<open>Running a schedule\<close>

text \<open>
  The next statement of transaction \<open>k\<close> as a function of its outcome (\<open>None\<close>: it waits for
  a lock or has ended), and a whole schedule, which names the transaction of each step and
  says whether its statement works, fails or loses its reply.
\<close>

definition advance :: "pg_outcome \<Rightarrow> nat \<Rightarrow> sys \<Rightarrow> sys option" where
  "advance x k s = (case phase_of s k of
      Called \<Rightarrow> Some (set_phase k (if x = PgOk then Begun else Finished (pg_failure ''begin tx'')) s)
    | Begun \<Rightarrow>
        if x \<noteq> PgOk then Some (set_phase k (Finished (pg_failure ''lock credential'')) s)
        else (case live_row s (target s k) of
          None \<Rightarrow> Some (set_phase k (Finished (Inl ErrCredentialNotFound)) s)
        | Some r \<Rightarrow> if locks s (target s k) = None
            then Some (set_phase k (Locked (user_id r)) (s\<lparr>locks := (locks s)(target s k := Some k)\<rparr>))
            else None)
    | Locked u \<Rightarrow>
        Some (if x = PgOk then set_phase k (Counted u (live_count (table s) u)) s
              else finish k (pg_failure ''count live credentials'') s)
    | Counted u n \<Rightarrow>
        Some (if n \<le> 1 then finish k (Inl ErrLastCredential) s
              else if x = PgOk then set_phase k (Stamped u) s
              else finish k (pg_failure ''soft-delete credential'') s)
    | Stamped u \<Rightarrow>
        Some (case x of
            PgOk \<Rightarrow> finish k (Inr ()) (write_row k s)
          | PgFail \<Rightarrow> finish k (pg_failure ''commit tx'') s
          | PgLost \<Rightarrow> finish k (pg_failure ''commit tx'') (write_row k s))
    | Finished r \<Rightarrow> None)"

fun schedule :: "(nat \<times> pg_outcome) list \<Rightarrow> sys \<Rightarrow> sys option" where
  "schedule [] s = Some s"
| "schedule ((k, x) # ks) s = (case advance x k s of None \<Rightarrow> None | Some t \<Rightarrow> schedule ks t)"

text \<open>A schedule in which nothing fails.\<close>

abbreviation all_ok :: "nat list \<Rightarrow> (nat \<times> pg_outcome) list" where
  "all_ok ks \<equiv> map (\<lambda>k. (k, PgOk)) ks"

lemma advance_step: "advance x k s = Some t \<Longrightarrow> soft_step s t"
  by (auto simp: advance_def split: phase.splits option.splits if_splits pg_outcome.splits intro: soft_step.intros)

lemma runs_trans: "runs t u \<Longrightarrow> runs s t \<Longrightarrow> runs s u"
  by (induction rule: runs.induct) (auto intro: runs.step)

lemma schedule_ConsE:
  assumes "schedule (y # ks) s = Some t"
  obtains s' where "advance (snd y) (fst y) s = Some s'" and "schedule ks s' = Some t"
  using assms by (cases y) (auto split: option.splits)

lemma schedule_runs: "schedule ks s = Some t \<Longrightarrow> runs s t"
proof (induction ks arbitrary: s)
  case (Cons y ks)
  from Cons.prems obtain s1 where "advance (snd y) (fst y) s = Some s1" and "schedule ks s1 = Some t"
    by (rule schedule_ConsE)
  with Cons.IH show ?case
    by (meson advance_step runs.intros runs_trans)
qed (simp add: runs.refl)

text \<open>One transaction from beginning to end while every other one is idle.\<close>

lemma schedule_alone:
  assumes "phase_of s k = Called" and "locks s (target s k) = None"
  shows "\<exists>ks t. schedule ks s = Some t \<and> fst ` set ks = {k} \<and>
    (case soft_delete_spec (table s) (target s k) (clock s) of
       Inl e \<Rightarrow> phase_of t k = Finished (Inl e) \<and> table t = table s
     | Inr cs \<Rightarrow> phase_of t k = Finished (Inr ()) \<and> table t = cs)"
proof -
  consider "live_row s (target s k) = None"
    | r where "live_row s (target s k) = Some r" "live_count (table s) (user_id r) \<le> 1"
    | r where "live_row s (target s k) = Some r" "\<not> live_count (table s) (user_id r) \<le> 1"
    by (cases "live_row s (target s k)") auto
  then show ?thesis
  proof cases
    case 1
    with assms show ?thesis
      by (intro exI [of _ "all_ok [k, k]"]) (simp add: advance_def soft_delete_spec_def live_row_def)
  next
    case 2
    with assms show ?thesis
      by (intro exI [of _ "all_ok [k, k, k, k]"]) (simp add: advance_def soft_delete_spec_def live_row_def)
  next
    case 3
    with assms show ?thesis
      by (intro exI [of _ "all_ok [k, k, k, k, k]"]) (simp add: advance_def soft_delete_spec_def live_row_def)
  qed
qed

text \<open>In a schedule of one transaction there is nothing to overlap with.\<close>

lemma advance_other: "advance x k s = Some t \<Longrightarrow> j \<noteq> k \<Longrightarrow> phase_of t j = phase_of s j"
  by (auto simp: advance_def split: phase.splits option.splits if_splits pg_outcome.splits)

lemma schedule_runs_apart:
  assumes "schedule ks s = Some t" and "fst ` set ks \<subseteq> {k}"
    and "\<And>j. j \<noteq> k \<Longrightarrow> active_for (phase_of s j) = None" and "runs_apart s0 s"
  shows "runs_apart s0 t"
  using assms
proof (induction ks arbitrary: s)
  case (Cons y ks)
  from Cons.prems(1) obtain s1 where s1: "advance (snd y) k s = Some s1" and rest: "schedule ks s1 = Some t"
    by (rule schedule_ConsE) (use Cons.prems(2) in auto)
  have idle: "active_for (phase_of s1 j) = None" if "j \<noteq> k" for j
    using advance_other [OF s1 that] Cons.prems(3) [OF that] by simp
  then have "no_overlap s1"
    unfolding no_overlap_def by (metis option.distinct(1))
  with Cons.prems(4) s1 have "runs_apart s0 s1"
    by (blast intro: runs_apart.step advance_step)
  with Cons.IH [OF rest] Cons.prems(2) idle show ?case by auto
qed simp

section \<open>Every transaction ends\<close>

text \<open>
  A row is locked only by a transaction that is between its lock and its end, and that has
  the row as its target. The number of statements a transaction can still execute goes down
  with every step it takes.
\<close>

definition lock_inv :: "sys \<Rightarrow> bool" where
  "lock_inv s \<longleftrightarrow> (\<forall>i j. locks s i = Some j \<longrightarrow> target s j = i \<and> active_for (phase_of s j) \<noteq> None)"

fun statements_left :: "phase \<Rightarrow> nat" where
  "statements_left Called = 5"
| "statements_left Begun = 4"
| "statements_left (Locked u) = 3"
| "statements_left (Counted u n) = 2"
| "statements_left (Stamped u) = 1"
| "statements_left (Finished r) = 0"

lemma advance_lock_inv:
  assumes "advance x k s = Some t" and "lock_inv s"
  shows "lock_inv t"
proof -
  have "locks s i \<noteq> Some k" if "active_for (phase_of s k) = None" for i
    using assms(2) that unfolding lock_inv_def by force
  with assms show ?thesis
    by (cases "phase_of s k")
       (auto simp: advance_def lock_inv_def split: option.splits if_splits pg_outcome.splits)
qed

lemma advance_left: "advance x k s = Some t \<Longrightarrow> statements_left (phase_of t k) < statements_left (phase_of s k)"
  by (auto simp: advance_def split: phase.splits option.splits if_splits pg_outcome.splits)

lemma advance_active: "active_for (phase_of s k) \<noteq> None \<Longrightarrow> advance x k s \<noteq> None"
  by (cases "phase_of s k") (simp_all add: advance_def)

lemma schedule_lock_inv: "schedule ks s = Some t \<Longrightarrow> lock_inv s \<Longrightarrow> lock_inv t"
  by (induction ks arbitrary: s) (auto elim!: schedule_ConsE intro: advance_lock_inv simp del: schedule.simps(2))

lemma schedule_left:
  "schedule ks s = Some t \<Longrightarrow> count_list (map fst ks) k + statements_left (phase_of t k) \<le> statements_left (phase_of s k)"
proof (induction ks arbitrary: s)
  case (Cons y ks)
  from Cons.prems obtain s' where s': "advance (snd y) (fst y) s = Some s'" and rest: "schedule ks s' = Some t"
    by (rule schedule_ConsE)
  show ?case
    using Cons.IH [OF rest] advance_left [OF s'] advance_other [OF s', of k] by (cases "k = fst y") auto
qed simp

text \<open>A transaction that is not part of the schedule has not moved.\<close>

lemma schedule_idle: "schedule ks s = Some t \<Longrightarrow> k \<notin> fst ` set ks \<Longrightarrow> phase_of t k = phase_of s k"
  by (induction ks arbitrary: s) (auto elim!: schedule_ConsE simp: advance_other simp del: schedule.simps(2))

section \<open>Properties\<close>

text \<open>
  The runs below start here: two passkeys of one user, transaction 0 on the first, all
  others on the second.
\<close>

definition two_deletes :: sys where
  "two_deletes = \<lparr>table = w_creds (two_passkeys ()), locks = (\<lambda>_. None),
     target = (\<lambda>k. if k = 0 then UUID [1] else UUID [2]), phase_of = (\<lambda>_. Called), clock = 0\<rparr>"

lemma two_deletes_simps [simp]:
  "table two_deletes = w_creds (two_passkeys ())" "locks two_deletes i = None"
  "target two_deletes k = (if k = 0 then UUID [1] else UUID [2])" "phase_of two_deletes k = Called"
  "clock two_deletes = 0"
  by (simp_all add: two_deletes_def)

lemma initial_two_deletes: "initial two_deletes"
  by (simp add: initial_def)

text \<open>
  A \<open>SoftDelete\<close> transaction whose row is not locked can run to its end, and then has
  returned and committed exactly what the sequential specification says: the step system
  and the sequential model of the method agree.
\<close>

lemma solo_run_refines:
  assumes "phase_of s k = Called" and "locks s (target s k) = None"
  shows "\<exists>t. runs s t \<and>
    (case soft_delete_spec (table s) (target s k) (clock s) of
       Inl e \<Rightarrow> phase_of t k = Finished (Inl e) \<and> table t = table s
     | Inr cs \<Rightarrow> phase_of t k = Finished (Inr ()) \<and> table t = cs)"
  using schedule_alone [OF assms] schedule_runs by blast

lemma solo_run_refines_example:
  "\<exists>t. runs two_deletes t \<and> phase_of t 0 = Finished (Inr ()) \<and> live_count (table t) (UUID [9]) = 1"
  using solo_run_refines [of two_deletes 0] by (auto simp: soft_delete_spec_def)

text \<open>
  Of any number of concurrent transactions on the same row, in any interleaving, at
  most one succeeds: the row lock makes the others see the row as gone.
\<close>

lemma same_row_deleted_once:
  assumes "initial s" and "runs s t" and "target s j = target s k"
    and "phase_of t j = Finished (Inr ())" and "phase_of t k = Finished (Inr ())"
  shows "j = k"
proof -
  have "soft_inv t"
    using assms(1,2) by (blast intro: runs_inv soft_inv_initial)
  then show ?thesis
    using assms runs_target [OF assms(2)] by (auto dest: soft_invD(5))
qed

lemma same_row_deleted_once_example:
  "\<exists>t. runs two_deletes t \<and> phase_of t 1 = Finished (Inr ())
     \<and> (\<forall>j. j \<noteq> 0 \<longrightarrow> phase_of t j = Finished (Inr ()) \<longrightarrow> j = 1)"
proof -
  obtain ks t where run: "schedule ks two_deletes = Some t" and one: "phase_of t 1 = Finished (Inr ())"
    using schedule_alone [of two_deletes 1] by (auto simp: soft_delete_spec_def)
  then show ?thesis
    using same_row_deleted_once [OF initial_two_deletes schedule_runs [OF run], of _ 1]
    by (intro exI [of _ t]) (auto intro: schedule_runs)
qed

text \<open>
  C28: the last-credential guard holds for every interleaving in which transactions on
  credentials of one user do not overlap (those of different users may): a user with a live
  credential at the start has one at every later moment.
\<close>

theorem guard_without_overlap:
  assumes "initial s" and "runs_apart s t" and "0 < live_count (table s) u"
  shows "0 < live_count (table t) u"
proof -
  have "count_inv (\<lambda>u. 0 < live_count (table s) u) s"
    using assms(1) by (simp add: initial_def count_inv_def)
  then have "count_inv (\<lambda>u. 0 < live_count (table s) u) t"
    using runs_apart_count_inv [OF assms(2) soft_inv_initial [OF assms(1)]] by blast
  with assms(3) show ?thesis by (simp add: count_inv_def)
qed

theorem guard_without_overlap_witness:
  "\<exists>t. runs_apart two_deletes t \<and> phase_of t 0 = Finished (Inr ()) \<and> 0 < live_count (table t) (UUID [9])"
proof -
  obtain ks t where run: "schedule ks two_deletes = Some t" "fst ` set ks = {0}"
    and zero: "phase_of t 0 = Finished (Inr ())"
    using schedule_alone [of two_deletes 0] by (auto simp: soft_delete_spec_def)
  have "runs_apart two_deletes t"
    by (rule schedule_runs_apart [OF run(1), of 0 two_deletes]) (auto simp: run no_overlap_def intro: runs_apart.refl)
  then show ?thesis
    using guard_without_overlap [OF initial_two_deletes, of t "UUID [9]"] zero by auto
qed

text \<open>
  C29: the guard does not hold for overlapping transactions. From a user with exactly two
  live credentials, one transaction per credential, there is an interleaving in which both
  return success and the user is left with none: each locks its own row only, and each
  counts before the other commits.
\<close>

theorem concurrent_deletes_defeat_guard:
  "\<exists>t. runs two_deletes t \<and> phase_of t 0 = Finished (Inr ()) \<and> phase_of t 1 = Finished (Inr ())
     \<and> live_count (table two_deletes) (UUID [9]) = 2 \<and> live_count (table t) (UUID [9]) = 0"
proof -
  obtain t where run: "schedule (all_ok [0, 1, 0, 1, 0, 1, 0, 1, 0, 1]) two_deletes = Some t"
    and "phase_of t 0 = Finished (Inr ())" "phase_of t 1 = Finished (Inr ())"
    and "live_count (table t) (UUID [9]) = 0"
    by (simp add: advance_def live_row_def)
  then show ?thesis
    using schedule_runs [OF run] by (intro exI [of _ t]) simp
qed

text \<open>
  C33: the transactions never block each other for good. However \<open>n\<close> transactions are
  scheduled, each step executing a statement of one of them that does not have to wait (the
  five of a transaction with its \<open>Begin\<close> and its \<open>Commit\<close>), and whichever of the
  statements fail, the schedule has at most \<open>5 * n\<close> steps; and when none of them can take
  another step, all of them have returned.
\<close>

theorem deletes_finish:
  assumes "initial s" and "schedule ks s = Some t" and "fst ` set ks \<subseteq> {..<n}"
  shows "length ks \<le> 5 * n \<and>
    ((\<forall>k<n. advance PgOk k t = None) \<longrightarrow> (\<forall>k<n. \<exists>r. phase_of t k = Finished r))"
proof
  have "length (map fst ks) = (\<Sum>k<n. count_list (map fst ks) k)"
    using assms(3) by (intro sum_count_set [symmetric]) simp_all
  also have "\<dots> \<le> (\<Sum>k<n. 5)"
    using schedule_left [OF assms(2)] assms(1)
    by (intro sum_mono) (metis add_leD1 initial_def statements_left.simps(1))
  finally show "length ks \<le> 5 * n" by simp
next
  have inv: "lock_inv t"
    using assms(1) by (intro schedule_lock_inv [OF assms(2)]) (simp add: initial_def lock_inv_def)
  have idle: "phase_of t j = Called" if "\<not> j < n" for j
    using schedule_idle [OF assms(2), of j] assms(1,3) that by (auto simp: initial_def)
  show "(\<forall>k<n. advance PgOk k t = None) \<longrightarrow> (\<forall>k<n. \<exists>r. phase_of t k = Finished r)"
  proof (intro impI allI)
    fix k assume stuck: "\<forall>k<n. advance PgOk k t = None" and "k < n"
    have free: "locks t i = None" for i
    proof (cases "locks t i")
      case (Some j)
      then have "active_for (phase_of t j) \<noteq> None"
        using inv by (simp add: lock_inv_def)
      then have "j < n" and "advance PgOk j t \<noteq> None"
        using idle [of j] advance_active [of t j PgOk] by (cases "j < n"; simp)+
      with stuck show ?thesis by simp
    qed
    from stuck \<open>k < n\<close> have "advance PgOk k t = None" by simp
    then show "\<exists>r. phase_of t k = Finished r"
      by (auto simp: advance_def free split: phase.splits option.splits)
  qed
qed

theorem deletes_finish_witness:
  "\<exists>t. schedule (all_ok [0, 1, 0, 1, 0, 1, 0, 1] @ [(0, PgLost), (1, PgOk)]) two_deletes = Some t \<and>
     (\<forall>k<2. \<exists>r. phase_of t k = Finished r)"
proof -
  obtain t where run: "schedule (all_ok [0, 1, 0, 1, 0, 1, 0, 1] @ [(0, PgLost), (1, PgOk)]) two_deletes = Some t"
    and stuck: "advance PgOk 0 t = None" "advance PgOk 1 t = None"
    by (simp add: advance_def live_row_def)
  have "\<forall>k<2. advance PgOk k t = None"
    using stuck by (auto simp: less_2_cases_iff)
  with run deletes_finish [OF initial_two_deletes run, of 2] show ?thesis by auto
qed

end
