(* ===== verification/Redis_Client.thy ===== *)
theory Redis_Client
  imports World
begin

text \<open>
  The Redis server as the stores see it through \<open>go-redis\<close>. The commands are a parameter
  of the model (the record \<open>redis_client\<close>); their documented behaviour is the locale
  \<open>redis_service\<close>: \<open>SET\<close> with an expiry, \<open>GET\<close>, \<open>GETDEL\<close>, \<open>DEL\<close>, each atomic,
  each of which may also fail with or without having taken effect. The locale is
  interpreted on a server that keeps a map with expiry times and follows a script of
  failures, which the concrete runs of the development use.
\<close>

section \<open>Commands\<close>

text \<open>
  What a key holds: a string, or the bytes of a JSON document, kept as its value tree.
  \<open>RNil\<close> is go-redis's \<open>redis.Nil\<close>, \<open>RErr\<close> any other error.
\<close>

datatype rval = RStr string | RDoc json

datatype 'a reply = RNil | RErr | ROk 'a

record 'rd redis_client =
  rc_Set :: "time \<Rightarrow> string \<Rightarrow> rval \<Rightarrow> duration \<Rightarrow> 'rd \<Rightarrow> unit reply \<times> 'rd"
  rc_Get :: "time \<Rightarrow> string \<Rightarrow> 'rd \<Rightarrow> rval reply \<times> 'rd"
  rc_GetDel :: "time \<Rightarrow> string \<Rightarrow> 'rd \<Rightarrow> rval reply \<times> 'rd"
  rc_Del :: "time \<Rightarrow> string \<Rightarrow> 'rd \<Rightarrow> int reply \<times> 'rd"
  rc_Ping :: "'rd \<Rightarrow> unit reply \<times> 'rd"

section \<open>Documented behaviour\<close>

text \<open>
  \<open>holds_at t s k\<close> is the value that the key \<open>k\<close> has at time \<open>t\<close> if the server is in
  state \<open>s\<close> and receives no further command. A key never appears by itself, it only
  expires. The laws on keys other than the command's own hold for every reply; so do the
  \<open>any\<close> laws, by which a command that failed took effect as it should or not at all.
  How long a value stays is promised for positive times to live only: \<open>go-redis\<close> takes a
  duration of zero to mean that the key never expires.
\<close>

locale redis_service =
  fixes R :: "'rd redis_client"
    and holds_at :: "time \<Rightarrow> 'rd \<Rightarrow> string \<Rightarrow> rval option"
  assumes expires: "t \<le> t' \<Longrightarrow> holds_at t' s k = Some v \<Longrightarrow> holds_at t s k = Some v"
    and set_ok: "rc_Set R t k v ttl s = (ROk x, s') \<Longrightarrow> t \<le> t' \<Longrightarrow> 0 < ttl \<Longrightarrow>
      holds_at t' s' = (holds_at t' s)(k := if t' < t + ttl then Some v else None)"
    and set_other: "rc_Set R t k v ttl s = (r1, s') \<Longrightarrow> t \<le> t' \<Longrightarrow> k' \<noteq> k \<Longrightarrow> holds_at t' s' k' = holds_at t' s k'"
    and get_ok: "rc_Get R t k s = (ROk v, s') \<Longrightarrow> holds_at t s k = Some v"
    and get_nil: "rc_Get R t k s = (RNil, s') \<Longrightarrow> holds_at t s k = None"
    and get_frame: "rc_Get R t k s = (r2, s') \<Longrightarrow> t \<le> t' \<Longrightarrow> holds_at t' s' = holds_at t' s"
    and getdel_ok: "rc_GetDel R t k s = (ROk v, s') \<Longrightarrow>
      holds_at t s k = Some v \<and> (t \<le> t' \<longrightarrow> holds_at t' s' k = None)"
    and getdel_nil: "rc_GetDel R t k s = (RNil, s') \<Longrightarrow>
      holds_at t s k = None \<and> (t \<le> t' \<longrightarrow> holds_at t' s' k = None)"
    and getdel_other: "rc_GetDel R t k s = (r2, s') \<Longrightarrow> t \<le> t' \<Longrightarrow> k' \<noteq> k \<Longrightarrow> holds_at t' s' k' = holds_at t' s k'"
    and del_ok: "rc_Del R t k s = (ROk n, s') \<Longrightarrow> t \<le> t' \<Longrightarrow> holds_at t' s' = (holds_at t' s)(k := None)"
    and del_other: "rc_Del R t k s = (r3, s') \<Longrightarrow> t \<le> t' \<Longrightarrow> k' \<noteq> k \<Longrightarrow> holds_at t' s' k' = holds_at t' s k'"
    and set_any: "rc_Set R t k v ttl s = (r1, s') \<Longrightarrow> t \<le> t' \<Longrightarrow>
      holds_at t' s' k = holds_at t' s k \<or> holds_at t' s' k = Some v \<or> holds_at t' s' k = None"
    and getdel_any: "rc_GetDel R t k s = (r2, s') \<Longrightarrow> t \<le> t' \<Longrightarrow>
      holds_at t' s' k = holds_at t' s k \<or> holds_at t' s' k = None"
    and del_any: "rc_Del R t k s = (r3, s') \<Longrightarrow> t \<le> t' \<Longrightarrow>
      holds_at t' s' k = holds_at t' s k \<or> holds_at t' s' k = None"
    and ping_frame: "rc_Ping R s = (r1, s') \<Longrightarrow> holds_at t s' = holds_at t s"
begin

lemma gone_stays_gone: "t \<le> t' \<Longrightarrow> holds_at t s k = None \<Longrightarrow> holds_at t' s k = None"
  using expires by (cases "holds_at t' s k") auto

end

section \<open>A server\<close>

datatype rd_outcome = RdOk | RdFail | RdLost

record rserver =
  rs_data :: "string \<Rightarrow> (rval \<times> time) option"
  rs_script :: "rd_outcome list"

definition rs_next :: "rserver \<Rightarrow> rd_outcome \<times> rserver" where
  "rs_next s = (case rs_script s of [] \<Rightarrow> (RdOk, s) | x # xs \<Rightarrow> (x, s\<lparr>rs_script := xs\<rparr>))"

definition rs_command :: "(rserver \<Rightarrow> 'a reply \<times> rserver) \<Rightarrow> rserver \<Rightarrow> 'a reply \<times> rserver" where
  "rs_command f s = (case rs_next s of
      (RdOk, s1) \<Rightarrow> f s1
    | (RdFail, s1) \<Rightarrow> (RErr, s1)
    | (RdLost, s1) \<Rightarrow> (RErr, snd (f s1)))"

definition rs_holds_at :: "time \<Rightarrow> rserver \<Rightarrow> string \<Rightarrow> rval option" where
  "rs_holds_at t s k = (case rs_data s k of
      Some (v, e) \<Rightarrow> if t < e then Some v else None | None \<Rightarrow> None)"

definition rs_lookup :: "time \<Rightarrow> string \<Rightarrow> rserver \<Rightarrow> rval reply" where
  "rs_lookup t k s = (case rs_holds_at t s k of Some v \<Rightarrow> ROk v | None \<Rightarrow> RNil)"

definition rs_put :: "string \<Rightarrow> rval \<Rightarrow> time \<Rightarrow> rserver \<Rightarrow> rserver" where
  "rs_put k v e s = s\<lparr>rs_data := (rs_data s)(k \<mapsto> (v, e))\<rparr>"

definition rs_remove :: "string \<Rightarrow> rserver \<Rightarrow> rserver" where
  "rs_remove k s = s\<lparr>rs_data := (rs_data s)(k := None)\<rparr>"

definition map_server :: "rserver redis_client" where
  "map_server =
     \<lparr>rc_Set = (\<lambda>t k v ttl. rs_command (\<lambda>s. (ROk (), rs_put k v (t + ttl) s))),
      rc_Get = (\<lambda>t k. rs_command (\<lambda>s. (rs_lookup t k s, s))),
      rc_GetDel = (\<lambda>t k. rs_command (\<lambda>s. (rs_lookup t k s, rs_remove k s))),
      rc_Del = (\<lambda>t k. rs_command (\<lambda>s. (ROk (if rs_holds_at t s k = None then 0 else 1), rs_remove k s))),
      rc_Ping = rs_command (\<lambda>s. (ROk (), s))\<rparr>"

definition empty_server :: rserver where
  "empty_server = \<lparr>rs_data = Map.empty, rs_script = []\<rparr>"

lemma rs_holds_at_simps [simp]:
  "rs_holds_at t (s\<lparr>rs_script := x\<rparr>) = rs_holds_at t s"
  "rs_holds_at t (rs_put k v e s) =
     (rs_holds_at t s)(k := if t < e then Some v else None)"
  "rs_holds_at t (rs_remove k s) = (rs_holds_at t s)(k := None)"
  by (auto simp: rs_holds_at_def rs_put_def rs_remove_def fun_eq_iff)

lemma rs_command_cases:
  assumes "rs_command f s = (r, s')"
  obtains (ran) xs where "f (s\<lparr>rs_script := xs\<rparr>) = (r, s')"
  | (failed) xs where "r = RErr" and "s' = s\<lparr>rs_script := xs\<rparr>"
  | (lost) xs where "r = RErr" and "s' = snd (f (s\<lparr>rs_script := xs\<rparr>))"
proof -
  have "\<exists>xs. snd (rs_next s) = s\<lparr>rs_script := xs\<rparr>"
    by (cases "rs_script s") (auto simp: rs_next_def intro: exI [of _ "[]"])
  then obtain xs where "snd (rs_next s) = s\<lparr>rs_script := xs\<rparr>" ..
  with assms that show thesis
    by (cases "rs_next s"; cases "fst (rs_next s)") (auto simp: rs_command_def)
qed

lemma rs_lookup_simps:
  "rs_lookup t k s = ROk v \<longleftrightarrow> rs_holds_at t s k = Some v"
  "rs_lookup t k s = RNil \<longleftrightarrow> rs_holds_at t s k = None"
  by (auto simp: rs_lookup_def split: option.splits)

interpretation server: redis_service map_server rs_holds_at
proof unfold_locales
  show "rs_holds_at t' s k = Some v \<Longrightarrow> rs_holds_at t s k = Some v" if "t \<le> t'" for t t' s k v
    using that by (auto simp: rs_holds_at_def split: option.splits if_splits)
qed (auto simp: map_server_def rs_lookup_simps elim!: rs_command_cases split: if_splits)

end
