(* ===== verification/Base64.thy ===== *)
theory Base64
  imports World
begin

text \<open>
  \<open>base64.RawURLEncoding\<close> of Go's standard library (RFC 4648, the URL-safe alphabet, no
  padding), which turns 32 random bytes into session tokens, guest tokens and challenge ids.
  Shown: the length of an encoding, that only the 64 characters of the alphabet occur in it,
  and that different byte strings of one length have different encodings.
\<close>

definition encodeURL :: string where
  "encodeURL = ''ABCDEFGHIJKLMNOPQRSTUVWXYZabcdefghijklmnopqrstuvwxyz0123456789-_''"

definition b64_char :: "nat \<Rightarrow> char" where
  "b64_char n = encodeURL ! (n mod 64)"

text \<open>
  Three bytes make a 24-bit number that is cut into four six-bit digits; one or two bytes
  at the end make two or three digits, the missing bits zero.
\<close>

fun EncodeToString :: "bytes \<Rightarrow> string" where
  "EncodeToString [] = []"
| "EncodeToString [a] =
     (let v = unat a * 65536 in [b64_char (v div 262144), b64_char (v div 4096)])"
| "EncodeToString [a, b] =
     (let v = unat a * 65536 + unat b * 256
      in [b64_char (v div 262144), b64_char (v div 4096), b64_char (v div 64)])"
| "EncodeToString (a # b # c # bs) =
     (let v = unat a * 65536 + unat b * 256 + unat c
      in [b64_char (v div 262144), b64_char (v div 4096), b64_char (v div 64), b64_char v]
         @ EncodeToString bs)"

lemma length_encodeURL: "length encodeURL = 64"
  by (simp add: encodeURL_def)

lemma distinct_encodeURL: "distinct encodeURL"
  by (simp add: encodeURL_def)

lemma b64_char_eq: "b64_char m = b64_char n \<longleftrightarrow> m mod 64 = n mod 64"
  by (simp add: b64_char_def nth_eq_iff_index_eq [OF distinct_encodeURL] length_encodeURL)

text \<open>The same computation on binary integers, for evaluation.\<close>

definition b64_int :: "int \<Rightarrow> char" where
  "b64_int n = encodeURL ! nat (n mod 64)"

lemma b64_int_of_nat: "b64_char n = b64_int (int n)"
  by (simp add: b64_int_def b64_char_def nat_mod_distrib)

lemma EncodeToString_int [code]:
  "EncodeToString [] = []"
  "EncodeToString [a] = (let v = uint a * 65536 in [b64_int (v div 262144), b64_int (v div 4096)])"
  "EncodeToString [a, b] =
     (let v = uint a * 65536 + uint b * 256
      in [b64_int (v div 262144), b64_int (v div 4096), b64_int (v div 64)])"
  "EncodeToString (a # b # c # bs) =
     (let v = uint a * 65536 + uint b * 256 + uint c
      in [b64_int (v div 262144), b64_int (v div 4096), b64_int (v div 64), b64_int v] @ EncodeToString bs)"
  by (simp_all add: Let_def b64_int_of_nat zdiv_int)

lemma b64_char_in: "b64_char n \<in> set encodeURL"
  by (simp add: b64_char_def length_encodeURL)

lemma set_EncodeToString: "set (EncodeToString bs) \<subseteq> set encodeURL"
  by (induction bs rule: EncodeToString.induct) (auto simp: Let_def b64_char_in)

lemma length_EncodeToString: "length (EncodeToString bs) = (4 * length bs + 2) div 3"
  by (induction bs rule: EncodeToString.induct) (auto simp: Let_def)

lemma unat_byte_less: "unat (a :: byte) < 256"
  using unsigned_less [where 'a = nat, of a] by simp

text \<open>The four six-bit digits determine a 24-bit number, and the number its three bytes.\<close>

lemma digits_of_24_bits:
  fixes x :: nat
  assumes "x < 16777216"
  shows "x = (x div 262144 mod 64) * 262144 + (x div 4096 mod 64) * 4096
           + (x div 64 mod 64) * 64 + x mod 64"
proof -
  have "x div 262144 mod 64 = x div 262144"
    using assms by (simp add: less_mult_imp_div_less)
  moreover have "x div 4096 = (x div 262144) * 64 + x div 4096 mod 64"
    using div_mult_mod_eq [of "x div 4096" 64] by (simp add: div_mult2_eq [symmetric])
  moreover have "x div 64 = (x div 4096) * 64 + x div 64 mod 64"
    using div_mult_mod_eq [of "x div 64" 64] by (simp add: div_mult2_eq [symmetric])
  moreover have "x = (x div 64) * 64 + x mod 64"
    by simp
  ultimately show ?thesis by linarith
qed

lemma bytes_of_24_bits:
  fixes a b c :: nat
  assumes "a < 256" "b < 256" "c < 256" and v: "v = a * 65536 + b * 256 + c"
  shows "a = v div 65536" and "b = v div 256 mod 256" and "c = v mod 256"
proof -
  have high: "v div 256 = a * 256 + b"
    using assms by simp
  then show "b = v div 256 mod 256"
    using assms by simp
  have "v div 65536 = v div 256 div 256"
    by (simp add: div_mult2_eq [symmetric])
  with high show "a = v div 65536"
    using assms by simp
  show "c = v mod 256"
    using assms by (simp add: mod_add_eq [symmetric] mod_mult_eq [symmetric])
qed

lemma digits3:
  fixes a b c a' b' c' :: nat
  assumes small: "a < 256" "b < 256" "c < 256" "a' < 256" "b' < 256" "c' < 256"
    and v: "v = a * 65536 + b * 256 + c" and v': "v' = a' * 65536 + b' * 256 + c'"
    and eqs: "v div 262144 mod 64 = v' div 262144 mod 64" "v div 4096 mod 64 = v' div 4096 mod 64"
      "v div 64 mod 64 = v' div 64 mod 64" "v mod 64 = v' mod 64"
  shows "a = a' \<and> b = b' \<and> c = c'"
proof -
  have "v < 16777216" and "v' < 16777216" using small v v' by linarith+
  then have "v = v'"
    using digits_of_24_bits [of v] digits_of_24_bits [of v'] eqs by simp
  then show ?thesis
    using bytes_of_24_bits [OF small(1-3) v] bytes_of_24_bits [OF small(4-6) v'] by simp
qed

lemma EncodeToString_inj:
  "length xs = length ys \<Longrightarrow> EncodeToString xs = EncodeToString ys \<Longrightarrow> xs = ys"
proof (induction xs arbitrary: ys rule: EncodeToString.induct)
  case 1
  then show ?case by simp
next
  case (2 a)
  then obtain a' where ys: "ys = [a']" by (cases ys) auto
  with "2" have "unat a = unat a' \<and> (0::nat) = 0 \<and> (0::nat) = 0"
    by (intro digits3 [where v = "unat a * 65536" and v' = "unat a' * 65536"])
       (auto simp: Let_def b64_char_eq unat_byte_less)
  with ys show ?case by (simp add: word_unat_eq_iff)
next
  case (3 a b)
  then obtain a' b' where ys: "ys = [a', b']" by (cases ys rule: EncodeToString.cases) auto
  with "3" have "unat a = unat a' \<and> unat b = unat b' \<and> (0::nat) = 0"
    by (intro digits3 [where v = "unat a * 65536 + unat b * 256"
          and v' = "unat a' * 65536 + unat b' * 256"])
       (auto simp: Let_def b64_char_eq unat_byte_less)
  with ys show ?case by (simp add: word_unat_eq_iff)
next
  case (4 a b c bs)
  then obtain a' b' c' bs' where ys: "ys = a' # b' # c' # bs'"
    by (cases ys rule: EncodeToString.cases) auto
  with "4.prems" have "unat a = unat a' \<and> unat b = unat b' \<and> unat c = unat c'"
    by (intro digits3 [where v = "unat a * 65536 + unat b * 256 + unat c"
          and v' = "unat a' * 65536 + unat b' * 256 + unat c'"])
       (auto simp: Let_def b64_char_eq unat_byte_less)
  moreover from "4.prems" ys have "bs = bs'"
    by (intro "4.IH") (auto simp: Let_def)
  ultimately show ?case using ys by (simp add: word_unat_eq_iff)
qed

end
