(* ===== verification/Redis_Stores.thy ===== *)
theory Redis_Stores
  imports Redis_Client Base64
begin

text \<open>
  \<open>internal/store/redis\<close>: tokens (\<open>redis.go\<close>) and the session, guest and challenge
  stores. A store is its methods over a Redis client \<open>R\<close> and, where user ids are stored,
  the uuid library \<open>L\<close>.

  The contract of a token store is the locale \<open>token_store\<close> (what \<open>Get\<close> returns after
  \<open>Create\<close> and \<open>Delete\<close>); the session store and the guest store are shown to be two
  instances of it over any Redis that satisfies \<open>redis_service\<close>. The challenge store is
  shown to be one-shot, and the three key namespaces not to interfere.
\<close>

section \<open>redis.go\<close>

definition newToken :: "('rd, string) store_act" where
  "newToken = bindE (catchE (rand_Read 32) (\<lambda>c. failE (Wrapped ''read random'' c)))
                (\<lambda>b. ret (EncodeToString b))"

text \<open>One command on the server that the state holds, at the current time.\<close>

definition redisE :: "(time \<Rightarrow> 'rd \<Rightarrow> 'a reply \<times> 'rd) \<Rightarrow> ('rd world, 'e, 'a reply) act" where
  "redisE f = (\<lambda>w. case f (w_now w) (w_rd w) of (r, s) \<Rightarrow> (Inr r, w\<lparr>w_rd := s\<rparr>))"

text \<open>\<open>.Err() != nil\<close>: a nil reply counts as an error here.\<close>

definition redisDo :: "string \<Rightarrow> (time \<Rightarrow> 'rd \<Rightarrow> 'a reply \<times> 'rd) \<Rightarrow> ('rd, 'a) store_act" where
  "redisDo what f = bindE (redisE f) (\<lambda>r.
     case r of ROk a \<Rightarrow> ret a | _ \<Rightarrow> failE (Wrapped what RedisCause))"

text \<open>A read: \<open>redis.Nil\<close> becomes the sentinel of the store.\<close>

definition redisFetch ::
  "err \<Rightarrow> string \<Rightarrow> (time \<Rightarrow> 'rd \<Rightarrow> rval reply \<times> 'rd) \<Rightarrow> ('rd, rval) store_act" where
  "redisFetch missing what f = bindE (redisE f) (\<lambda>r. case r of
       RNil \<Rightarrow> failE missing
     | RErr \<Rightarrow> failE (Wrapped what RedisCause)
     | ROk raw \<Rightarrow> ret raw)"

text \<open>
  \<open>uuid.Parse\<close> of the stored bytes. The documents that the program stores are JSON objects
  with several members, whose text is not that of a UUID.
\<close>

definition parse_owner :: "uuid_lib \<Rightarrow> rval \<Rightarrow> uuid option" where
  "parse_owner L raw = (case raw of RStr s \<Rightarrow> uuid_Parse L s | RDoc j \<Rightarrow> None)"

section \<open>session.go\<close>

definition sessionKeyPrefix :: string where
  "sessionKeyPrefix = ''session:''"

definition SessionStore_Create ::
  "'rd redis_client \<Rightarrow> uuid_lib \<Rightarrow> duration \<Rightarrow> uuid \<Rightarrow> ('rd, string) store_act" where
  "SessionStore_Create R L ttl userID =
     bindE newToken (\<lambda>token.
     bindE (redisDo ''set session''
              (\<lambda>now. rc_Set R now (sessionKeyPrefix @ token) (RStr (uuid_String L userID)) ttl)) (\<lambda>_.
     ret token))"

definition SessionStore_Get :: "'rd redis_client \<Rightarrow> uuid_lib \<Rightarrow> string \<Rightarrow> ('rd, uuid) store_act" where
  "SessionStore_Get R L token =
     bindE (redisFetch ErrSessionNotFound ''get session''
              (\<lambda>now. rc_Get R now (sessionKeyPrefix @ token))) (\<lambda>raw.
     case parse_owner L raw of
       None \<Rightarrow> failE (Wrapped ''parse session user id'' OtherCause)
     | Some u \<Rightarrow> ret u)"

definition SessionStore_Delete :: "'rd redis_client \<Rightarrow> string \<Rightarrow> ('rd, unit) store_act" where
  "SessionStore_Delete R token =
     bindE (redisDo ''delete session'' (\<lambda>now. rc_Del R now (sessionKeyPrefix @ token))) (\<lambda>_. ret ())"

section \<open>guest.go\<close>

definition guestKeyPrefix :: string where
  "guestKeyPrefix = ''guest:''"

definition GuestStore_Create ::
  "'rd redis_client \<Rightarrow> uuid_lib \<Rightarrow> duration \<Rightarrow> uuid \<Rightarrow> ('rd, string) store_act" where
  "GuestStore_Create R L ttl userID =
     bindE newToken (\<lambda>token.
     bindE (redisDo ''set guest''
              (\<lambda>now. rc_Set R now (guestKeyPrefix @ token) (RStr (uuid_String L userID)) ttl)) (\<lambda>_.
     ret token))"

definition GuestStore_Get :: "'rd redis_client \<Rightarrow> uuid_lib \<Rightarrow> string \<Rightarrow> ('rd, uuid) store_act" where
  "GuestStore_Get R L token =
     bindE (redisFetch ErrGuestNotFound ''get guest''
              (\<lambda>now. rc_Get R now (guestKeyPrefix @ token))) (\<lambda>raw.
     case parse_owner L raw of
       None \<Rightarrow> failE (Wrapped ''parse guest user id'' OtherCause)
     | Some u \<Rightarrow> ret u)"

definition GuestStore_Delete :: "'rd redis_client \<Rightarrow> string \<Rightarrow> ('rd, unit) store_act" where
  "GuestStore_Delete R token =
     bindE (redisDo ''delete guest'' (\<lambda>now. rc_Del R now (guestKeyPrefix @ token))) (\<lambda>_. ret ())"

section \<open>challenge.go\<close>

definition challengeKeyPrefix :: string where
  "challengeKeyPrefix = ''challenge:''"

definition ChallengeStore_Save ::
  "'rd redis_client \<Rightarrow> duration \<Rightarrow> string \<Rightarrow> json \<Rightarrow> ('rd, unit) store_act" where
  "ChallengeStore_Save R ttl sessionID payload =
     redisDo ''save challenge'' (\<lambda>now. rc_Set R now (challengeKeyPrefix @ sessionID) (RDoc payload) ttl)"

definition ChallengeStore_Take :: "'rd redis_client \<Rightarrow> string \<Rightarrow> ('rd, rval) store_act" where
  "ChallengeStore_Take R sessionID =
     redisFetch ErrChallengeNotFound ''take challenge''
       (\<lambda>now. rc_GetDel R now (challengeKeyPrefix @ sessionID))"

lemmas redis_store_defs =
  SessionStore_Create_def SessionStore_Get_def SessionStore_Delete_def
  GuestStore_Create_def GuestStore_Get_def GuestStore_Delete_def
  ChallengeStore_Save_def ChallengeStore_Take_def

section \<open>Frames\<close>

lemma keeps_newToken [keeps_rules]: "(\<And>w k. f (w\<lparr>w_epos := k\<rparr>) = f w) \<Longrightarrow> keeps f newToken"
  unfolding newToken_def by (intro keeps_rules)

lemma keeps_redisE [keeps_rules]: "(\<And>w k. f (w\<lparr>w_rd := k\<rparr>) = f w) \<Longrightarrow> keeps f (redisE c)"
  by (simp add: keeps_def redisE_def split: prod.split)

lemma keeps_reply [keeps_rules]:
  "keeps f a \<Longrightarrow> keeps f b \<Longrightarrow> (\<And>x. keeps f (c x)) \<Longrightarrow>
   keeps f (case r of RNil \<Rightarrow> a | RErr \<Rightarrow> b | ROk x \<Rightarrow> c x)"
  by (cases r) auto

lemma keeps_redisDo [keeps_rules]: "(\<And>w k. f (w\<lparr>w_rd := k\<rparr>) = f w) \<Longrightarrow> keeps f (redisDo what c)"
  unfolding redisDo_def by (intro keeps_rules)

lemma keeps_redisFetch [keeps_rules]: "(\<And>w k. f (w\<lparr>w_rd := k\<rparr>) = f w) \<Longrightarrow> keeps f (redisFetch m what c)"
  unfolding redisFetch_def by (intro keeps_rules)

lemma keeps_redis_stores [keeps_rules]:
  assumes "\<And>w k. f (w\<lparr>w_rd := k\<rparr>) = f w"
  shows "keeps f (SessionStore_Get R L t)" and "keeps f (SessionStore_Delete R t)"
    and "keeps f (GuestStore_Get R L t)" and "keeps f (GuestStore_Delete R t)"
    and "keeps f (ChallengeStore_Save R ttl i p)" and "keeps f (ChallengeStore_Take R i)"
  unfolding redis_store_defs by (intro keeps_rules assms)+

lemma keeps_redis_creates [keeps_rules]:
  assumes "\<And>w k. f (w\<lparr>w_rd := k\<rparr>) = f w" and "\<And>w k. f (w\<lparr>w_epos := k\<rparr>) = f w"
  shows "keeps f (SessionStore_Create R L ttl u)" and "keeps f (GuestStore_Create R L ttl u)"
  unfolding redis_store_defs by (intro keeps_rules assms)+

section \<open>Tokens\<close>

lemma newToken_Inr:
  assumes "newToken w = (Inr t, w')"
  obtains bs where "length bs = 32" and "t = EncodeToString bs"
    and "map Some bs = map (w_entropy w) [w_epos w ..< w_epos w + 32]" and "w' = w\<lparr>w_epos := w_epos w + 32\<rparr>"
proof -
  obtain bs where bs: "rand_Read 32 w = (Inr bs, w')" "t = EncodeToString bs"
    using assms by (auto simp: newToken_def act_defs split: prod.splits sum.splits)
  moreover have "w' = w\<lparr>w_epos := w_epos w + 32\<rparr>"
    using rand_Read_state [of 32 w] bs(1) by simp
  ultimately show thesis
    using that length_rand_Read [OF bs(1)] rand_Read_Inr [OF bs(1)] by blast
qed

lemma newToken_ok:
  assumes "entropy_ok w"
  obtains tok where "newToken w = (Inr tok, w\<lparr>w_epos := w_epos w + 32\<rparr>)"
proof -
  obtain bs where "rand_Read 32 w = (Inr bs, w\<lparr>w_epos := w_epos w + 32\<rparr>)"
    using rand_Read_ok [OF assms] by blast
  then show thesis
    using that by (simp add: newToken_def act_defs)
qed

section \<open>What the commands report\<close>

lemma redisE_eq: "redisE f w = (Inr r, w') \<longleftrightarrow> (\<exists>s. f (w_now w) (w_rd w) = (r, s) \<and> w' = w\<lparr>w_rd := s\<rparr>)"
  by (auto simp: redisE_def split: prod.splits)

lemma redisDo_Inr:
  "redisDo what f w = (Inr a, w') \<longleftrightarrow>
     (\<exists>s. f (w_now w) (w_rd w) = (ROk a, s) \<and> w' = w\<lparr>w_rd := s\<rparr>)"
  by (auto simp: redisDo_def bindE_def redisE_def ret_def failE_def split: prod.splits reply.splits)

lemma redisDo_state:
  "redisDo what f w = (r, w') \<Longrightarrow> \<exists>x s. f (w_now w) (w_rd w) = (x, s) \<and> w' = w\<lparr>w_rd := s\<rparr>"
  by (auto simp: redisDo_def bindE_def redisE_def ret_def failE_def split: prod.splits reply.splits)

lemma redisFetch_Inr:
  "redisFetch m what f w = (Inr a, w') \<longleftrightarrow>
     (\<exists>s. f (w_now w) (w_rd w) = (ROk a, s) \<and> w' = w\<lparr>w_rd := s\<rparr>)"
  by (auto simp: redisFetch_def bindE_def redisE_def ret_def failE_def split: prod.splits reply.splits)

lemma redisFetch_Inl:
  "redisFetch m what f w = (Inl e, w') \<Longrightarrow>
     \<exists>s. w' = w\<lparr>w_rd := s\<rparr> \<and> (f (w_now w) (w_rd w) = (RNil, s) \<and> e = m
         \<or> f (w_now w) (w_rd w) = (RErr, s) \<and> e = Wrapped what RedisCause)"
  by (auto simp: redisFetch_def bindE_def redisE_def ret_def failE_def split: prod.splits reply.splits)

lemma redisFetch_state:
  "redisFetch m what f w = (r, w') \<Longrightarrow> \<exists>x s. f (w_now w) (w_rd w) = (x, s) \<and> w' = w\<lparr>w_rd := s\<rparr>"
  by (cases r) (auto simp: redisFetch_Inr dest!: redisFetch_Inl)

section \<open>The contract of a token store\<close>

text \<open>
  \<open>owner t w token\<close> is the user to whom the token belongs at time \<open>t\<close> if nothing more
  happens to the state \<open>w\<close>. The clients of a token store (the session middleware, the
  guest endpoints) rely on no more than this.
\<close>

locale token_store =
  fixes create :: "uuid \<Rightarrow> ('w, err, string) act"
    and get :: "string \<Rightarrow> ('w, err, uuid) act"
    and delete :: "string \<Rightarrow> ('w, err, unit) act"
    and owner :: "time \<Rightarrow> 'w \<Rightarrow> string \<Rightarrow> uuid option"
    and now :: "'w \<Rightarrow> time"
    and ttl :: duration
    and missing :: err
  assumes create_ok: "create u w = (Inr tok, w') \<Longrightarrow> now w \<le> t \<Longrightarrow> 0 < ttl \<Longrightarrow>
      owner t w' = (owner t w)(tok := if t < now w + ttl then Some u else None)"
    and get_value: "get tok w = (Inr u, w') \<Longrightarrow> owner (now w) w tok = Some u"
    and get_missing: "get tok w = (Inl missing, w') \<Longrightarrow> owner (now w) w tok = None"
    and get_frame: "get tok w = (r, w') \<Longrightarrow> now w \<le> t \<Longrightarrow> owner t w' = owner t w"
    and delete_ok: "delete tok w = (Inr (), w') \<Longrightarrow> now w \<le> t \<Longrightarrow> owner t w' = (owner t w)(tok := None)"
begin

text \<open>A token resolves to the user it was created for, as long as its time has not passed.\<close>

lemma get_after_create:
  assumes "create u w = (Inr tok, w1)" and "now w \<le> now w2" and "owner (now w2) w2 tok = owner (now w2) w1 tok"
    and "get tok w2 = (r, w3)" and "0 < ttl"
  shows "r = Inr v \<Longrightarrow> v = u \<and> now w2 < now w + ttl"
    and "r = Inl missing \<Longrightarrow> now w + ttl \<le> now w2"
  using create_ok [OF assms(1,2,5)] get_value get_missing assms(3,4) by (auto split: if_splits)

text \<open>A deleted token does not resolve.\<close>

lemma get_after_delete:
  assumes "delete tok w = (Inr (), w1)" and "now w \<le> now w2" and "owner (now w2) w2 tok = owner (now w2) w1 tok"
  shows "get tok w2 \<noteq> (Inr u, w3)"
  using delete_ok [OF assms(1,2)] get_value assms(3) by auto

end

section \<open>The stores over a Redis service\<close>

definition token_owner ::
  "(time \<Rightarrow> 'rd \<Rightarrow> string \<Rightarrow> rval option) \<Rightarrow> uuid_lib \<Rightarrow> string \<Rightarrow> time \<Rightarrow> 'rd world \<Rightarrow> string \<Rightarrow> uuid option" where
  "token_owner H L prefix t w tok = Option.bind (H t (w_rd w) (prefix @ tok)) (parse_owner L)"

definition session_owner ::
  "(time \<Rightarrow> 'rd \<Rightarrow> string \<Rightarrow> rval option) \<Rightarrow> uuid_lib \<Rightarrow> time \<Rightarrow> 'rd world \<Rightarrow> string \<Rightarrow> uuid option" where
  "session_owner H L = token_owner H L sessionKeyPrefix"

definition guest_owner ::
  "(time \<Rightarrow> 'rd \<Rightarrow> string \<Rightarrow> rval option) \<Rightarrow> uuid_lib \<Rightarrow> time \<Rightarrow> 'rd world \<Rightarrow> string \<Rightarrow> uuid option" where
  "guest_owner H L = token_owner H L guestKeyPrefix"

definition challenge_at ::
  "(time \<Rightarrow> 'rd \<Rightarrow> string \<Rightarrow> rval option) \<Rightarrow> time \<Rightarrow> 'rd world \<Rightarrow> string \<Rightarrow> rval option" where
  "challenge_at H t w i = H t (w_rd w) (challengeKeyPrefix @ i)"

text \<open>No key of one store is a key of another, whatever the tokens are.\<close>

lemma prefixes_disjoint [simp]:
  "sessionKeyPrefix @ a \<noteq> guestKeyPrefix @ b" "guestKeyPrefix @ b \<noteq> sessionKeyPrefix @ a"
  "sessionKeyPrefix @ a \<noteq> challengeKeyPrefix @ b" "challengeKeyPrefix @ b \<noteq> sessionKeyPrefix @ a"
  "guestKeyPrefix @ a \<noteq> challengeKeyPrefix @ b" "challengeKeyPrefix @ b \<noteq> guestKeyPrefix @ a"
  by (simp_all add: sessionKeyPrefix_def guestKeyPrefix_def challengeKeyPrefix_def)

locale redis_stores = redis_service R holds_at
  for R :: "'rd redis_client" and holds_at :: "time \<Rightarrow> 'rd \<Rightarrow> string \<Rightarrow> rval option" +
  fixes L :: uuid_lib
  assumes uuids: "uuid_lib_ok L"
begin

lemma parse_String [simp]: "parse_owner L (RStr (uuid_String L u)) = Some u"
  using uuids by (simp add: parse_owner_def uuid_lib_ok_def)

lemma token_set:
  assumes "rc_Set R (w_now w) (p @ tok) (RStr (uuid_String L u)) ttl (w_rd w) = (ROk x, s)" and "w_now w \<le> t"
    and "0 < ttl"
  shows "token_owner holds_at L p t (w\<lparr>w_epos := k, w_rd := s\<rparr>) =
    (token_owner holds_at L p t w)(tok := if t < w_now w + ttl then Some u else None)"
  using set_ok [OF assms] by (auto simp: token_owner_def fun_eq_iff)

lemma token_del:
  assumes "rc_Del R (w_now w) (p @ tok) (w_rd w) = (ROk x, s)" and "w_now w \<le> t"
  shows "token_owner holds_at L p t (w\<lparr>w_rd := s\<rparr>) = (token_owner holds_at L p t w)(tok := None)"
  using del_ok [OF assms] by (auto simp: token_owner_def fun_eq_iff)

text \<open>The common shape of the two \<open>Get\<close> methods.\<close>

lemma token_get:
  assumes "bindE (redisFetch m what (\<lambda>now. rc_Get R now (p @ tok))) (\<lambda>raw.
      case parse_owner L raw of None \<Rightarrow> failE (Wrapped x c) | Some u \<Rightarrow> ret u) w = (r, w')"
  shows "r = Inr u \<Longrightarrow> token_owner holds_at L p (w_now w) w tok = Some u"
    and "r = Inl m \<Longrightarrow> m \<noteq> Wrapped x c \<Longrightarrow> m \<noteq> Wrapped what RedisCause \<Longrightarrow>
      token_owner holds_at L p (w_now w) w tok = None"
    and "w_now w \<le> t \<Longrightarrow> token_owner holds_at L p t w' = token_owner holds_at L p t w"
proof -
  obtain r1 w1 where f: "redisFetch m what (\<lambda>now. rc_Get R now (p @ tok)) w = (r1, w1)"
    by (cases "redisFetch m what (\<lambda>now. rc_Get R now (p @ tok)) w")
  have w': "w' = w1"
    using assms f by (auto simp: bindE_def failE_def ret_def split: sum.splits option.splits)
  show "w_now w \<le> t \<Longrightarrow> token_owner holds_at L p t w' = token_owner holds_at L p t w"
    using redisFetch_state [OF f] w' by (auto simp: token_owner_def fun_eq_iff dest: get_frame)
  show "r = Inr u \<Longrightarrow> token_owner holds_at L p (w_now w) w tok = Some u"
    and "r = Inl m \<Longrightarrow> m \<noteq> Wrapped x c \<Longrightarrow> m \<noteq> Wrapped what RedisCause \<Longrightarrow>
      token_owner holds_at L p (w_now w) w tok = None"
    using assms f
    by (auto simp: bindE_def failE_def ret_def token_owner_def redisFetch_Inr
        split: sum.splits option.splits dest!: redisFetch_Inl get_ok get_nil)
qed

text \<open>The common shape of the two \<open>Create\<close> methods.\<close>

lemma token_create:
  assumes "bindE newToken (\<lambda>token. bindE (redisDo what (\<lambda>now. rc_Set R now (p @ token)
      (RStr (uuid_String L u)) ttl)) (\<lambda>_. ret token)) w = (Inr tok, w')" and "w_now w \<le> t" and "0 < ttl"
  shows "token_owner holds_at L p t w' =
    (token_owner holds_at L p t w)(tok := if t < w_now w + ttl then Some u else None)"
proof -
  obtain w1 where tok: "newToken w = (Inr tok, w1)"
    and set: "redisDo what (\<lambda>now. rc_Set R now (p @ tok) (RStr (uuid_String L u)) ttl) w1 = (Inr (), w')"
    using assms(1) by (auto simp: ret_def elim!: bindE_InrE)
  from tok obtain k where "w1 = w\<lparr>w_epos := k\<rparr>" by (rule newToken_Inr) blast
  then show ?thesis
    using set token_set [of w p tok u ttl "()" _ t] assms(2,3) by (auto simp: redisDo_Inr)
qed

lemma token_delete:
  assumes "bindE (redisDo what (\<lambda>now. rc_Del R now (p @ tok))) (\<lambda>_. ret ()) w = (Inr (), w')" and "w_now w \<le> t"
  shows "token_owner holds_at L p t w' = (token_owner holds_at L p t w)(tok := None)"
  using assms token_del [of w p tok] by (auto simp: ret_def redisDo_Inr elim!: bindE_InrE)

end

sublocale redis_stores \<subseteq> sess: token_store "SessionStore_Create R L ttl" "SessionStore_Get R L"
  "SessionStore_Delete R" "session_owner holds_at L" w_now ttl ErrSessionNotFound
  for ttl
  by unfold_locales
     (auto simp: session_owner_def SessionStore_Create_def SessionStore_Get_def SessionStore_Delete_def
        dest: token_create token_get token_delete)

sublocale redis_stores \<subseteq> guest: token_store "GuestStore_Create R L ttl" "GuestStore_Get R L"
  "GuestStore_Delete R" "guest_owner holds_at L" w_now ttl ErrGuestNotFound
  for ttl
  by unfold_locales
     (auto simp: guest_owner_def GuestStore_Create_def GuestStore_Get_def GuestStore_Delete_def
        dest: token_create token_get token_delete)

context redis_stores begin

text \<open>
  The methods of one store leave every key outside their own namespace alone, at every
  later time, whether they succeed or fail.
\<close>

lemma redisDo_Set_other:
  "redisDo what (\<lambda>now. rc_Set R now k v ttl) w = (r, w') \<Longrightarrow> w_now w \<le> t \<Longrightarrow> k' \<noteq> k \<Longrightarrow>
   holds_at t (w_rd w') k' = holds_at t (w_rd w) k'"
  by (auto dest!: redisDo_state intro: set_other)

lemma redisDo_Del_other:
  "redisDo what (\<lambda>now. rc_Del R now k) w = (r, w') \<Longrightarrow> w_now w \<le> t \<Longrightarrow> k' \<noteq> k \<Longrightarrow>
   holds_at t (w_rd w') k' = holds_at t (w_rd w) k'"
  by (auto dest!: redisDo_state intro: del_other)

lemma Take_other:
  "ChallengeStore_Take R i w = (r, w') \<Longrightarrow> w_now w \<le> t \<Longrightarrow> k' \<noteq> challengeKeyPrefix @ i \<Longrightarrow>
   holds_at t (w_rd w') k' = holds_at t (w_rd w) k'"
  by (auto simp: ChallengeStore_Take_def dest!: redisFetch_state intro: getdel_other)

lemma Save_other:
  "ChallengeStore_Save R ttl i p w = (r, w') \<Longrightarrow> w_now w \<le> t \<Longrightarrow> k' \<noteq> challengeKeyPrefix @ i \<Longrightarrow>
   holds_at t (w_rd w') k' = holds_at t (w_rd w) k'"
  by (auto simp: ChallengeStore_Save_def dest: redisDo_Set_other)

lemma Delete_other:
  "SessionStore_Delete R tok w = (r, w') \<Longrightarrow> w_now w \<le> t \<Longrightarrow> k' \<noteq> sessionKeyPrefix @ tok \<Longrightarrow>
   holds_at t (w_rd w') k' = holds_at t (w_rd w) k'"
  "GuestStore_Delete R tok w = (r, w') \<Longrightarrow> w_now w \<le> t \<Longrightarrow> k' \<noteq> guestKeyPrefix @ tok \<Longrightarrow>
   holds_at t (w_rd w') k' = holds_at t (w_rd w) k'"
  unfolding SessionStore_Delete_def GuestStore_Delete_def
  by (auto simp: bindE_def ret_def dest: redisDo_Del_other split: prod.splits sum.splits)

lemma token_create_other:
  assumes "bindE newToken (\<lambda>token. bindE (redisDo what (\<lambda>now. rc_Set R now (p @ token)
      (RStr (uuid_String L u)) ttl)) (\<lambda>_. ret token)) w = (r, w')"
    and "w_now w \<le> t" and "\<And>tok. k' \<noteq> p @ tok"
  shows "holds_at t (w_rd w') k' = holds_at t (w_rd w) k'"
proof -
  obtain r1 w1 where tok: "newToken w = (r1, w1)" by (cases "newToken w")
  have same: "w_rd w1 = w_rd w" "w_now w1 = w_now w"
    using keepsD [OF keeps_newToken tok, of w_rd] keepsD [OF keeps_newToken tok, of w_now] by simp_all
  show ?thesis
  proof (cases r1)
    case (Inl e)
    with assms(1) tok same show ?thesis by (simp add: bindE_def)
  next
    case (Inr token)
    obtain r2 w2 where set:
      "redisDo what (\<lambda>now. rc_Set R now (p @ token) (RStr (uuid_String L u)) ttl) w1 = (r2, w2)"
      by (cases "redisDo what (\<lambda>now. rc_Set R now (p @ token) (RStr (uuid_String L u)) ttl) w1")
    have "w' = w2"
      using assms(1) tok Inr set by (auto simp: bindE_def ret_def split: sum.splits)
    then show ?thesis
      using redisDo_Set_other [OF set, of t k'] assms(2,3) same by simp
  qed
qed

lemma Create_other:
  "SessionStore_Create R L ttl u w = (r, w') \<Longrightarrow> w_now w \<le> t \<Longrightarrow> (\<And>tok. k' \<noteq> sessionKeyPrefix @ tok) \<Longrightarrow>
   holds_at t (w_rd w') k' = holds_at t (w_rd w) k'"
  "GuestStore_Create R L ttl u w = (r, w') \<Longrightarrow> w_now w \<le> t \<Longrightarrow> (\<And>tok. k' \<noteq> guestKeyPrefix @ tok) \<Longrightarrow>
   holds_at t (w_rd w') k' = holds_at t (w_rd w) k'"
  unfolding SessionStore_Create_def GuestStore_Create_def by (erule token_create_other; simp)+

lemma Get_same:
  "SessionStore_Get R L tok w = (rs, w') \<Longrightarrow> w_now w \<le> t \<Longrightarrow> holds_at t (w_rd w') = holds_at t (w_rd w)"
  "GuestStore_Get R L tok w = (rs, w') \<Longrightarrow> w_now w \<le> t \<Longrightarrow> holds_at t (w_rd w') = holds_at t (w_rd w)"
  unfolding SessionStore_Get_def GuestStore_Get_def bindE_def
  by (auto simp: failE_def ret_def split: prod.splits sum.splits option.splits dest!: redisFetch_state get_frame)

text \<open>A challenge that was taken, or found missing, is gone for good.\<close>

lemma Take_consumes:
  assumes "ChallengeStore_Take R i w = (r, w')" and "w_now w \<le> t"
    and "r = Inr raw \<or> r = Inl ErrChallengeNotFound"
  shows "challenge_at holds_at t w' i = None"
proof -
  obtain x s where "rc_GetDel R (w_now w) (challengeKeyPrefix @ i) (w_rd w) = (x, s)"
    and "x = ROk raw \<or> x = RNil" and "w' = w\<lparr>w_rd := s\<rparr>"
    using assms(1,3) by (auto simp: ChallengeStore_Take_def redisFetch_Inr dest!: redisFetch_Inl)
  then show ?thesis
    using getdel_ok [of "w_now w"] getdel_nil [of "w_now w"] assms(2)
    by (auto simp: challenge_at_def)
qed

lemma Take_Inr:
  "ChallengeStore_Take R i w = (Inr raw, w') \<Longrightarrow> challenge_at holds_at (w_now w) w i = Some raw"
  by (auto simp: ChallengeStore_Take_def challenge_at_def redisFetch_Inr dest: getdel_ok)

lemma Take_missing:
  "ChallengeStore_Take R i w = (Inl ErrChallengeNotFound, w') \<Longrightarrow> challenge_at holds_at (w_now w) w i = None"
  by (auto simp: ChallengeStore_Take_def challenge_at_def dest!: redisFetch_Inl dest: getdel_nil)

lemma Take_gone:
  assumes "challenge_at holds_at (w_now w) w i = None"
  obtains w' where "ChallengeStore_Take R i w = (Inl ErrChallengeNotFound, w')"
  | w' where "ChallengeStore_Take R i w = (Inl (Wrapped ''take challenge'' RedisCause), w')"
proof (cases "ChallengeStore_Take R i w")
  case (Pair r w')
  then show thesis
    using assms that
    by (cases r) (auto simp: ChallengeStore_Take_def challenge_at_def redisFetch_Inr
        dest!: redisFetch_Inl dest: getdel_ok)
qed

lemma Save_ok:
  "ChallengeStore_Save R ttl i p w = (Inr u, w') \<Longrightarrow> w_now w \<le> t \<Longrightarrow> 0 < ttl \<Longrightarrow>
   challenge_at holds_at t w' i = (if t < w_now w + ttl then Some (RDoc p) else None)"
  by (auto simp: ChallengeStore_Save_def challenge_at_def redisDo_Inr dest!: set_ok)

end

text \<open>
  \<open>gains H P w w'\<close>: what a key holds after the step it held before, or it is one of the
  entries \<open>P\<close>. Every method, successful or not, gains at most the entry it writes.
\<close>

definition gains ::
  "(time \<Rightarrow> 'rd \<Rightarrow> string \<Rightarrow> rval option) \<Rightarrow> (string \<Rightarrow> rval \<Rightarrow> bool) \<Rightarrow> 'rd world \<Rightarrow> 'rd world \<Rightarrow> bool" where
  "gains H P w w' \<longleftrightarrow> (\<forall>t k v. w_now w \<le> t \<longrightarrow> H t (w_rd w') k = Some v \<longrightarrow> H t (w_rd w) k = Some v \<or> P k v)"

lemma gains_same: "(\<And>t. w_now w \<le> t \<Longrightarrow> H t (w_rd w') = H t (w_rd w)) \<Longrightarrow> gains H P w w'"
  by (simp add: gains_def)

context redis_stores begin

lemma redisDo_Set_gains:
  assumes "redisDo what (\<lambda>now. rc_Set R now k v ttl) w = (r, w')"
  shows "gains holds_at (\<lambda>k' v'. k' = k \<and> v' = v) w w'"
  unfolding gains_def
proof (intro allI impI)
  fix t k' v' assume t: "w_now w \<le> t" and now: "holds_at t (w_rd w') k' = Some v'"
  obtain x s where set: "rc_Set R (w_now w) k v ttl (w_rd w) = (x, s)" and "w_rd w' = s"
    using redisDo_state [OF assms] by auto
  then show "holds_at t (w_rd w) k' = Some v' \<or> k' = k \<and> v' = v"
    using now set_any [OF set t] set_other [OF set t] by (cases "k' = k") (auto split: if_splits)
qed

lemma redisDo_Del_gains:
  assumes "redisDo what (\<lambda>now. rc_Del R now k) w = (r, w')"
  shows "gains holds_at (\<lambda>_ _. False) w w'"
  unfolding gains_def
proof (intro allI impI)
  fix t k' v' assume t: "w_now w \<le> t" and now: "holds_at t (w_rd w') k' = Some v'"
  obtain x s where del: "rc_Del R (w_now w) k (w_rd w) = (x, s)" and "w_rd w' = s"
    using redisDo_state [OF assms] by auto
  then show "holds_at t (w_rd w) k' = Some v' \<or> False"
    using now del_any [OF del t] del_other [OF del t] by (cases "k' = k") auto
qed

lemma Take_gains:
  assumes "ChallengeStore_Take R i w = (r, w')"
  shows "gains holds_at (\<lambda>_ _. False) w w'"
  unfolding gains_def
proof (intro allI impI)
  fix t k' v' assume t: "w_now w \<le> t" and now: "holds_at t (w_rd w') k' = Some v'"
  obtain x s where take: "rc_GetDel R (w_now w) (challengeKeyPrefix @ i) (w_rd w) = (x, s)" and "w_rd w' = s"
    using assms by (auto simp: ChallengeStore_Take_def dest!: redisFetch_state)
  then show "holds_at t (w_rd w) k' = Some v' \<or> False"
    using now getdel_any [OF take t] getdel_other [OF take t]
    by (cases "k' = challengeKeyPrefix @ i") auto
qed

lemma token_create_gains:
  assumes "bindE newToken (\<lambda>token. bindE (redisDo what (\<lambda>now. rc_Set R now (p @ token)
      (RStr (uuid_String L u)) ttl)) (\<lambda>_. ret token)) w = (r, w')"
  shows "gains holds_at (\<lambda>k v. (\<exists>tok. k = p @ tok) \<and> v = RStr (uuid_String L u)) w w'"
proof -
  obtain r1 w1 where tok: "newToken w = (r1, w1)" by (cases "newToken w")
  have same: "w_rd w1 = w_rd w" "w_now w1 = w_now w"
    using keepsD [OF keeps_newToken tok, of w_rd] keepsD [OF keeps_newToken tok, of w_now] by simp_all
  show ?thesis
  proof (cases r1)
    case (Inl e)
    with assms tok same show ?thesis by (auto simp: bindE_def gains_def)
  next
    case (Inr token)
    obtain r2 w2 where set:
      "redisDo what (\<lambda>now. rc_Set R now (p @ token) (RStr (uuid_String L u)) ttl) w1 = (r2, w2)"
      by (cases "redisDo what (\<lambda>now. rc_Set R now (p @ token) (RStr (uuid_String L u)) ttl) w1")
    have "w' = w2"
      using assms tok Inr set by (auto simp: bindE_def ret_def split: sum.splits)
    then show ?thesis
      using redisDo_Set_gains [OF set] same by (fastforce simp: gains_def)
  qed
qed

lemma create_gains:
  "SessionStore_Create R L ttl u w = (r1, w') \<Longrightarrow>
     gains holds_at (\<lambda>k v. (\<exists>tok. k = sessionKeyPrefix @ tok) \<and> v = RStr (uuid_String L u)) w w'"
  "GuestStore_Create R L ttl u w = (r1, w') \<Longrightarrow>
     gains holds_at (\<lambda>k v. (\<exists>tok. k = guestKeyPrefix @ tok) \<and> v = RStr (uuid_String L u)) w w'"
  unfolding SessionStore_Create_def GuestStore_Create_def by (rule token_create_gains, assumption)+

lemma store_gains:
  "ChallengeStore_Save R ttl i p w = (r2, w') \<Longrightarrow>
     gains holds_at (\<lambda>k v. k = challengeKeyPrefix @ i \<and> v = RDoc p) w w'"
  "SessionStore_Delete R tok w = (r2, w') \<Longrightarrow> gains holds_at (\<lambda>_ _. False) w w'"
  "GuestStore_Delete R tok w = (r2, w') \<Longrightarrow> gains holds_at (\<lambda>_ _. False) w w'"
  "SessionStore_Get R L tok w = (r3, w') \<Longrightarrow> gains holds_at (\<lambda>_ _. False) w w'"
  "GuestStore_Get R L tok w = (r3, w') \<Longrightarrow> gains holds_at (\<lambda>_ _. False) w w'"
  unfolding ChallengeStore_Save_def SessionStore_Delete_def GuestStore_Delete_def
  by (auto simp: bindE_def ret_def dest: redisDo_Set_gains redisDo_Del_gains Get_same
      intro: gains_same split: prod.splits sum.splits)

end

context redis_stores begin

lemmas session_create = sess.create_ok and guest_create = guest.create_ok
lemmas session_get = sess.get_value sess.get_missing sess.get_frame
lemmas guest_get = guest.get_value guest.get_missing guest.get_frame
lemmas session_delete = sess.delete_ok and guest_delete = guest.delete_ok
lemmas session_get_after_create = sess.get_after_create
lemmas session_get_after_delete = sess.get_after_delete
lemmas guest_get_after_create = guest.get_after_create
lemmas guest_get_after_delete = guest.get_after_delete

end

interpretation server_stores: redis_stores map_server rs_holds_at raw_uuid_lib
  by unfold_locales (rule raw_uuid_lib_ok)

section \<open>Properties\<close>

text \<open>
  A challenge is one-shot. Once \<open>Take\<close> has returned the payload of a session id (or
  reported it missing), every later \<open>Take\<close> of the same id, at any time and as long as no
  new payload is saved under it, reports \<open>ErrChallengeNotFound\<close> or a Redis failure and
  never a payload.
\<close>

lemma Take_one_shot:
  assumes "redis_stores R H L" and "ChallengeStore_Take R i w = (r, w1)"
    and "r = Inr raw \<or> r = Inl ErrChallengeNotFound" and "w_now w \<le> w_now w2" and "w_rd w2 = w_rd w1"
  shows "fst (ChallengeStore_Take R i w2) \<in>
    {Inl ErrChallengeNotFound, Inl (Wrapped ''take challenge'' RedisCause)}"
proof -
  have "challenge_at H (w_now w2) w2 i = None"
    using redis_stores.Take_consumes [OF assms(1,2,4,3)] assms(5) by (simp add: challenge_at_def)
  then show ?thesis
    by (rule redis_stores.Take_gone [OF assms(1)]) simp_all
qed

definition saved_challenge :: "rserver world" where
  "saved_challenge = snd (ChallengeStore_Save map_server 300 ''id'' JNull (start_world empty_server))"

lemma saved_challenge_Take:
  "\<exists>w1. ChallengeStore_Take map_server ''id'' saved_challenge = (Inr (RDoc JNull), w1)"
  by (simp add: saved_challenge_def ChallengeStore_Save_def ChallengeStore_Take_def redisDo_def
      redisFetch_def redisE_def bindE_def ret_def map_server_def rs_command_def rs_next_def
      empty_server_def rs_put_def rs_lookup_def rs_holds_at_def)

lemma Take_one_shot_example:
  "\<exists>w1. ChallengeStore_Take map_server ''id'' saved_challenge = (Inr (RDoc JNull), w1)
    \<and> fst (ChallengeStore_Take map_server ''id'' w1) \<in>
        {Inl ErrChallengeNotFound, Inl (Wrapped ''take challenge'' RedisCause)}"
proof -
  obtain w1 where take: "ChallengeStore_Take map_server ''id'' saved_challenge = (Inr (RDoc JNull), w1)"
    using saved_challenge_Take by blast
  have "w_now saved_challenge \<le> w_now w1"
    using keepsD [OF keeps_redis_stores(6) take, of w_now] by simp
  then show ?thesis
    using Take_one_shot [OF server_stores.redis_stores_axioms take, of "RDoc JNull" w1] take by simp
qed

text \<open>
  What \<open>Save\<close> stored is what \<open>Take\<close> returns until the time to live has passed, and
  not afterwards: \<open>Take\<close> answers with that payload only before the expiry, and with
  \<open>ErrChallengeNotFound\<close> only from the expiry on.
  The time to live is positive.
\<close>

lemma Save_then_Take:
  assumes "redis_stores R H L" and "ChallengeStore_Save R ttl i p w = (Inr u, w1)"
    and "w_now w \<le> w_now w2" and "w_rd w2 = w_rd w1" and "ChallengeStore_Take R i w2 = (r, w3)"
    and "0 < ttl"
  shows "(r = Inr raw \<longrightarrow> raw = RDoc p \<and> w_now w2 < w_now w + ttl)
    \<and> (r = Inl ErrChallengeNotFound \<longrightarrow> w_now w + ttl \<le> w_now w2)"
proof -
  have "challenge_at H (w_now w2) w2 i = (if w_now w2 < w_now w + ttl then Some (RDoc p) else None)"
    using redis_stores.Save_ok [OF assms(1,2,3,6)] assms(4) by (simp add: challenge_at_def)
  then show ?thesis
    using redis_stores.Take_Inr [OF assms(1)] redis_stores.Take_missing [OF assms(1)] assms(5)
    by (auto split: if_splits)
qed

lemma Save_then_Take_example:
  "\<exists>w1 w3. ChallengeStore_Save map_server 300 ''id'' JNull (start_world empty_server) = (Inr (), w1)
    \<and> ChallengeStore_Take map_server ''id'' w1 = (Inr (RDoc JNull), w3) \<and> w_now w1 < 300"
proof -
  obtain w1 where save:
    "ChallengeStore_Save map_server 300 ''id'' JNull (start_world empty_server) = (Inr (), w1)"
    by (simp add: ChallengeStore_Save_def redisDo_def redisE_def bindE_def ret_def map_server_def
        rs_command_def rs_next_def empty_server_def)
  then have w1: "w1 = saved_challenge" by (simp add: saved_challenge_def)
  then obtain w3 where take: "ChallengeStore_Take map_server ''id'' w1 = (Inr (RDoc JNull), w3)"
    using saved_challenge_Take by blast
  have "w_now w1 = 0"
    using keepsD [OF keeps_redis_stores(5) save, of w_now] by simp
  then show ?thesis
    using Save_then_Take [OF server_stores.redis_stores_axioms save _ refl take, of "RDoc JNull"] save take
    by simp
qed

text \<open>
  A session token that \<open>Create\<close> issued resolves to the user it was issued for, and to
  nobody else, until its time to live has passed; \<open>ErrSessionNotFound\<close> is reported only
  from the expiry on.
  The time to live is positive.
\<close>

lemma session_resolves:
  assumes "redis_stores R H L" and "SessionStore_Create R L ttl u w = (Inr tok, w1)"
    and "w_now w \<le> w_now w2" and "w_rd w2 = w_rd w1" and "SessionStore_Get R L tok w2 = (r, w3)"
    and "0 < ttl"
  shows "(r = Inr v \<longrightarrow> v = u \<and> w_now w2 < w_now w + ttl)
    \<and> (r = Inl ErrSessionNotFound \<longrightarrow> w_now w + ttl \<le> w_now w2)"
proof -
  have same: "session_owner H L (w_now w2) w2 tok = session_owner H L (w_now w2) w1 tok"
    using assms(4) by (simp add: session_owner_def token_owner_def)
  show ?thesis
    using redis_stores.session_get_after_create [OF assms(1,2,3) same assms(5,6)] by blast
qed

text \<open>On the map server with nothing scripted, the token stores always succeed.\<close>

lemma server_Create:
  assumes "entropy_ok w" and "rs_script (w_rd w) = []"
  obtains tok where "SessionStore_Create map_server L ttl u w = (Inr tok,
      w\<lparr>w_epos := w_epos w + 32, w_rd := rs_put (sessionKeyPrefix @ tok) (RStr (uuid_String L u)) (w_now w + ttl) (w_rd w)\<rparr>)"
    and "GuestStore_Create map_server L ttl u w = (Inr tok,
      w\<lparr>w_epos := w_epos w + 32, w_rd := rs_put (guestKeyPrefix @ tok) (RStr (uuid_String L u)) (w_now w + ttl) (w_rd w)\<rparr>)"
proof -
  obtain tok where tok: "newToken w = (Inr tok, w\<lparr>w_epos := w_epos w + 32\<rparr>)"
    using newToken_ok [OF assms(1)] by blast
  show thesis
    using that [of tok] tok assms(2)
    by (simp add: SessionStore_Create_def GuestStore_Create_def bindE_def ret_def redisDo_def redisE_def
        map_server_def rs_command_def rs_next_def)
qed

lemma server_Get:
  assumes "rs_script (w_rd w) = []"
  shows "SessionStore_Get map_server L tok w =
      (case rs_holds_at (w_now w) (w_rd w) (sessionKeyPrefix @ tok) of
         None \<Rightarrow> (Inl ErrSessionNotFound, w)
       | Some raw \<Rightarrow> (case parse_owner L raw of
           None \<Rightarrow> (Inl (Wrapped ''parse session user id'' OtherCause), w) | Some u \<Rightarrow> (Inr u, w)))"
    and "GuestStore_Get map_server L tok w =
      (case rs_holds_at (w_now w) (w_rd w) (guestKeyPrefix @ tok) of
         None \<Rightarrow> (Inl ErrGuestNotFound, w)
       | Some raw \<Rightarrow> (case parse_owner L raw of
           None \<Rightarrow> (Inl (Wrapped ''parse guest user id'' OtherCause), w) | Some u \<Rightarrow> (Inr u, w)))"
  using assms
  by (simp_all add: SessionStore_Get_def GuestStore_Get_def bindE_def ret_def failE_def redisFetch_def redisE_def
      map_server_def rs_command_def rs_next_def rs_lookup_def split: option.split)

lemma server_Delete:
  assumes "rs_script (w_rd w) = []"
  shows "SessionStore_Delete map_server tok w = (Inr (), w\<lparr>w_rd := rs_remove (sessionKeyPrefix @ tok) (w_rd w)\<rparr>)"
    and "GuestStore_Delete map_server tok w = (Inr (), w\<lparr>w_rd := rs_remove (guestKeyPrefix @ tok) (w_rd w)\<rparr>)"
  using assms
  by (simp_all add: SessionStore_Delete_def GuestStore_Delete_def bindE_def ret_def redisDo_def redisE_def
      map_server_def rs_command_def rs_next_def)

lemma session_resolves_example:
  "\<exists>tok w1 w3. SessionStore_Create map_server raw_uuid_lib 100 (UUID [9]) (start_world empty_server) = (Inr tok, w1)
    \<and> SessionStore_Get map_server raw_uuid_lib tok w1 = (Inr (UUID [9]), w3) \<and> w_now w1 < 100"
proof -
  obtain tok where c: "SessionStore_Create map_server raw_uuid_lib 100 (UUID [9]) (start_world empty_server) =
      (Inr tok, (start_world empty_server)\<lparr>w_epos := 32, w_rd := rs_put (sessionKeyPrefix @ tok)
        (RStr (uuid_String raw_uuid_lib (UUID [9]))) 100 empty_server\<rparr>)"
    using server_Create [of "start_world empty_server" raw_uuid_lib 100 "UUID [9]"]
    by (auto simp: empty_server_def)
  let ?w1 = "(start_world empty_server)\<lparr>w_epos := 32, w_rd := rs_put (sessionKeyPrefix @ tok)
        (RStr (uuid_String raw_uuid_lib (UUID [9]))) 100 empty_server\<rparr>"
  have g: "SessionStore_Get map_server raw_uuid_lib tok ?w1 = (Inr (UUID [9]), ?w1)"
    by (simp add: server_Get rs_put_def [of "sessionKeyPrefix @ tok"] empty_server_def rs_holds_at_def
        server_stores.parse_String)
  show ?thesis
    using session_resolves [OF server_stores.redis_stores_axioms c _ refl g, of "UUID [9]"] c g by auto
qed

text \<open>
  Logout revokes. After a successful \<open>Delete\<close> of a session token, \<open>Get\<close> never
  resolves it again, at any later time, as long as Redis is not written.
\<close>

lemma session_revoked:
  assumes "redis_stores R H L" and "SessionStore_Delete R tok w = (Inr (), w1)"
    and "w_now w \<le> w_now w2" and "w_rd w2 = w_rd w1"
  shows "\<forall>u w3. SessionStore_Get R L tok w2 \<noteq> (Inr u, w3)"
proof -
  have "session_owner H L (w_now w2) w2 tok = session_owner H L (w_now w2) w1 tok"
    using assms(4) by (simp add: session_owner_def token_owner_def)
  then show ?thesis
    using redis_stores.session_get_after_delete [OF assms(1,2,3)] by blast
qed

lemma session_revoked_example:
  "\<forall>u w3. SessionStore_Get map_server raw_uuid_lib ''t''
     (snd (SessionStore_Delete map_server ''t'' (start_world empty_server))) \<noteq> (Inr u, w3)"
proof -
  have d: "SessionStore_Delete map_server ''t'' (start_world empty_server) =
     (Inr (), snd (SessionStore_Delete map_server ''t'' (start_world empty_server)))"
    by (simp add: server_Delete empty_server_def)
  show ?thesis
    by (rule session_revoked [OF server_stores.redis_stores_axioms d])
       (simp_all add: server_Delete empty_server_def)
qed

text \<open>
  Guest tokens, session tokens and challenges do not mix. Whatever a client presents,
  no method of the guest store or of the challenge store, successful or not, changes what
  any token resolves to in the session store, now or later; and a guest token that
  \<open>Create\<close> issues is a session token only if it already was one.
\<close>

lemma namespaces_do_not_mix:
  assumes "redis_stores R H L" and "w_now w \<le> t"
  shows "session_owner H L t (snd (GuestStore_Create R L ttl u w)) = session_owner H L t w
    \<and> session_owner H L t (snd (GuestStore_Get R L tok w)) = session_owner H L t w
    \<and> session_owner H L t (snd (GuestStore_Delete R tok w)) = session_owner H L t w
    \<and> session_owner H L t (snd (ChallengeStore_Save R ttl i p w)) = session_owner H L t w
    \<and> session_owner H L t (snd (ChallengeStore_Take R i w)) = session_owner H L t w"
  unfolding session_owner_def token_owner_def fun_eq_iff
  by (simp add: redis_stores.Get_same [OF assms(1) surjective_pairing assms(2)]
        redis_stores.Create_other(2) [OF assms(1) surjective_pairing assms(2)]
        redis_stores.Delete_other(2) [OF assms(1) surjective_pairing assms(2)]
        redis_stores.Save_other [OF assms(1) surjective_pairing assms(2)]
        redis_stores.Take_other [OF assms(1) surjective_pairing assms(2)])

lemma namespaces_do_not_mix_example:
  "session_owner rs_holds_at raw_uuid_lib 5
     (snd (GuestStore_Delete map_server ''t'' (start_world empty_server))) =
   session_owner rs_holds_at raw_uuid_lib 5 (start_world empty_server)"
  using namespaces_do_not_mix [OF server_stores.redis_stores_axioms, of "start_world empty_server" 5]
  by simp

text \<open>
  C27: a token is 43 URL-safe characters that carry all 32 random bytes: two calls return the
  same token only if \<open>crypto/rand\<close> delivered the same 32 bytes to both.
\<close>

theorem newToken_carries_entropy:
  assumes "newToken w = (Inr tok, w')"
  shows "length tok = 43 \<and> set tok \<subseteq> set encodeURL
    \<and> (\<forall>v v'. newToken v = (Inr tok, v') \<longrightarrow>
         map (w_entropy v) [w_epos v ..< w_epos v + 32] = map (w_entropy w) [w_epos w ..< w_epos w + 32])"
proof -
  from assms obtain bs where bs: "length bs = 32" "tok = EncodeToString bs"
    "map Some bs = map (w_entropy w) [w_epos w ..< w_epos w + 32]"
    by (rule newToken_Inr)
  have "map (w_entropy v) [w_epos v ..< w_epos v + 32] = map (w_entropy w) [w_epos w ..< w_epos w + 32]"
    if run: "newToken v = (Inr tok, v')" for v v' :: "'b world"
  proof -
    from run obtain cs where cs: "length cs = 32" "tok = EncodeToString cs"
      "map Some cs = map (w_entropy v) [w_epos v ..< w_epos v + 32]"
      by (rule newToken_Inr)
    have "cs = bs" using bs cs by (metis EncodeToString_inj)
    with bs(3) cs(3) show ?thesis by metis
  qed
  then show ?thesis
    using bs set_EncodeToString by (auto simp: length_EncodeToString)
qed

theorem newToken_carries_entropy_witness:
  "\<exists>tok w'. newToken (start_world ()) = (Inr tok, w') \<and> length tok = 43"
proof -
  obtain tok where "newToken (start_world ()) = (Inr tok, (start_world ())\<lparr>w_epos := w_epos (start_world ()) + 32\<rparr>)"
    using newToken_ok [of "start_world ()"] by auto
  then show ?thesis
    using newToken_carries_entropy by blast
qed

end
