(* ===== verification/Http.thy ===== *)
theory Http
  imports World
begin

text \<open>
  Requests, responses and JSON decoding, as the handlers use them: the parts of
  \<open>net/http\<close> and \<open>encoding/json\<close> that the source calls, \<open>handler/response.go\<close> and
  \<open>handler/cookie.go\<close>.
\<close>

section \<open>Decoding JSON into a struct\<close>

text \<open>
  \<open>encoding/json\<close> decodes an object into a struct member by member. A member sets the
  field whose name it has, or failing that a field whose name it has up to letter case
  (Unicode folding, under which the long s and the Kelvin sign are letters of ASCII names);
  a member that names no field is ignored; \<open>null\<close> leaves a string, bool or struct field
  alone; a value of the wrong kind makes the whole call fail. \<open>null\<close> in place of the
  object leaves the struct as it is; any other value there fails.
\<close>

definition lower_ascii :: "char \<Rightarrow> char" where
  "lower_ascii c = (if 65 \<le> (of_char c :: nat) \<and> (of_char c :: nat) \<le> 90
     then char_of (of_char c + (32 :: nat)) else c)"

fun fold_ascii :: "string \<Rightarrow> string" where
  "fold_ascii [] = []"
| "fold_ascii (c # cs) =
     (if take 2 (c # cs) = [CHR 0xC5, CHR 0xBF] then CHR ''s'' # fold_ascii (drop 1 cs)
      else if take 3 (c # cs) = [CHR 0xE2, CHR 0x84, CHR 0xAA] then CHR ''k'' # fold_ascii (drop 2 cs)
      else lower_ascii c # fold_ascii cs)"

type_synonym 'r fields = "(string \<times> (json \<Rightarrow> 'r \<Rightarrow> 'r option)) list"

definition field_for :: "'r fields \<Rightarrow> string \<Rightarrow> (json \<Rightarrow> 'r \<Rightarrow> 'r option) option" where
  "field_for fs k = (case map_of fs k of
      Some f \<Rightarrow> Some f
    | None \<Rightarrow> map_option snd (find (\<lambda>(n, f). fold_ascii n = fold_ascii k) fs))"

fun decode_members :: "'r fields \<Rightarrow> (string \<times> json) list \<Rightarrow> 'r \<Rightarrow> 'r option" where
  "decode_members fs [] r = Some r"
| "decode_members fs ((k, v) # ms) r = (case field_for fs k of
      None \<Rightarrow> decode_members fs ms r
    | Some f \<Rightarrow> (case f v r of None \<Rightarrow> None | Some r' \<Rightarrow> decode_members fs ms r'))"

definition decode_struct :: "'r fields \<Rightarrow> json \<Rightarrow> 'r \<Rightarrow> 'r option" where
  "decode_struct fs j r = (case j of
      JObj ms \<Rightarrow> decode_members fs ms r | JNull \<Rightarrow> Some r | _ \<Rightarrow> None)"

definition string_field :: "(string \<Rightarrow> 'r \<Rightarrow> 'r) \<Rightarrow> json \<Rightarrow> 'r \<Rightarrow> 'r option" where
  "string_field upd j r = (case j of JStr s \<Rightarrow> Some (upd s r) | JNull \<Rightarrow> Some r | _ \<Rightarrow> None)"

definition bool_field :: "(bool \<Rightarrow> 'r \<Rightarrow> 'r) \<Rightarrow> json \<Rightarrow> 'r \<Rightarrow> 'r option" where
  "bool_field upd j r = (case j of JBool b \<Rightarrow> Some (upd b r) | JNull \<Rightarrow> Some r | _ \<Rightarrow> None)"

text \<open>A \<open>json.RawMessage\<close> takes the value as it stands, \<open>null\<close> included.\<close>

definition raw_field :: "(json \<Rightarrow> 'r \<Rightarrow> 'r) \<Rightarrow> json \<Rightarrow> 'r \<Rightarrow> 'r option" where
  "raw_field upd j r = Some (upd j r)"

text \<open>A \<open>uuid.UUID\<close> is decoded from a string by its \<open>UnmarshalText\<close>, which is \<open>uuid.Parse\<close>.\<close>

definition uuid_field :: "uuid_lib \<Rightarrow> (uuid \<Rightarrow> 'r \<Rightarrow> 'r) \<Rightarrow> json \<Rightarrow> 'r \<Rightarrow> 'r option" where
  "uuid_field L upd j r = (case j of
      JStr s \<Rightarrow> (case uuid_Parse L s of None \<Rightarrow> None | Some u \<Rightarrow> Some (upd u r))
    | JNull \<Rightarrow> Some r | _ \<Rightarrow> None)"

lemma string_field_simps [simp]:
  "string_field upd (JStr s) r = Some (upd s r)" "string_field upd JNull r = Some r"
  by (simp_all add: string_field_def)

lemma bool_field_simps [simp]:
  "bool_field upd (JBool b) r = Some (upd b r)" "bool_field upd JNull r = Some r"
  by (simp_all add: bool_field_def)

lemma raw_field_simps [simp]: "raw_field upd j r = Some (upd j r)"
  by (simp add: raw_field_def)

lemma decode_struct_simps [simp]:
  "decode_struct fs (JObj ms) r = decode_members fs ms r" "decode_struct fs JNull r = Some r"
  by (simp_all add: decode_struct_def)

section \<open>Requests\<close>

text \<open>
  The parts of \<open>*http.Request\<close> that the handlers read. The body is the JSON value it
  starts with (\<open>None\<close>: it does not start with one); the cookies are in the order of the
  header; \<open>ctx_user\<close> is the value that the session middleware puts into the context, and
  \<open>url_id\<close> the path parameter \<open>{id}\<close>.
\<close>

record request =
  req_Method :: string
  req_Path :: string
  req_RemoteAddr :: string
  req_Body :: "json option"
  req_Cookies :: "(string \<times> string) list"
  req_TLS :: bool
  req_Headers :: "(string \<times> string) list"
  ctx_user :: "uuid option"
  url_id :: string

text \<open>\<open>r.Cookie(name)\<close>: the first cookie of that name; \<open>r.Header.Get\<close>: the first value, or "".\<close>

definition req_Cookie :: "string \<Rightarrow> request \<Rightarrow> string option" where
  "req_Cookie n r = map_of (req_Cookies r) n"

definition Header_Get :: "string \<Rightarrow> request \<Rightarrow> string" where
  "Header_Get n r = (case map_of (req_Headers r) n of None \<Rightarrow> '''' | Some v \<Rightarrow> v)"

text \<open>\<open>if c, err := r.Cookie(name); err == nil && c.Value != ""\<close>\<close>

definition cookie_value :: "string \<Rightarrow> request \<Rightarrow> string option" where
  "cookie_value n r = (case req_Cookie n r of
      Some v \<Rightarrow> if v = '''' then None else Some v | None \<Rightarrow> None)"

lemma cookie_value_ne: "cookie_value n r = Some v \<Longrightarrow> v \<noteq> ''''"
  by (auto simp: cookie_value_def split: option.splits if_splits)

section \<open>Responses\<close>

text \<open>
  What has been sent when a handler returns: the status, whether the content type was set to
  JSON, the cookies that the response header carries, and the body: a JSON value, or the text of
  a page, which is sent as \<open>text/html\<close>.
\<close>

record response =
  resp_Status :: nat
  resp_JSON :: bool
  resp_Cookies :: "cookie list"
  resp_Body :: "json option"
  resp_Page :: "string option"

type_synonym ('rd, 'a) handler_act = "('rd world, response, 'a) act"

text \<open>A handler has written its response when it returns, by either exit.\<close>

definition serve :: "('rd, response) handler_act \<Rightarrow> 'rd world \<Rightarrow> response \<times> 'rd world" where
  "serve h w = (case h w of (Inl r, w') \<Rightarrow> (r, w') | (Inr r, w') \<Rightarrow> (r, w'))"

section \<open>response.go\<close>

definition codeMessages :: "(string \<times> string) list" where
  "codeMessages =
     [(''invalid_request'', ''Request body could not be parsed.''),
      (''missing_fields'', ''One or more required fields are missing.''),
      (''username_taken'', ''That username is already registered.''),
      (''credential_exists'', ''That credential is already registered.''),
      (''session_invalid'', ''Registration session is invalid or has expired. Please start over.''),
      (''attestation_rejected'', ''Authenticator returned an attestation format we do not accept.''),
      (''unauthorized'', ''Authentication required.''),
      (''not_found'', ''Resource not found.''),
      (''last_credential'', ''Cannot delete the last passkey. Register another one first.''),
      (''guest_invalid'', ''Guest session is invalid or has expired.''),
      (''not_a_guest'', ''This account has already been registered.''),
      (''internal_error'', ''Internal server error.'')]"

definition errorBody :: "string \<Rightarrow> string \<Rightarrow> json" where
  "errorBody code msg = JObj [(''code'', JStr code), (''message'', JStr msg)]"

definition writeJSON :: "nat \<Rightarrow> json \<Rightarrow> ('rd, response) handler_act" where
  "writeJSON status v = getE (\<lambda>w.
     \<lparr>resp_Status = status, resp_JSON = True, resp_Cookies = w_header w, resp_Body = Some v, resp_Page = None\<rparr>)"

text \<open>\<open>w.WriteHeader(status)\<close> with no body.\<close>

definition writeStatus :: "nat \<Rightarrow> ('rd, response) handler_act" where
  "writeStatus status = getE (\<lambda>w.
     \<lparr>resp_Status = status, resp_JSON = False, resp_Cookies = w_header w, resp_Body = None, resp_Page = None\<rparr>)"

text \<open>\<open>w.Header().Set("Content-Type", "text/html; charset=utf-8"); w.Write(page)\<close>: the status is 200.\<close>

definition writePage :: "string \<Rightarrow> ('rd, response) handler_act" where
  "writePage page = getE (\<lambda>w.
     \<lparr>resp_Status = 200, resp_JSON = False, resp_Cookies = w_header w, resp_Body = None, resp_Page = Some page\<rparr>)"

definition writeError :: "nat \<Rightarrow> string \<Rightarrow> ('rd, response) handler_act" where
  "writeError status code = (case map_of codeMessages code of
      Some msg \<Rightarrow> writeJSON status (errorBody code msg)
    | None \<Rightarrow>
        bindE (logE LevelError ''writeError called with unknown code'') (\<lambda>_.
        writeJSON 500 (errorBody ''internal_error'' (the (map_of codeMessages ''internal_error'')))))"

text \<open>\<open>writeError(\<dots>); return\<close>: the handler ends here.\<close>

definition reject :: "nat \<Rightarrow> string \<Rightarrow> ('rd, 'a) handler_act" where
  "reject status code = bindE (writeError status code) failE"

text \<open>\<open>h.logger.Error(msg, \<dots>); writeError(w, \<dots>, 500, "internal_error"); return\<close>\<close>

definition internal :: "string \<Rightarrow> ('rd, 'a) handler_act" where
  "internal msg = bindE (logE LevelError msg) (\<lambda>_. reject 500 ''internal_error'')"

section \<open>cookie.go\<close>

definition SessionCookieName :: string where
  "SessionCookieName = ''passkey_session''"

definition GuestCookieName :: string where
  "GuestCookieName = ''passkey_guest''"

definition isHTTPS :: "request \<Rightarrow> bool" where
  "isHTTPS r = (if req_TLS r then True else Header_Get ''X-Forwarded-Proto'' r = ''https'')"

text \<open>\<open>http.SetCookie\<close> adds a line to the response header.\<close>

definition SetCookie :: "cookie \<Rightarrow> ('rd world, 'e, unit) act" where
  "SetCookie c = putE (\<lambda>w. w\<lparr>w_header := w_header w @ [c]\<rparr>)"

definition setSessionCookie :: "request \<Rightarrow> string \<Rightarrow> int \<Rightarrow> ('rd world, 'e, unit) act" where
  "setSessionCookie r token maxAgeSeconds = SetCookie
     \<lparr>ck_Name = SessionCookieName, ck_Value = token, ck_Path = ''/'', ck_HttpOnly = True,
      ck_Secure = isHTTPS r, ck_SameSite = SameSiteLaxMode, ck_MaxAge = maxAgeSeconds\<rparr>"

definition clearSessionCookie :: "request \<Rightarrow> ('rd world, 'e, unit) act" where
  "clearSessionCookie r = SetCookie
     \<lparr>ck_Name = SessionCookieName, ck_Value = '''', ck_Path = ''/'', ck_HttpOnly = True,
      ck_Secure = isHTTPS r, ck_SameSite = SameSiteLaxMode, ck_MaxAge = -1\<rparr>"

definition setGuestCookie :: "request \<Rightarrow> string \<Rightarrow> int \<Rightarrow> ('rd world, 'e, unit) act" where
  "setGuestCookie r token maxAgeSeconds = SetCookie
     \<lparr>ck_Name = GuestCookieName, ck_Value = token, ck_Path = ''/'', ck_HttpOnly = True,
      ck_Secure = isHTTPS r, ck_SameSite = SameSiteLaxMode, ck_MaxAge = maxAgeSeconds\<rparr>"

definition clearGuestCookie :: "request \<Rightarrow> ('rd world, 'e, unit) act" where
  "clearGuestCookie r = SetCookie
     \<lparr>ck_Name = GuestCookieName, ck_Value = '''', ck_Path = ''/'', ck_HttpOnly = True,
      ck_Secure = isHTTPS r, ck_SameSite = SameSiteLaxMode, ck_MaxAge = -1\<rparr>"

section \<open>Frames\<close>

lemma keeps_SetCookie:
  "(\<And>w k. f (w\<lparr>w_header := k\<rparr>) = f w) \<Longrightarrow> keeps f (SetCookie c)"
  unfolding SetCookie_def by (intro keeps_rules)

lemma keeps_cookies [keeps_rules]:
  assumes "\<And>w k. f (w\<lparr>w_header := k\<rparr>) = f w"
  shows "keeps f (setSessionCookie r t a)" and "keeps f (clearSessionCookie r)"
    and "keeps f (setGuestCookie r t a)" and "keeps f (clearGuestCookie r)"
  unfolding setSessionCookie_def clearSessionCookie_def setGuestCookie_def clearGuestCookie_def
  by (intro keeps_SetCookie assms)+

lemma keeps_writeJSON [keeps_rules]: "keeps f (writeJSON s v)"
  unfolding writeJSON_def by (intro keeps_rules)

lemma keeps_writeStatus [keeps_rules]: "keeps f (writeStatus s)"
  unfolding writeStatus_def by (intro keeps_rules)

lemma keeps_writePage [keeps_rules]: "keeps f (writePage p)"
  unfolding writePage_def by (intro keeps_rules)

lemma keeps_responses [keeps_rules]:
  assumes "\<And>w k. f (w\<lparr>w_log := k\<rparr>) = f w"
  shows "keeps f (writeError s c)" and "keeps f (reject s c)" and "keeps f (internal m)"
  unfolding writeError_def reject_def internal_def writeError_def
  by (intro keeps_rules assms)+

lemma keeps_serve: "keeps f h \<Longrightarrow> f (snd (serve h w)) = f w"
  by (auto simp: serve_def split: prod.split sum.split dest: keepsD)

lemma serve_bindE: "serve (bindE m f) w =
    (case m w of (Inl r, w') \<Rightarrow> (r, w') | (Inr a, w') \<Rightarrow> serve (f a) w')"
  by (simp add: serve_def bindE_def split: prod.split sum.split)

end
