(* ===== verification/WebAuthn_Service.thy ===== *)
theory WebAuthn_Service
  imports Http
begin

text \<open>
  \<open>internal/webauthn\<close>: the attestation policy (\<open>attestation.go\<close>), the configuration
  (\<open>options.go\<close>), the user adapter (\<open>user.go\<close>) and the service (\<open>service.go\<close>), which
  wraps the \<open>go-webauthn\<close> library.

  The library is a parameter: the record \<open>webauthn_lib\<close> of the functions the service
  calls, over three types of its own (session data, parsed creation and assertion
  responses). A call that verifies depends on the time; a call that draws a challenge
  depends also on the number of the call. \<open>ValidateDiscoverableLogin\<close> calls back into the
  program to find the user, any number of times and whatever the answers: it is a tree of
  such calls with the result at its leaves.
\<close>

section \<open>Types of the library\<close>

record credential_flags =
  fl_BackupEligible :: bool
  fl_BackupState :: bool

record authenticator =
  au_AAGUID :: bytes
  au_SignCount :: "32 word"

record lib_credential =
  lib_ID :: slice
  lib_PublicKey :: slice
  lib_AttestationType :: string
  lib_AttestationFormat :: string
  lib_Transport :: "string list"
  lib_Flags :: credential_flags
  lib_Authenticator :: authenticator

section \<open>user.go\<close>

definition UserHandleSize :: nat where
  "UserHandleSize = 64"

record wa_user =
  Handle :: slice
  wa_Name :: string
  wa_DisplayName :: string
  wa_Credentials :: "lib_credential list option"

definition NewUserHandle :: "('rd, slice) store_act" where
  "NewUserHandle =
     bindE (catchE (rand_Read UserHandleSize) (\<lambda>c. failE (Wrapped ''generate user handle'' c)))
       (\<lambda>h. ret (Some h))"

definition WebAuthnID :: "wa_user \<Rightarrow> slice" where
  "WebAuthnID u = Handle u"

definition WebAuthnName :: "wa_user \<Rightarrow> string" where
  "WebAuthnName u = wa_Name u"

definition WebAuthnDisplayName :: "wa_user \<Rightarrow> string" where
  "WebAuthnDisplayName u = wa_DisplayName u"

definition WebAuthnCredentials :: "wa_user \<Rightarrow> lib_credential list" where
  "WebAuthnCredentials u = (case wa_Credentials u of None \<Rightarrow> [] | Some cs \<Rightarrow> cs)"

section \<open>The library\<close>

datatype login_prog =
    LoginDone "lib_credential option"
  | CallHandler slice slice "wa_user option \<Rightarrow> login_prog"

record ('sess, 'pc, 'pa) webauthn_lib =
  lib_BeginRegistration :: "time \<Rightarrow> nat \<Rightarrow> wa_user \<Rightarrow> (json \<times> 'sess option) option"
  lib_FinishRegistration :: "time \<Rightarrow> wa_user \<Rightarrow> 'sess \<Rightarrow> request \<Rightarrow> lib_credential option"
  lib_CreateCredential :: "time \<Rightarrow> wa_user \<Rightarrow> 'sess \<Rightarrow> 'pc \<Rightarrow> lib_credential option"
  lib_ParseCreation :: "json \<Rightarrow> 'pc option"
  lib_BeginDiscoverableLogin :: "time \<Rightarrow> nat \<Rightarrow> (json \<times> 'sess option) option"
  lib_ValidateDiscoverableLogin :: "time \<Rightarrow> 'sess \<Rightarrow> 'pa \<Rightarrow> login_prog"
  lib_ParseAssertion :: "json \<Rightarrow> 'pa option"
  pa_RawID :: "'pa \<Rightarrow> slice"
  sess_UserID :: "'sess \<Rightarrow> slice"
  sess_zero :: 'sess
  sess_marshal :: "'sess \<Rightarrow> json option"
  sess_unmarshal :: "json \<Rightarrow> 'sess \<Rightarrow> 'sess option"

text \<open>
  \<open>SessionData\<close> is documented to survive JSON: what was marshalled decodes into a session
  with the same user id. (Not the same value: its expiry loses the monotonic clock reading.)
\<close>

definition session_data_ok :: "('sess, 'pc, 'pa) webauthn_lib \<Rightarrow> bool" where
  "session_data_ok W \<longleftrightarrow> (\<forall>s j. sess_marshal W s = Some j \<longrightarrow>
     (\<exists>s'. sess_unmarshal W j (sess_zero W) = Some s' \<and> sess_UserID W s' = sess_UserID W s))"

text \<open>
  A discoverable login is begun without a user: its session has no user id (the field is
  left \<open>nil\<close>).
\<close>

definition login_sessions_anonymous :: "('sess, 'pc, 'pa) webauthn_lib \<Rightarrow> bool" where
  "login_sessions_anonymous W \<longleftrightarrow> (\<forall>t n a s.
     lib_BeginDiscoverableLogin W t n = Some (a, Some s) \<longrightarrow> sess_UserID W s = None)"

section \<open>attestation.go\<close>

definition AcceptedAttestationFormats :: "string list" where
  "AcceptedAttestationFormats =
     [''none'', ''packed'', ''tpm'', ''android-key'', ''android-safetynet'', ''fido-u2f'', ''apple'']"

definition IsAcceptedAttestation :: "string \<Rightarrow> bool" where
  "IsAcceptedAttestation format =
     (let format = (if format = '''' then ''none'' else format)
      in format \<in> set AcceptedAttestationFormats)"

definition AcceptedAttestationTypes :: "string list" where
  "AcceptedAttestationTypes =
     [''none'', ''basic_full'', ''basic_surrogate'', ''attca'', ''anonca'', ''ecdaa'']"

definition IsAcceptedAttestationType :: "string \<Rightarrow> bool" where
  "IsAcceptedAttestationType t =
     (let t = (if t = '''' then ''none'' else t) in t \<in> set AcceptedAttestationTypes)"

section \<open>options.go\<close>

record wa_config =
  cfg_RPID :: string
  cfg_RPDisplayName :: string
  cfg_RPOrigins :: "string list"
  cfg_CeremonyTimeout :: duration

datatype wa_config_error =
    ErrConfigMissingRPID
  | ErrConfigMissingRPDisplayName
  | ErrConfigMissingRPOrigins
  | ErrConfigInvalidTimeout
  | ErrWebauthnInit

datatype preference = PreferNoAttestation | PreferDirectAttestation
datatype requirement = Required | Preferred | Discouraged

record lib_config =
  lc_RPID :: string
  lc_RPDisplayName :: string
  lc_RPOrigins :: "string list"
  lc_AttestationPreference :: preference
  lc_ResidentKey :: requirement
  lc_UserVerification :: requirement
  lc_RegistrationTimeout :: "bool \<times> duration"
  lc_LoginTimeout :: "bool \<times> duration"

definition NewService :: "(lib_config \<Rightarrow> 'svc option) \<Rightarrow> wa_config \<Rightarrow> wa_config_error + 'svc" where
  "NewService gowebauthn_New cfg =
     (if cfg_RPID cfg = '''' then Inl ErrConfigMissingRPID
      else if cfg_RPDisplayName cfg = '''' then Inl ErrConfigMissingRPDisplayName
      else if cfg_RPOrigins cfg = [] then Inl ErrConfigMissingRPOrigins
      else if cfg_CeremonyTimeout cfg \<le> 0 then Inl ErrConfigInvalidTimeout
      else case gowebauthn_New
          \<lparr>lc_RPID = cfg_RPID cfg, lc_RPDisplayName = cfg_RPDisplayName cfg,
           lc_RPOrigins = cfg_RPOrigins cfg, lc_AttestationPreference = PreferNoAttestation,
           lc_ResidentKey = Preferred, lc_UserVerification = Preferred,
           lc_RegistrationTimeout = (True, cfg_CeremonyTimeout cfg),
           lc_LoginTimeout = (True, cfg_CeremonyTimeout cfg)\<rparr> of
        None \<Rightarrow> Inl ErrWebauthnInit | Some svc \<Rightarrow> Inr svc)"

section \<open>service.go\<close>

text \<open>The wire payloads \<open>CreationOptions\<close> and \<open>AssertionOptions\<close>.\<close>

definition CreationOptions :: "json \<Rightarrow> string \<Rightarrow> json" where
  "CreationOptions options sessionID = JObj [(''options'', options), (''session_id'', JStr sessionID)]"

definition AssertionOptions :: "json \<Rightarrow> string \<Rightarrow> json" where
  "AssertionOptions options sessionID = JObj [(''options'', options), (''session_id'', JStr sessionID)]"

definition Service_BeginRegistration ::
  "('sess, 'pc, 'pa) webauthn_lib \<Rightarrow> wa_user \<Rightarrow> string \<Rightarrow> ('rd, json \<times> 'sess) store_act" where
  "Service_BeginRegistration W user sessionID =
     bindE next_call (\<lambda>n. bindE (getE w_now) (\<lambda>now.
     case lib_BeginRegistration W now n user of
       None \<Rightarrow> failE (Wrapped ''begin registration'' OtherCause)
     | Some (creation, None) \<Rightarrow> failE (Wrapped ''webauthn: nil session data'' OtherCause)
     | Some (creation, Some session) \<Rightarrow> ret (CreationOptions creation sessionID, session)))"

definition checkAttestationPolicy :: "lib_credential \<Rightarrow> err option" where
  "checkAttestationPolicy cred =
     (if \<not> IsAcceptedAttestation (lib_AttestationFormat cred)
        then Some (ErrAttestationNotAccepted (lib_AttestationFormat cred))
      else if \<not> IsAcceptedAttestationType (lib_AttestationType cred)
        then Some (ErrAttestationTypeNotAccepted (lib_AttestationType cred))
      else None)"

definition Service_FinishRegistration ::
  "('sess, 'pc, 'pa) webauthn_lib \<Rightarrow> wa_user \<Rightarrow> 'sess \<Rightarrow> request \<Rightarrow> ('rd, lib_credential) store_act" where
  "Service_FinishRegistration W user session r =
     bindE (getE w_now) (\<lambda>now.
     case lib_FinishRegistration W now user session r of
       None \<Rightarrow> failE (Wrapped ''finish registration'' OtherCause)
     | Some cred \<Rightarrow> (case checkAttestationPolicy cred of Some e \<Rightarrow> failE e | None \<Rightarrow> ret cred))"

definition Service_CreateCredential ::
  "('sess, 'pc, 'pa) webauthn_lib \<Rightarrow> wa_user \<Rightarrow> 'sess \<Rightarrow> 'pc \<Rightarrow> ('rd, lib_credential) store_act" where
  "Service_CreateCredential W user session parsed =
     bindE (getE w_now) (\<lambda>now.
     case lib_CreateCredential W now user session parsed of
       None \<Rightarrow> failE (Wrapped ''create credential'' OtherCause)
     | Some cred \<Rightarrow> (case checkAttestationPolicy cred of Some e \<Rightarrow> failE e | None \<Rightarrow> ret cred))"

definition Service_ParseCredentialCreation ::
  "('sess, 'pc, 'pa) webauthn_lib \<Rightarrow> json \<Rightarrow> ('rd, 'pc) store_act" where
  "Service_ParseCredentialCreation W b = (case lib_ParseCreation W b of
      None \<Rightarrow> failE (Wrapped ''parse credential creation response'' OtherCause)
    | Some parsed \<Rightarrow> ret parsed)"

definition Service_BeginLogin ::
  "('sess, 'pc, 'pa) webauthn_lib \<Rightarrow> string \<Rightarrow> ('rd, json \<times> 'sess) store_act" where
  "Service_BeginLogin W sessionID =
     bindE next_call (\<lambda>n. bindE (getE w_now) (\<lambda>now.
     case lib_BeginDiscoverableLogin W now n of
       None \<Rightarrow> failE (Wrapped ''begin login'' OtherCause)
     | Some (assertion, None) \<Rightarrow> failE (Wrapped ''webauthn: nil session data'' OtherCause)
     | Some (assertion, Some session) \<Rightarrow> ret (AssertionOptions assertion sessionID, session)))"

text \<open>
  The library runs and calls the handler back; the handler is a closure that keeps
  variables \<open>'c\<close> of its own between the calls.
\<close>

primrec run_login ::
  "login_prog \<Rightarrow> (slice \<Rightarrow> slice \<Rightarrow> 'c \<Rightarrow> ('w, 'e, wa_user option \<times> 'c) act) \<Rightarrow> 'c
    \<Rightarrow> ('w, 'e, lib_credential option \<times> 'c) act" where
  "run_login (LoginDone res) h c = ret (res, c)"
| "run_login (CallHandler rawID userHandle k) h c =
     bindE (h rawID userHandle c) (\<lambda>(u, c'). run_login (k u) h c')"

definition Service_ValidateLogin ::
  "('sess, 'pc, 'pa) webauthn_lib \<Rightarrow> (slice \<Rightarrow> slice \<Rightarrow> 'c \<Rightarrow> ('rd, wa_user option \<times> 'c) store_act) \<Rightarrow> 'c
    \<Rightarrow> 'sess \<Rightarrow> 'pa \<Rightarrow> ('rd, lib_credential \<times> 'c) store_act" where
  "Service_ValidateLogin W h c session parsed =
     bindE (getE w_now) (\<lambda>now.
     bindE (run_login (lib_ValidateDiscoverableLogin W now session parsed) h c) (\<lambda>(res, c').
     case res of
       None \<Rightarrow> failE (Wrapped ''validate login'' OtherCause)
     | Some cred \<Rightarrow> ret (cred, c')))"

definition Service_ParseCredentialAssertion ::
  "('sess, 'pc, 'pa) webauthn_lib \<Rightarrow> json \<Rightarrow> ('rd, 'pa) store_act" where
  "Service_ParseCredentialAssertion W b = (case lib_ParseAssertion W b of
      None \<Rightarrow> failE (Wrapped ''parse credential assertion response'' OtherCause)
    | Some parsed \<Rightarrow> ret parsed)"

definition MarshalSession :: "('sess, 'pc, 'pa) webauthn_lib \<Rightarrow> 'sess \<Rightarrow> err + json" where
  "MarshalSession W s = (case sess_marshal W s of
      None \<Rightarrow> Inl (Wrapped ''marshal session'' OtherCause) | Some b \<Rightarrow> Inr b)"

definition UnmarshalSession :: "('sess, 'pc, 'pa) webauthn_lib \<Rightarrow> json \<Rightarrow> err + 'sess" where
  "UnmarshalSession W b = (case sess_unmarshal W b (sess_zero W) of
      None \<Rightarrow> Inl (Wrapped ''unmarshal session'' OtherCause) | Some s \<Rightarrow> Inr s)"

lemmas service_defs =
  Service_BeginRegistration_def Service_FinishRegistration_def Service_CreateCredential_def
  Service_ParseCredentialCreation_def Service_BeginLogin_def Service_ValidateLogin_def
  Service_ParseCredentialAssertion_def

section \<open>Frames and results\<close>

lemma keeps_NewUserHandle [keeps_rules]: "(\<And>w k. f (w\<lparr>w_epos := k\<rparr>) = f w) \<Longrightarrow> keeps f NewUserHandle"
  unfolding NewUserHandle_def by (intro keeps_rules)

lemma keeps_service_begin [keeps_rules]:
  assumes "\<And>w k. f (w\<lparr>w_calls := k\<rparr>) = f w"
  shows "keeps f (Service_BeginRegistration W u i)" and "keeps f (Service_BeginLogin W i)"
  unfolding service_defs by (intro keeps_rules assms; simp split: prod.split option.split add: keeps_rules)+

lemma keeps_service [keeps_rules]:
  "keeps f (Service_FinishRegistration W u s r)" "keeps f (Service_CreateCredential W u s p)"
  "keeps f (Service_ParseCredentialCreation W b)" "keeps f (Service_ParseCredentialAssertion W b)"
  unfolding service_defs by (intro keeps_rules)+

lemma keeps_run_login:
  "(\<And>a b c. keeps f (h a b c)) \<Longrightarrow> keeps f (run_login p h c)"
proof (induction p arbitrary: c)
  case (CallHandler a b k)
  then show ?case by (auto intro!: keeps_rules split: prod.split)
qed (simp add: keeps_rules)

lemma keeps_ValidateLogin [keeps_rules]:
  "(\<And>a b c. keeps f (h a b c)) \<Longrightarrow> keeps f (Service_ValidateLogin W h c s p)"
  unfolding Service_ValidateLogin_def
  by (intro keeps_rules keeps_run_login) (auto split: prod.split option.split intro: keeps_rules)

lemma NewUserHandle_Inr: "NewUserHandle w = (Inr h, w') \<Longrightarrow> \<exists>b. h = Some b \<and> length b = 64"
  by (auto simp: NewUserHandle_def UserHandleSize_def catchE_def failE_def ret_def
      split: prod.splits sum.splits elim!: bindE_InrE dest: length_rand_Read)

text \<open>A credential that the service hands out has passed the policy.\<close>

lemma checkAttestationPolicy_None:
  "checkAttestationPolicy cred = None \<longleftrightarrow>
     IsAcceptedAttestation (lib_AttestationFormat cred) \<and> IsAcceptedAttestationType (lib_AttestationType cred)"
  by (simp add: checkAttestationPolicy_def)

lemma CreateCredential_Inr:
  assumes "Service_CreateCredential W u s p w = (Inr cred, w')"
  shows "lib_CreateCredential W (w_now w) u s p = Some cred" and "checkAttestationPolicy cred = None" and "w' = w"
  using assms
  by (auto simp: Service_CreateCredential_def act_defs split: option.splits)

end
