(* ===== verification/Auth_Handler.thy ===== *)
theory Auth_Handler
  imports Postgres_Credentials Redis_Stores WebAuthn_Service
begin

text \<open>
  \<open>internal/api/handler/auth.go\<close>: the endpoints under \<open>/auth\<close>. A handler is an action on
  the state with two exits: \<open>Inl\<close> the response of an early \<open>return\<close>, \<open>Inr\<close> the
  response written at the end of the function; \<open>serve\<close> is what the client sees of either.
\<close>

section \<open>Dependencies\<close>

text \<open>
  \<open>AuthDeps\<close>, with the stores replaced by what they are built from: the Redis client and
  the three times to live, the webauthn and uuid libraries. The SQL stores act on the tables
  of the state.
\<close>

record ('rd, 'sess, 'pc, 'pa) auth_env =
  env_redis :: "'rd redis_client"
  env_webauthn :: "('sess, 'pc, 'pa) webauthn_lib"
  env_uuid :: uuid_lib
  env_challengeTTL :: duration
  env_sessionTTL :: duration
  env_guestTTL :: duration
  sessionMaxAge :: int
  guestMaxAge :: int

text \<open>
  The times to live are positive, as \<open>config.Load\<close> makes sure; Redis would take zero to mean
  that a key never expires.
\<close>

definition ttls_positive :: "('rd, 'sess, 'pc, 'pa) auth_env \<Rightarrow> bool" where
  "ttls_positive env \<longleftrightarrow> 0 < env_challengeTTL env \<and> 0 < env_sessionTTL env \<and> 0 < env_guestTTL env"

lemma ttls_positiveD:
  assumes "ttls_positive env"
  shows "0 < env_challengeTTL env" and "0 < env_sessionTTL env" and "0 < env_guestTTL env"
  using assms by (simp_all add: ttls_positive_def)

section \<open>Payloads\<close>

text \<open>What the challenge store keeps between \<open>begin\<close> and \<open>complete\<close>.\<close>

record 'sess registrationSession =
  reg_Session :: 'sess
  reg_Username :: string
  reg_DisplayName :: string
  reg_PromoteUserID :: uuid
  reg_Promote :: bool

record 'sess loginSession =
  login_Session :: 'sess

text \<open>
  \<open>json.Marshal\<close>: \<open>omitempty\<close> drops a false \<open>promote\<close>; it never drops
  \<open>promote_user_id\<close>, because an array of sixteen bytes is not an empty value.
\<close>

definition marshal_registrationSession ::
  "('rd, 'sess, 'pc, 'pa) auth_env \<Rightarrow> 'sess registrationSession \<Rightarrow> json option" where
  "marshal_registrationSession env s =
     (case sess_marshal (env_webauthn env) (reg_Session s) of
        None \<Rightarrow> None
      | Some j \<Rightarrow> Some (JObj
          ([(''session'', j), (''username'', JStr (reg_Username s)),
            (''display_name'', JStr (reg_DisplayName s)),
            (''promote_user_id'', JStr (uuid_String (env_uuid env) (reg_PromoteUserID s)))]
           @ (if reg_Promote s then [(''promote'', JBool True)] else []))))"

definition registrationSession_fields ::
  "('rd, 'sess, 'pc, 'pa) auth_env \<Rightarrow> 'sess registrationSession fields" where
  "registrationSession_fields env =
     [(''session'', \<lambda>j s. map_option (\<lambda>x. s\<lparr>reg_Session := x\<rparr>)
         (sess_unmarshal (env_webauthn env) j (reg_Session s))),
      (''username'', string_field (\<lambda>x s. s\<lparr>reg_Username := x\<rparr>)),
      (''display_name'', string_field (\<lambda>x s. s\<lparr>reg_DisplayName := x\<rparr>)),
      (''promote_user_id'', uuid_field (env_uuid env) (\<lambda>x s. s\<lparr>reg_PromoteUserID := x\<rparr>)),
      (''promote'', bool_field (\<lambda>x s. s\<lparr>reg_Promote := x\<rparr>))]"

definition zero_registrationSession :: "('rd, 'sess, 'pc, 'pa) auth_env \<Rightarrow> 'sess registrationSession" where
  "zero_registrationSession env =
     \<lparr>reg_Session = sess_zero (env_webauthn env), reg_Username = '''', reg_DisplayName = '''',
      reg_PromoteUserID = uuid_Nil, reg_Promote = False\<rparr>"

text \<open>\<open>json.Unmarshal\<close> of stored bytes; a plain string under the key is not a document.\<close>

definition unmarshal_registrationSession ::
  "('rd, 'sess, 'pc, 'pa) auth_env \<Rightarrow> rval \<Rightarrow> 'sess registrationSession option" where
  "unmarshal_registrationSession env raw = (case raw of
      RStr _ \<Rightarrow> None
    | RDoc j \<Rightarrow> decode_struct (registrationSession_fields env) j (zero_registrationSession env))"

definition marshal_loginSession ::
  "('rd, 'sess, 'pc, 'pa) auth_env \<Rightarrow> 'sess loginSession \<Rightarrow> json option" where
  "marshal_loginSession env s =
     map_option (\<lambda>j. JObj [(''session'', j)]) (sess_marshal (env_webauthn env) (login_Session s))"

definition loginSession_fields :: "('rd, 'sess, 'pc, 'pa) auth_env \<Rightarrow> 'sess loginSession fields" where
  "loginSession_fields env =
     [(''session'', \<lambda>j s. map_option (\<lambda>x. s\<lparr>login_Session := x\<rparr>)
         (sess_unmarshal (env_webauthn env) j (login_Session s)))]"

definition unmarshal_loginSession ::
  "('rd, 'sess, 'pc, 'pa) auth_env \<Rightarrow> rval \<Rightarrow> 'sess loginSession option" where
  "unmarshal_loginSession env raw = (case raw of
      RStr _ \<Rightarrow> None
    | RDoc j \<Rightarrow> decode_struct (loginSession_fields env) j
                \<lparr>login_Session = sess_zero (env_webauthn env)\<rparr>)"

section \<open>Requests and responses\<close>

text \<open>\<open>beginRegisterRequest\<close> and \<open>beginPromoteRequest\<close>.\<close>

record beginRegisterRequest =
  begin_Username :: string
  begin_DisplayName :: string

definition beginRegisterRequest_fields :: "beginRegisterRequest fields" where
  "beginRegisterRequest_fields =
     [(''username'', string_field (\<lambda>x q. q\<lparr>begin_Username := x\<rparr>)),
      (''display_name'', string_field (\<lambda>x q. q\<lparr>begin_DisplayName := x\<rparr>))]"

text \<open>
  \<open>completeRegisterRequest\<close> and \<open>completeLoginRequest\<close>. The raw message is empty
  (\<open>None\<close>) only when the member is absent.
\<close>

record completeRequest =
  complete_SessionID :: string
  complete_Credential :: "json option"

definition completeRequest_fields :: "completeRequest fields" where
  "completeRequest_fields =
     [(''session_id'', string_field (\<lambda>x q. q\<lparr>complete_SessionID := x\<rparr>)),
      (''credential'', raw_field (\<lambda>x q. q\<lparr>complete_Credential := Some x\<rparr>))]"

definition guestResponse :: "('rd, 'sess, 'pc, 'pa) auth_env \<Rightarrow> uuid \<Rightarrow> json" where
  "guestResponse env u = JObj [(''user_id'', JStr (uuid_String (env_uuid env) u))]"

definition completeRegisterResponse :: "('rd, 'sess, 'pc, 'pa) auth_env \<Rightarrow> uuid \<Rightarrow> uuid \<Rightarrow> json" where
  "completeRegisterResponse env u c =
     JObj [(''user_id'', JStr (uuid_String (env_uuid env) u)),
           (''credential_id'', JStr (uuid_String (env_uuid env) c))]"

definition completeLoginResponse :: "('rd, 'sess, 'pc, 'pa) auth_env \<Rightarrow> user \<Rightarrow> json" where
  "completeLoginResponse env u =
     JObj [(''user_id'', JStr (uuid_String (env_uuid env) (user_ID u))),
           (''username'', JStr (Username u)), (''display_name'', JStr (DisplayName u))]"

section \<open>Recurring fragments\<close>

text \<open>\<open>if err := json.NewDecoder(r.Body).Decode(&req); err != nil\<close>\<close>

definition decodeBody :: "'r fields \<Rightarrow> 'r \<Rightarrow> request \<Rightarrow> ('rd, 'r) handler_act" where
  "decodeBody fs zero r = (case req_Body r of
      None \<Rightarrow> reject 400 ''invalid_request''
    | Some j \<Rightarrow> (case decode_struct fs j zero of
        None \<Rightarrow> reject 400 ''invalid_request'' | Some q \<Rightarrow> ret q))"

text \<open>\<open>x, err := m(); if err != nil { log; internal_error; return }\<close>\<close>

definition orInternal :: "string \<Rightarrow> ('rd, 'a) store_act \<Rightarrow> ('rd, 'a) handler_act" where
  "orInternal msg m = catchE m (\<lambda>_. internal msg)"

text \<open>The same for a pure conversion.\<close>

definition someOrInternal :: "string \<Rightarrow> 'a option \<Rightarrow> ('rd, 'a) handler_act" where
  "someOrInternal msg x = (case x of None \<Rightarrow> internal msg | Some a \<Rightarrow> ret a)"

text \<open>The two \<open>begin\<close> requests: decode and check for empty fields.\<close>

definition decodeBegin :: "request \<Rightarrow> ('rd, beginRegisterRequest) handler_act" where
  "decodeBegin r =
     bindE (decodeBody beginRegisterRequest_fields \<lparr>begin_Username = '''', begin_DisplayName = ''''\<rparr> r)
       (\<lambda>req. if begin_Username req = '''' \<or> begin_DisplayName req = ''''
              then reject 400 ''missing_fields'' else ret req)"

text \<open>The three \<open>complete\<close> requests: decode, and check that both members are there.\<close>

definition decodeComplete :: "request \<Rightarrow> ('rd, string \<times> json) handler_act" where
  "decodeComplete r =
     bindE (decodeBody completeRequest_fields \<lparr>complete_SessionID = '''', complete_Credential = None\<rparr> r)
       (\<lambda>req. if complete_SessionID req = '''' then reject 400 ''missing_fields''
              else case complete_Credential req of
                None \<Rightarrow> reject 400 ''missing_fields''
              | Some cred \<Rightarrow> ret (complete_SessionID req, cred))"

definition takeChallenge :: "('rd, 'sess, 'pc, 'pa) auth_env \<Rightarrow> string \<Rightarrow> string \<Rightarrow> ('rd, rval) handler_act" where
  "takeChallenge env msg sessionID =
     catchE (ChallengeStore_Take (env_redis env) sessionID) (\<lambda>e.
       if e = ErrChallengeNotFound then reject 401 ''session_invalid'' else internal msg)"

text \<open>\<open>h.logger.Warn(msg, \<dots>); writeError(w, \<dots>); return\<close>\<close>

definition warnReject :: "string \<Rightarrow> nat \<Rightarrow> string \<Rightarrow> ('rd, 'a) handler_act" where
  "warnReject msg status code = bindE (logE LevelWarn msg) (\<lambda>_. reject status code)"

text \<open>\<open>errors.Is(err, ErrAttestationNotAccepted)\<close>: the format policy's sentinel.\<close>

fun is_attestation_rejected :: "err \<Rightarrow> bool" where
  "is_attestation_rejected (ErrAttestationNotAccepted _) = True"
| "is_attestation_rejected _ = False"

text \<open>The verification step that the two registration flows have in common.\<close>

definition verifyAttestation ::
  "('rd, 'sess, 'pc, 'pa) auth_env \<Rightarrow> string \<Rightarrow> string \<Rightarrow> wa_user \<Rightarrow> 'sess \<Rightarrow> json
    \<Rightarrow> ('rd, lib_credential) handler_act" where
  "verifyAttestation env parseMsg verifyMsg waUser session body =
     bindE (catchE (Service_ParseCredentialCreation (env_webauthn env) body)
              (\<lambda>_. warnReject parseMsg 400 ''invalid_request'')) (\<lambda>parsed.
     catchE (Service_CreateCredential (env_webauthn env) waUser session parsed) (\<lambda>e.
       if is_attestation_rejected e then reject 400 ''attestation_rejected''
       else warnReject verifyMsg 400 ''invalid_request''))"

definition newSessionID :: "('rd, string) store_act" where
  "newSessionID = bindE (catchE (rand_Read 32) (\<lambda>c. failE (Wrapped ''read random'' c)))
                    (\<lambda>b. ret (EncodeToString b))"

section \<open>Conversions\<close>

definition domainCredentialFromLib ::
  "uuid_lib \<Rightarrow> uuid \<Rightarrow> slice \<Rightarrow> lib_credential \<Rightarrow> credential option" where
  "domainCredentialFromLib L userID handle cred =
     (let out = \<lparr>cred_ID = uuid_Nil, cred_UserID = userID, CredentialID = lib_ID cred,
                 PublicKey = lib_PublicKey cred, WebAuthnUserHandle = handle, AAGUID = None,
                 SignCount = au_SignCount (lib_Authenticator cred), Transports = lib_Transport cred,
                 AttestationFormat = lib_AttestationFormat cred,
                 AttestationType = lib_AttestationType cred,
                 BackupEligible = fl_BackupEligible (lib_Flags cred),
                 BackupState = fl_BackupState (lib_Flags cred),
                 cred_Name = None, cred_CreatedAt = 0, LastUsedAt = None\<rparr>
      in if au_AAGUID (lib_Authenticator cred) \<noteq> []
         then map_option (\<lambda>i. out\<lparr>AAGUID := Some i\<rparr>) (uuid_FromBytes L (au_AAGUID (lib_Authenticator cred)))
         else Some out)"

definition libCredentialFromDomain :: "credential \<Rightarrow> lib_credential" where
  "libCredentialFromDomain c =
     \<lparr>lib_ID = CredentialID c, lib_PublicKey = PublicKey c,
      lib_AttestationType = '''', lib_AttestationFormat = '''', lib_Transport = Transports c,
      lib_Flags = \<lparr>fl_BackupEligible = BackupEligible c, fl_BackupState = BackupState c\<rparr>,
      lib_Authenticator =
        \<lparr>au_AAGUID = (case AAGUID c of None \<Rightarrow> [] | Some i \<Rightarrow> uuid_bytes i), au_SignCount = SignCount c\<rparr>\<rparr>"

section \<open>Registration\<close>

definition BeginRegister :: "('rd, 'sess, 'pc, 'pa) auth_env \<Rightarrow> request \<Rightarrow> ('rd, response) handler_act" where
  "BeginRegister env r =
     bindE (decodeBegin r) (\<lambda>req.
     bindE (tryE (UserStore_GetByUsername (begin_Username req))) (\<lambda>looked.
     bindE (case looked of
         Inr _ \<Rightarrow> reject 409 ''username_taken''
       | Inl e \<Rightarrow> if e = ErrUserNotFound then ret () else internal ''register: lookup username'') (\<lambda>_.
     bindE (orInternal ''register: user handle'' NewUserHandle) (\<lambda>handle.
     bindE (orInternal ''register: session id'' newSessionID) (\<lambda>sessionID.
     bindE (orInternal ''register: webauthn begin'' (Service_BeginRegistration (env_webauthn env)
         \<lparr>Handle = handle, wa_Name = begin_Username req, wa_DisplayName = begin_DisplayName req,
          wa_Credentials = None\<rparr> sessionID)) (\<lambda>(options, session).
     bindE (someOrInternal ''register: marshal session'' (marshal_registrationSession env
         \<lparr>reg_Session = session, reg_Username = begin_Username req,
          reg_DisplayName = begin_DisplayName req, reg_PromoteUserID = uuid_Nil, reg_Promote = False\<rparr>))
       (\<lambda>payload.
     bindE (orInternal ''register: save challenge''
         (ChallengeStore_Save (env_redis env) (env_challengeTTL env) sessionID payload)) (\<lambda>_.
     writeJSON 200 options))))))))"

definition CompleteRegister :: "('rd, 'sess, 'pc, 'pa) auth_env \<Rightarrow> request \<Rightarrow> ('rd, response) handler_act" where
  "CompleteRegister env r =
     bindE (decodeComplete r) (\<lambda>(sessionID, body).
     bindE (takeChallenge env ''register complete: take challenge'' sessionID) (\<lambda>raw.
     bindE (someOrInternal ''register complete: unmarshal session''
         (unmarshal_registrationSession env raw)) (\<lambda>stored.
     if reg_Promote stored then reject 401 ''session_invalid'' else
     let waUser = \<lparr>Handle = sess_UserID (env_webauthn env) (reg_Session stored),
                   wa_Name = reg_Username stored, wa_DisplayName = reg_DisplayName stored,
                   wa_Credentials = None\<rparr> in
     bindE (verifyAttestation env ''register complete: parse credential''
         ''register complete: verify attestation'' waUser (reg_Session stored) body) (\<lambda>cred.
     bindE (catchE (UserStore_CreateRegistered (reg_Username stored) (reg_DisplayName stored)) (\<lambda>e.
         if e = ErrUsernameTaken then reject 409 ''username_taken''
         else internal ''register complete: create user'')) (\<lambda>user.
     bindE (someOrInternal ''register complete: convert credential''
         (domainCredentialFromLib (env_uuid env) (user_ID user) (Handle waUser) cred)) (\<lambda>domainCred.
     bindE (catchE (CredentialStore_Insert domainCred) (\<lambda>e.
         if e = ErrCredentialExists then reject 409 ''credential_exists''
         else internal ''register complete: insert credential'')) (\<lambda>saved.
     writeJSON 200 (completeRegisterResponse env (user_ID user) (cred_ID saved)))))))))"

section \<open>Login\<close>

definition BeginLogin :: "('rd, 'sess, 'pc, 'pa) auth_env \<Rightarrow> request \<Rightarrow> ('rd, response) handler_act" where
  "BeginLogin env r =
     bindE (orInternal ''login: session id'' newSessionID) (\<lambda>sessionID.
     bindE (orInternal ''login: webauthn begin'' (Service_BeginLogin (env_webauthn env) sessionID))
       (\<lambda>(options, session).
     bindE (someOrInternal ''login: marshal session''
         (marshal_loginSession env \<lparr>login_Session = session\<rparr>)) (\<lambda>payload.
     bindE (orInternal ''login: save challenge''
         (ChallengeStore_Save (env_redis env) (env_challengeTTL env) sessionID payload)) (\<lambda>_.
     writeJSON 200 options))))"

text \<open>
  The resolver closure of \<open>CompleteLogin\<close>. Its two captured variables are
  \<open>resolvedUser\<close> and \<open>resolvedCred\<close>; the library's arguments are ignored, the lookup
  goes by the raw id of the parsed assertion.
\<close>

type_synonym resolved = "user option \<times> credential option"

definition resolver ::
  "('sess, 'pc, 'pa) webauthn_lib \<Rightarrow> 'pa \<Rightarrow> slice \<Rightarrow> slice \<Rightarrow> resolved
    \<Rightarrow> ('rd, wa_user option \<times> resolved) store_act" where
  "resolver W parsed rawID userHandle c =
     bindE (tryE (CredentialStore_GetByCredentialID (pa_RawID W parsed))) (\<lambda>x. case x of
       Inl _ \<Rightarrow> ret (None, c)
     | Inr dbCred \<Rightarrow>
         bindE (tryE (UserStore_GetByID (cred_UserID dbCred))) (\<lambda>y. case y of
           Inl _ \<Rightarrow> ret (None, c)
         | Inr dbUser \<Rightarrow>
             ret (Some \<lparr>Handle = WebAuthnUserHandle dbCred, wa_Name = Username dbUser,
                        wa_DisplayName = DisplayName dbUser,
                        wa_Credentials = Some [libCredentialFromDomain dbCred]\<rparr>,
                  (Some dbUser, Some dbCred))))"

definition recordCounterAnomalies ::
  "uuid_lib \<Rightarrow> credential \<Rightarrow> lib_credential \<Rightarrow> ('rd world, 'e, unit) act" where
  "recordCounterAnomalies L stored asserted =
     bindE (whenE (SignCount stored > 0 \<and> au_SignCount (lib_Authenticator asserted) = 0)
              (logE LevelWarn ''passkey counter reset'')) (\<lambda>_.
     bindE (case AAGUID stored of
              None \<Rightarrow> ret ()
            | Some storedID \<Rightarrow>
                whenE (au_AAGUID (lib_Authenticator asserted) \<noteq> [])
                  (case uuid_FromBytes L (au_AAGUID (lib_Authenticator asserted)) of
                     None \<Rightarrow> ret ()
                   | Some assertedID \<Rightarrow> whenE (storedID \<noteq> assertedID)
                       (logE LevelWarn ''passkey aaguid mismatch''))) (\<lambda>_.
     whenE (BackupEligible stored \<noteq> fl_BackupEligible (lib_Flags asserted)
            \<or> BackupState stored \<noteq> fl_BackupState (lib_Flags asserted))
       (logE LevelWarn ''passkey backup flags changed'')))"

text \<open>
  \<open>if gc, err := r.Cookie(GuestCookieName); \<dots> { Delete; clearGuestCookie }\<close>, which ends
  both flows that issue a session.
\<close>

definition dropGuest ::
  "('rd, 'sess, 'pc, 'pa) auth_env \<Rightarrow> string \<Rightarrow> request \<Rightarrow> ('rd, unit) handler_act" where
  "dropGuest env msg r = (case cookie_value GuestCookieName r of
      None \<Rightarrow> ret ()
    | Some tok \<Rightarrow>
        bindE (catchE (GuestStore_Delete (env_redis env) tok) (\<lambda>_. logE LevelWarn msg)) (\<lambda>_.
        clearGuestCookie r))"

definition CompleteLogin :: "('rd, 'sess, 'pc, 'pa) auth_env \<Rightarrow> request \<Rightarrow> ('rd, response) handler_act" where
  "CompleteLogin env r =
     bindE (decodeComplete r) (\<lambda>(sessionID, body).
     bindE (takeChallenge env ''login complete: take challenge'' sessionID) (\<lambda>raw.
     bindE (someOrInternal ''login complete: unmarshal session''
         (unmarshal_loginSession env raw)) (\<lambda>stored.
     bindE (catchE (Service_ParseCredentialAssertion (env_webauthn env) body)
         (\<lambda>_. warnReject ''login complete: parse credential'' 400 ''invalid_request'')) (\<lambda>parsed.
     bindE (catchE (Service_ValidateLogin (env_webauthn env) (resolver (env_webauthn env) parsed)
              (None, None) (login_Session stored) parsed)
         (\<lambda>_. warnReject ''login complete: validate'' 401 ''unauthorized'')) (\<lambda>(cred, c).
     case c of
       (Some resolvedUser, Some resolvedCred) \<Rightarrow>
         bindE (recordCounterAnomalies (env_uuid env) resolvedCred cred) (\<lambda>_.
         bindE (orInternal ''login complete: update credential''
             (CredentialStore_UpdateAfterAssertion (cred_ID resolvedCred)
                (au_SignCount (lib_Authenticator cred)) (fl_BackupEligible (lib_Flags cred))
                (fl_BackupState (lib_Flags cred)))) (\<lambda>_.
         bindE (orInternal ''login complete: create session''
             (SessionStore_Create (env_redis env) (env_uuid env) (env_sessionTTL env)
                (user_ID resolvedUser))) (\<lambda>token.
         bindE (setSessionCookie r token (sessionMaxAge env)) (\<lambda>_.
         bindE (dropGuest env ''login complete: delete guest'' r) (\<lambda>_.
         writeJSON 200 (completeLoginResponse env resolvedUser))))))
     | _ \<Rightarrow> internal ''login complete: resolver bypassed'')))))"

definition Logout :: "('rd, 'sess, 'pc, 'pa) auth_env \<Rightarrow> request \<Rightarrow> ('rd, response) handler_act" where
  "Logout env r =
     bindE (case cookie_value SessionCookieName r of
         None \<Rightarrow> ret ()
       | Some tok \<Rightarrow> catchE (SessionStore_Delete (env_redis env) tok)
                      (\<lambda>_. logE LevelWarn ''logout: delete session'')) (\<lambda>_.
     bindE (clearSessionCookie r) (\<lambda>_.
     writeStatus 204))"

section \<open>Guests and promotion\<close>

text \<open>\<open>resolveGuest\<close>: the boolean of the source is the option.\<close>

definition resolveGuest ::
  "('rd, 'sess, 'pc, 'pa) auth_env \<Rightarrow> request \<Rightarrow> ('rd world, 'e, user option) act" where
  "resolveGuest env r = (case cookie_value GuestCookieName r of
      None \<Rightarrow> ret None
    | Some tok \<Rightarrow>
        bindE (tryE (GuestStore_Get (env_redis env) (env_uuid env) tok)) (\<lambda>x. case x of
          Inl _ \<Rightarrow> ret None
        | Inr userID \<Rightarrow>
            bindE (tryE (UserStore_GetByID userID)) (\<lambda>y. case y of
              Inl _ \<Rightarrow> ret None | Inr user \<Rightarrow> ret (Some user))))"

text \<open>
  \<open>Guest\<close> opens with the same three nested lookups as \<open>resolveGuest\<close>, and with the test
  that the row is still a guest.
\<close>

definition Guest :: "('rd, 'sess, 'pc, 'pa) auth_env \<Rightarrow> request \<Rightarrow> ('rd, response) handler_act" where
  "Guest env r =
     bindE (resolveGuest env r) (\<lambda>known.
     bindE (case known of
         None \<Rightarrow> ret ()
       | Some user \<Rightarrow>
           whenE (IsGuest user) (bindE (writeJSON 200 (guestResponse env (user_ID user))) failE)) (\<lambda>_.
     bindE next_call (\<lambda>n.
     bindE (orInternal ''guest: create user''
         (UserStore_CreateGuest (''guest-'' @ uuid_NewString (env_uuid env) n) ''Guest'')) (\<lambda>user.
     bindE (orInternal ''guest: mint token''
         (GuestStore_Create (env_redis env) (env_uuid env) (env_guestTTL env) (user_ID user))) (\<lambda>token.
     bindE (setGuestCookie r token (guestMaxAge env)) (\<lambda>_.
     writeJSON 200 (guestResponse env (user_ID user))))))))"

definition BeginPromote :: "('rd, 'sess, 'pc, 'pa) auth_env \<Rightarrow> request \<Rightarrow> ('rd, response) handler_act" where
  "BeginPromote env r =
     bindE (decodeBegin r) (\<lambda>req.
     bindE (resolveGuest env r) (\<lambda>known.
     bindE (case known of
         None \<Rightarrow> reject 401 ''guest_invalid''
       | Some guest \<Rightarrow> if \<not> IsGuest guest then reject 409 ''not_a_guest'' else ret guest) (\<lambda>guest.
     bindE (orInternal ''promote: user handle'' NewUserHandle) (\<lambda>handle.
     bindE (orInternal ''promote: session id'' newSessionID) (\<lambda>sessionID.
     bindE (orInternal ''promote: webauthn begin'' (Service_BeginRegistration (env_webauthn env)
         \<lparr>Handle = handle, wa_Name = begin_Username req, wa_DisplayName = begin_DisplayName req,
          wa_Credentials = None\<rparr> sessionID)) (\<lambda>(options, session).
     bindE (someOrInternal ''promote: marshal session'' (marshal_registrationSession env
         \<lparr>reg_Session = session, reg_Username = begin_Username req,
          reg_DisplayName = begin_DisplayName req, reg_PromoteUserID = user_ID guest, reg_Promote = True\<rparr>))
       (\<lambda>payload.
     bindE (orInternal ''promote: save challenge''
         (ChallengeStore_Save (env_redis env) (env_challengeTTL env) sessionID payload)) (\<lambda>_.
     writeJSON 200 options))))))))"

definition CompletePromote :: "('rd, 'sess, 'pc, 'pa) auth_env \<Rightarrow> request \<Rightarrow> ('rd, response) handler_act" where
  "CompletePromote env r =
     bindE (decodeComplete r) (\<lambda>(sessionID, body).
     bindE (takeChallenge env ''promote complete: take challenge'' sessionID) (\<lambda>raw.
     bindE (someOrInternal ''promote complete: unmarshal session''
         (unmarshal_registrationSession env raw)) (\<lambda>stored.
     if \<not> reg_Promote stored then reject 401 ''session_invalid'' else
     let waUser = \<lparr>Handle = sess_UserID (env_webauthn env) (reg_Session stored),
                   wa_Name = reg_Username stored, wa_DisplayName = reg_DisplayName stored,
                   wa_Credentials = None\<rparr> in
     bindE (verifyAttestation env ''promote complete: parse credential''
         ''promote complete: verify attestation'' waUser (reg_Session stored) body) (\<lambda>cred.
     bindE (catchE (UserStore_PromoteGuest (reg_PromoteUserID stored) (reg_Username stored)
              (reg_DisplayName stored)) (\<lambda>e.
         if e = ErrUsernameTaken then reject 409 ''username_taken''
         else if e = ErrUserNotFound then reject 409 ''not_a_guest''
         else internal ''promote complete: promote user'')) (\<lambda>promoted.
     bindE (someOrInternal ''promote complete: convert credential''
         (domainCredentialFromLib (env_uuid env) (user_ID promoted) (Handle waUser) cred)) (\<lambda>domainCred.
     bindE (catchE (CredentialStore_Insert domainCred) (\<lambda>e.
         if e = ErrCredentialExists then reject 409 ''credential_exists''
         else internal ''promote complete: insert credential'')) (\<lambda>_.
     bindE (orInternal ''promote complete: create session''
         (SessionStore_Create (env_redis env) (env_uuid env) (env_sessionTTL env) (user_ID promoted)))
       (\<lambda>token.
     bindE (dropGuest env ''promote complete: delete guest'' r) (\<lambda>_.
     bindE (setSessionCookie r token (sessionMaxAge env)) (\<lambda>_.
     writeJSON 200 (completeLoginResponse env promoted)))))))))))"

section \<open>Frames\<close>

text \<open>
  What the fragments and the handlers leave alone, for every projection \<open>f\<close> that does not
  look at the parts they touch.
\<close>

lemma keeps_orInternal [keeps_rules]:
  "(\<And>w k. f (w\<lparr>w_log := k\<rparr>) = f w) \<Longrightarrow> keeps f m \<Longrightarrow> keeps f (orInternal msg m)"
  unfolding orInternal_def by (intro keeps_rules)

lemma keeps_newSessionID [keeps_rules]: "(\<And>w k. f (w\<lparr>w_epos := k\<rparr>) = f w) \<Longrightarrow> keeps f newSessionID"
  unfolding newSessionID_def by (intro keeps_rules)

lemma keeps_fragments [keeps_rules]:
  assumes "\<And>w k. f (w\<lparr>w_log := k\<rparr>) = f w"
  shows "keeps f (decodeBody fs z r)" and "keeps f (someOrInternal msg x)" and "keeps f (decodeBegin r)"
    and "keeps f (decodeComplete r)" and "keeps f (warnReject msg s c)"
    and "keeps f (verifyAttestation env m1 m2 u d b)" and "keeps f (recordCounterAnomalies L old new)"
  unfolding decodeBody_def someOrInternal_def decodeBegin_def decodeComplete_def warnReject_def
    verifyAttestation_def recordCounterAnomalies_def
  by (intro keeps_rules assms)+

lemma keeps_takeChallenge [keeps_rules]:
  "(\<And>w k. f (w\<lparr>w_log := k\<rparr>) = f w) \<Longrightarrow> (\<And>w k. f (w\<lparr>w_rd := k\<rparr>) = f w) \<Longrightarrow>
   keeps f (takeChallenge env msg i)"
  unfolding takeChallenge_def by (intro keeps_rules)

lemma keeps_resolver [keeps_rules]:
  "(\<And>w k. f (w\<lparr>w_pg := k\<rparr>) = f w) \<Longrightarrow> keeps f (resolver W p a b c)"
  unfolding resolver_def by (intro keeps_rules)

lemma keeps_dropGuest [keeps_rules]:
  "(\<And>w k. f (w\<lparr>w_log := k\<rparr>) = f w) \<Longrightarrow> (\<And>w k. f (w\<lparr>w_rd := k\<rparr>) = f w) \<Longrightarrow>
   (\<And>w k. f (w\<lparr>w_header := k\<rparr>) = f w) \<Longrightarrow> keeps f (dropGuest env msg r)"
  unfolding dropGuest_def by (intro keeps_rules)

lemma keeps_resolveGuest [keeps_rules]:
  "(\<And>w k. f (w\<lparr>w_rd := k\<rparr>) = f w) \<Longrightarrow> (\<And>w k. f (w\<lparr>w_pg := k\<rparr>) = f w) \<Longrightarrow>
   keeps f (resolveGuest env r)"
  unfolding resolveGuest_def by (intro keeps_rules)

lemma keeps_begin_handlers [keeps_rules]:
  assumes "\<And>w k. f (w\<lparr>w_log := k\<rparr>) = f w" "\<And>w k. f (w\<lparr>w_rd := k\<rparr>) = f w"
    "\<And>w k. f (w\<lparr>w_pg := k\<rparr>) = f w" "\<And>w k. f (w\<lparr>w_epos := k\<rparr>) = f w"
    "\<And>w k. f (w\<lparr>w_calls := k\<rparr>) = f w" "\<And>w k. f (w\<lparr>w_header := k\<rparr>) = f w"
  shows "keeps f (BeginRegister env r)" and "keeps f (BeginLogin env r)"
    and "keeps f (BeginPromote env r)" and "keeps f (Logout env r)"
  unfolding BeginRegister_def BeginLogin_def BeginPromote_def Logout_def
  by (intro keeps_rules assms)+

section \<open>What the resolver finds\<close>

text \<open>
  The pair of captured variables is either still empty or holds a live credential with the
  raw id of the assertion together with the user who owns it.
\<close>

definition resolved_ok :: "('sess, 'pc, 'pa) webauthn_lib \<Rightarrow> 'pa \<Rightarrow> resolved \<Rightarrow> 'rd world \<Rightarrow> bool" where
  "resolved_ok W p c w \<longleftrightarrow> c = (None, None) \<or>
     (\<exists>r \<in> set (w_creds w). \<exists>u \<in> set (w_users w). live r \<and> Some (credential_id r) = pa_RawID W p
        \<and> user_ID u = user_id r \<and> c = (Some u, Some (scan_row r)))"

lemma resolved_ok_cong: "db w' = db w \<Longrightarrow> resolved_ok W p c w' = resolved_ok W p c w"
  by (simp add: resolved_ok_def db_def)

lemma tryE_Inr: "tryE m w = (Inr x, w') \<longleftrightarrow> m w = (x, w')"
  by (auto simp: tryE_def split: prod.splits)

lemma resolver_total: "\<exists>x w'. resolver W p a b c w = (Inr x, w')"
  by (auto simp: resolver_def bindE_def ret_def tryE_def split: prod.splits sum.splits)

lemma resolver_resolves:
  assumes "resolver W p a b c w = (Inr (u, c'), w')" and "resolved_ok W p c w"
  shows "resolved_ok W p c' w'"
proof -
  have db: "db w' = db w"
    using assms(1) by (rule keepsD [OF keeps_resolver, rotated]) simp
  have "resolved_ok W p c' w"
  proof (cases "c' = c")
    case False
    then obtain cr usr w1 w2 where cr: "CredentialStore_GetByCredentialID (pa_RawID W p) w = (Inr cr, w1)"
      and usr: "UserStore_GetByID (cred_UserID cr) w1 = (Inr usr, w2)" and c': "c' = (Some usr, Some cr)"
      using assms(1)
      by (auto simp: resolver_def ret_def tryE_Inr elim!: bindE_InrE split: sum.splits)
    from cr obtain r where "r \<in> set (w_creds w)" "live r" "Some (credential_id r) = pa_RawID W p" "cr = scan_row r"
      and "w_users w1 = w_users w"
      by (auto elim!: GetByCredentialID_Inr)
    then show ?thesis
      using GetByID_Inr(1,2) [OF usr] c' by (auto simp: resolved_ok_def)
  qed (use assms(2) in simp)
  then show ?thesis
    unfolding resolved_ok_cong [OF db] .
qed

lemma run_login_resolves:
  "run_login prog (resolver W p) c w = (Inr (res, c'), w') \<Longrightarrow> resolved_ok W p c w \<Longrightarrow> resolved_ok W p c' w'"
proof (induction prog arbitrary: c w)
  case (CallHandler a b k)
  from CallHandler.prems(1) obtain u c1 w1 where "resolver W p a b c w = (Inr (u, c1), w1)"
    and "run_login (k u) (resolver W p) c1 w1 = (Inr (res, c'), w')"
    by (auto elim!: bindE_InrE)
  with CallHandler show ?case by (blast dest: resolver_resolves)
qed (simp add: ret_def)

lemma ValidateLogin_resolves:
  assumes "Service_ValidateLogin W (resolver W p) (None, None) sess p w = (Inr (cred, c), w')"
  shows "resolved_ok W p c w'"
  using assms
  by (auto simp: Service_ValidateLogin_def getE_def ret_def failE_def resolved_ok_def [of W p "(None, None)"]
      elim!: bindE_InrE split: option.splits dest!: run_login_resolves)

end
