(* ===== verification/Middleware.thy ===== *)
theory Middleware
  imports Auth_Handler
begin

text \<open>
  \<open>internal/api/middleware\<close>: the session check in front of \<open>/users/me\<close>
  (\<open>session.go\<close>) and the request log (\<open>logger.go\<close>). A middleware takes the next handler
  and returns a handler.
\<close>

type_synonym 'rd handler = "request \<Rightarrow> ('rd, response) handler_act"

section \<open>session.go\<close>

definition UserIDFromContext :: "request \<Rightarrow> uuid option" where
  "UserIDFromContext r = ctx_user r"

definition writeUnauthorized :: "('rd, response) handler_act" where
  "writeUnauthorized = writeJSON 401 (errorBody ''unauthorized'' ''Authentication required.'')"

definition writeInternalError :: "('rd, response) handler_act" where
  "writeInternalError = writeJSON 500 (errorBody ''internal_error'' ''Internal server error.'')"

definition RequireSession :: "'rd redis_client \<Rightarrow> uuid_lib \<Rightarrow> 'rd handler \<Rightarrow> 'rd handler" where
  "RequireSession R L next r = (case cookie_value SessionCookieName r of
      None \<Rightarrow> bindE writeUnauthorized failE
    | Some tok \<Rightarrow>
        bindE (catchE (SessionStore_Get R L tok) (\<lambda>e.
            if e = ErrSessionNotFound then bindE writeUnauthorized failE
            else bindE (logE LevelError ''session lookup'') (\<lambda>_. bindE writeInternalError failE)))
          (\<lambda>userID. next (r\<lparr>ctx_user := Some userID\<rparr>)))"

section \<open>logger.go\<close>

definition skipLogging :: "string \<Rightarrow> bool" where
  "skipLogging path \<longleftrightarrow> path = ''/health'' \<or> path = ''/health/ready''"

text \<open>
  The variadic key and value list, and \<open>toAttrs\<close>, which pairs it up, ignores an odd last
  element and uses the empty key where a key is not a string.
\<close>

fun toAttrs :: "attr_value list \<Rightarrow> (string \<times> attr_value) list" where
  "toAttrs (k # v # kv) = ((case k of AStr s \<Rightarrow> s | AInt _ \<Rightarrow> ''''), v) # toAttrs kv"
| "toAttrs _ = []"

text \<open>What chi's wrapper and context report of a request.\<close>

record chi_log =
  chi_BytesWritten :: "response \<Rightarrow> int"
  chi_GetReqID :: "request \<Rightarrow> string"

definition requestLevel :: "nat \<Rightarrow> level" where
  "requestLevel status =
     (if 500 \<le> status then LevelError else if 400 \<le> status then LevelWarn else LevelInfo)"

definition requestAttrs ::
  "chi_log \<Rightarrow> uuid_lib \<Rightarrow> request \<Rightarrow> response \<Rightarrow> duration \<Rightarrow> attr_value list" where
  "requestAttrs C L r resp elapsed =
     [AStr ''method'', AStr (req_Method r), AStr ''path'', AStr (req_Path r),
      AStr ''status'', AInt (int (resp_Status resp)), AStr ''bytes'', AInt (chi_BytesWritten C resp),
      AStr ''duration_ms'', AInt (elapsed div 1000000), AStr ''remote_ip'', AStr (req_RemoteAddr r),
      AStr ''request_id'', AStr (chi_GetReqID C r)]
     @ (case UserIDFromContext r of
          None \<Rightarrow> [] | Some userID \<Rightarrow> [AStr ''user_id'', AStr (uuid_String L userID)])"

definition RequestLogger :: "chi_log \<Rightarrow> uuid_lib \<Rightarrow> 'rd handler \<Rightarrow> 'rd handler" where
  "RequestLogger C L next r =
     (if skipLogging (req_Path r) then next r
      else (\<lambda>w. case serve (next r) w of (resp, w') \<Rightarrow>
        (Inr resp, w'\<lparr>w_log := w_log w' @
           [\<lparr>log_level = requestLevel (resp_Status resp), log_msg = ''http request'',
             log_attrs = toAttrs (requestAttrs C L r resp (w_now w' - w_now w))\<rparr>]\<rparr>)))"

section \<open>Frames\<close>

lemma keeps_RequireSession [keeps_rules]:
  assumes "\<And>w k. f (w\<lparr>w_rd := k\<rparr>) = f w" and "\<And>w k. f (w\<lparr>w_log := k\<rparr>) = f w"
    and "\<And>r. keeps f (next r)"
  shows "keeps f (RequireSession R L next r)"
  unfolding RequireSession_def writeUnauthorized_def writeInternalError_def
  by (intro keeps_rules assms)

lemma keeps_RequestLogger [keeps_rules]:
  assumes "\<And>w k. f (w\<lparr>w_log := k\<rparr>) = f w" and "keeps f (next r)"
  shows "keeps f (RequestLogger C L next r)"
  using assms
  by (auto simp: RequestLogger_def intro!: keepsI dest: keeps_serve split: prod.splits)
     (metis assms keeps_serve snd_conv)

lemma serve_RequestLogger_state:
  "\<exists>l. snd (serve (RequestLogger C L next r) w) = (snd (serve (next r) w))\<lparr>w_log := l\<rparr>"
proof (cases "skipLogging (req_Path r)")
  case True
  then show ?thesis by (auto simp: RequestLogger_def intro: exI [of _ "w_log (snd (serve (next r) w))"])
next
  case False
  then show ?thesis by (auto simp: RequestLogger_def serve_def [of "\<lambda>w. _ w"] split: prod.split)
qed

lemma serve_RequestLogger:
  "fst (serve (RequestLogger C L next r) w) = fst (serve (next r) w)"
  by (auto simp: RequestLogger_def serve_def split: prod.split sum.split)

end
