(* ===== verification/User_Handler.thy ===== *)
theory User_Handler
  imports Middleware
begin

text \<open>
  \<open>internal/api/handler/user.go\<close>: the endpoints under \<open>/users/me\<close>. They run behind
  \<open>RequireSession\<close>, which puts the user id into the request.
\<close>

section \<open>Responses\<close>

text \<open>An instant is printed by \<open>time.Time\<close>'s \<open>MarshalJSON\<close>, here a function \<open>T\<close>.\<close>

definition meResponse :: "uuid_lib \<Rightarrow> user \<Rightarrow> json" where
  "meResponse L u =
     JObj [(''user_id'', JStr (uuid_String L (user_ID u))), (''username'', JStr (Username u)),
           (''display_name'', JStr (DisplayName u)), (''is_guest'', JBool (IsGuest u))]"

definition omit_empty :: "string \<Rightarrow> ('a \<Rightarrow> json) \<Rightarrow> 'a option \<Rightarrow> (string \<times> json) list" where
  "omit_empty k f x = (case x of None \<Rightarrow> [] | Some a \<Rightarrow> [(k, f a)])"

definition credentialResponse :: "uuid_lib \<Rightarrow> (time \<Rightarrow> string) \<Rightarrow> credential \<Rightarrow> json" where
  "credentialResponse L T c =
     JObj ([(''id'', JStr (uuid_String L (cred_ID c)))]
       @ omit_empty ''name'' JStr (cred_Name c)
       @ omit_empty ''aaguid'' (\<lambda>i. JStr (uuid_String L i)) (AAGUID c)
       @ [(''transports'', JArr (map JStr (Transports c))),
          (''backup_eligible'', JBool (BackupEligible c)), (''backup_state'', JBool (BackupState c)),
          (''created_at'', JStr (T (cred_CreatedAt c)))]
       @ omit_empty ''last_used_at'' (\<lambda>t. JStr (T t)) (LastUsedAt c))"

section \<open>Handlers\<close>

text \<open>\<open>userID, ok := middleware.UserIDFromContext(r.Context()); if !ok \<dots>\<close>\<close>

definition requireUser :: "request \<Rightarrow> ('rd, uuid) handler_act" where
  "requireUser r = (case UserIDFromContext r of
      None \<Rightarrow> reject 401 ''unauthorized'' | Some u \<Rightarrow> ret u)"

definition Me :: "uuid_lib \<Rightarrow> 'rd handler" where
  "Me L r =
     bindE (requireUser r) (\<lambda>userID.
     bindE (catchE (UserStore_GetByID userID) (\<lambda>e.
         if e = ErrUserNotFound then reject 401 ''unauthorized'' else internal ''user me: get user''))
       (\<lambda>user.
     writeJSON 200 (meResponse L user)))"

definition ListCredentials :: "uuid_lib \<Rightarrow> (time \<Rightarrow> string) \<Rightarrow> 'rd handler" where
  "ListCredentials L T r =
     bindE (requireUser r) (\<lambda>userID.
     bindE (orInternal ''list credentials'' (CredentialStore_ListByUserID userID)) (\<lambda>creds.
     writeJSON 200 (JArr (map (credentialResponse L T) creds))))"

definition DeleteCredential :: "uuid_lib \<Rightarrow> 'rd handler" where
  "DeleteCredential L r =
     bindE (requireUser r) (\<lambda>userID.
     bindE (case uuid_Parse L (url_id r) of
         None \<Rightarrow> reject 400 ''invalid_request'' | Some i \<Rightarrow> ret i) (\<lambda>credID.
     bindE (orInternal ''delete credential: list'' (CredentialStore_ListByUserID userID)) (\<lambda>owned.
     if \<not> (\<exists>c \<in> set owned. cred_ID c = credID) then reject 404 ''not_found'' else
     bindE (catchE (CredentialStore_SoftDelete credID) (\<lambda>e.
         if e = ErrLastCredential then reject 409 ''last_credential''
         else if e = ErrCredentialNotFound then reject 404 ''not_found''
         else internal ''delete credential: soft delete'')) (\<lambda>_.
     writeStatus 204))))"

end
