(* ===== verification/Health_Handler.thy ===== *)
theory Health_Handler
  imports Middleware
begin

text \<open>
  \<open>internal/api/handler/health.go\<close>: liveness and readiness. A dependency is a ping that
  succeeds or fails; it is optional, as in the source.
\<close>

record 'rd health_deps =
  health_Postgres :: "('rd, unit) store_act option"
  health_Redis :: "('rd, unit) store_act option"

text \<open>
  What the server wires in: the pool's \<open>Ping\<close>, which runs an empty statement, and the
  adapter \<open>redisPinger\<close> around the client's \<open>Ping\<close> (\<open>cmd/server/main.go\<close>).
\<close>

definition pgPing :: "('rd, unit) store_act" where
  "pgPing = catchE (pg_stmt (ret ())) (\<lambda>p. failE (Wrapped ''ping'' (PgCause p)))"

definition redisPinger_Ping :: "'rd redis_client \<Rightarrow> ('rd, unit) store_act" where
  "redisPinger_Ping R = redisDo ''ping'' (\<lambda>_. rc_Ping R)"

definition newHealth :: "'rd redis_client \<Rightarrow> 'rd health_deps" where
  "newHealth R = \<lparr>health_Postgres = Some pgPing, health_Redis = Some (redisPinger_Ping R)\<rparr>"

definition readyResponse :: "string \<Rightarrow> string option \<Rightarrow> string option \<Rightarrow> json" where
  "readyResponse status pg rd =
     JObj ([(''status'', JStr status)]
       @ (case pg of None \<Rightarrow> [] | Some s \<Rightarrow> [(''postgres'', JStr s)])
       @ (case rd of None \<Rightarrow> [] | Some s \<Rightarrow> [(''redis'', JStr s)]))"

definition pingStatusOf :: "('rd, unit) store_act \<Rightarrow> ('rd world, 'e, string) act" where
  "pingStatusOf p = bindE (tryE p) (\<lambda>x. case x of Inl _ \<Rightarrow> ret ''down'' | Inr _ \<Rightarrow> ret ''ok'')"

text \<open>The status of an optional dependency; \<open>None\<close> is the empty string of the source.\<close>

definition probe :: "('rd, unit) store_act option \<Rightarrow> ('rd world, 'e, string option) act" where
  "probe dep = (case dep of
      None \<Rightarrow> ret None | Some p \<Rightarrow> bindE (pingStatusOf p) (\<lambda>s. ret (Some s)))"

definition Live :: "'rd handler" where
  "Live r = writeJSON 200 (JObj [(''status'', JStr ''ok'')])"

definition Ready :: "'rd health_deps \<Rightarrow> 'rd handler" where
  "Ready h r =
     bindE (probe (health_Postgres h)) (\<lambda>pg.
     bindE (probe (health_Redis h)) (\<lambda>rd.
     let degraded = (pg \<noteq> None \<and> pg \<noteq> Some ''ok'') \<or> (rd \<noteq> None \<and> rd \<noteq> Some ''ok'');
         status = (if degraded then ''degraded'' else ''ok'')
     in writeJSON (if status \<noteq> ''ok'' then 503 else 200) (readyResponse status pg rd)))"

section \<open>Property\<close>

lemma pingStatusOf_eq:
  "pingStatusOf p w = (Inr (if isl (fst (p w)) then ''down'' else ''ok''), snd (p w))"
  by (simp add: pingStatusOf_def act_defs split: prod.split sum.split)

text \<open>
  Readiness is exact. The endpoint pings PostgreSQL and then Redis, both in every case,
  and answers 200 \<open>ok\<close> if both pings succeed and 503 \<open>degraded\<close> if one of them fails; the
  body names for each of the two whether it is up.
\<close>

lemma Ready_status:
  "serve (Ready (newHealth R) r) w =
    (case pgPing w of (pg, w1) \<Rightarrow> case redisPinger_Ping R w1 of (rd, w2) \<Rightarrow>
      (let ok = \<not> isl pg \<and> \<not> isl rd; name = (\<lambda>down. if down then ''down'' else ''ok'') in
       (\<lparr>resp_Status = (if ok then 200 else 503), resp_JSON = True, resp_Cookies = w_header w2,
         resp_Body = Some (readyResponse (if ok then ''ok'' else ''degraded'')
           (Some (name (isl pg))) (Some (name (isl rd)))), resp_Page = None\<rparr>, w2)))"
proof -
  obtain pg w1 rd w2 where "pgPing w = (pg, w1)" "redisPinger_Ping R w1 = (rd, w2)"
    by (cases "pgPing w"; cases "redisPinger_Ping R (snd (pgPing w))") auto
  then show ?thesis
    by (simp add: Ready_def newHealth_def probe_def serve_def bindE_def pingStatusOf_eq ret_def writeJSON_def
        getE_def Let_def)
qed

end
