(* ===== verification/Router.thy ===== *)
theory Router
  imports User_Handler Health_Handler
begin

text \<open>
  \<open>internal/api/router.go\<close>: the URL surface, and the service as a state machine whose steps
  are requests. The matching of a path against the patterns belongs to chi, so it is a
  parameter; what the program contributes is the table of routes, the handler behind each
  route and the middleware in front of it.
\<close>

section \<open>The route table\<close>

datatype endpoint =
    EpLive | EpReady | EpIndex string
  | EpBeginRegister | EpCompleteRegister | EpBeginLogin | EpCompleteLogin
  | EpLogout | EpGuest | EpBeginPromote | EpCompletePromote
  | EpMe | EpListCredentials | EpDeleteCredential

text \<open>The route of the demo page is there only if the embedded file could be read.\<close>

definition routes :: "string option \<Rightarrow> (string \<times> string \<times> endpoint) list" where
  "routes indexHTML =
     [(''GET'', ''/health'', EpLive),
      (''GET'', ''/health/ready'', EpReady)]
     @ (case indexHTML of None \<Rightarrow> [] | Some page \<Rightarrow> [(''GET'', ''/'', EpIndex page)]) @
     [(''POST'', ''/api/v1/auth/register/begin'', EpBeginRegister),
      (''POST'', ''/api/v1/auth/register/complete'', EpCompleteRegister),
      (''POST'', ''/api/v1/auth/login/begin'', EpBeginLogin),
      (''POST'', ''/api/v1/auth/login/complete'', EpCompleteLogin),
      (''POST'', ''/api/v1/auth/logout'', EpLogout),
      (''POST'', ''/api/v1/auth/guest'', EpGuest),
      (''POST'', ''/api/v1/auth/promote/begin'', EpBeginPromote),
      (''POST'', ''/api/v1/auth/promote/complete'', EpCompletePromote),
      (''GET'', ''/api/v1/users/me/'', EpMe),
      (''GET'', ''/api/v1/users/me/credentials'', EpListCredentials),
      (''DELETE'', ''/api/v1/users/me/credentials/{id}'', EpDeleteCredential)]"

text \<open>The mount point whose routes all sit behind \<open>requireSession\<close>.\<close>

definition guardedPrefix :: string where
  "guardedPrefix = ''/api/v1/users/me''"

text \<open>
  chi: which route of a table a request matches and with which \<open>id\<close> parameter, whether an
  unmatched request lies under a mount point (whose middleware then still runs), what it
  answers to an unmatched request, and its \<open>RequestID\<close> and \<open>RealIP\<close> middlewares, which
  pass on a changed request. Its \<open>Recoverer\<close> acts only when a handler panics and its
  \<open>Timeout\<close> writes only when a handler has not answered; every handler of the model returns
  with a response, so neither has anything to do (what an expired deadline does to a call of a
  store is an outcome of that call).
\<close>

record chi = chi_log +
  chi_Match :: "(string \<times> string) list \<Rightarrow> request \<Rightarrow> (nat \<times> string) option"
  chi_Mounted :: "string \<Rightarrow> request \<Rightarrow> bool"
  chi_NotFound :: "request \<Rightarrow> response"
  chi_RequestID :: "request \<Rightarrow> request"
  chi_RealIP :: "request \<Rightarrow> request"

record ('rd, 'sess, 'pc, 'pa) server =
  srv_auth :: "('rd, 'sess, 'pc, 'pa) auth_env"
  srv_chi :: chi
  srv_printTime :: "time \<Rightarrow> string"
  srv_indexHTML :: "string option"

definition requireSession :: "('rd, 'sess, 'pc, 'pa) server \<Rightarrow> 'rd handler \<Rightarrow> 'rd handler" where
  "requireSession s = RequireSession (env_redis (srv_auth s)) (env_uuid (srv_auth s))"

text \<open>The handler behind a route; the closure of the demo page has captured the text of the page.\<close>

fun endpoint_handler :: "('rd, 'sess, 'pc, 'pa) server \<Rightarrow> endpoint \<Rightarrow> 'rd handler" where
  "endpoint_handler s EpLive = Live"
| "endpoint_handler s EpReady = Ready (newHealth (env_redis (srv_auth s)))"
| "endpoint_handler s (EpIndex page) = (\<lambda>r. writePage page)"
| "endpoint_handler s EpBeginRegister = BeginRegister (srv_auth s)"
| "endpoint_handler s EpCompleteRegister = CompleteRegister (srv_auth s)"
| "endpoint_handler s EpBeginLogin = BeginLogin (srv_auth s)"
| "endpoint_handler s EpCompleteLogin = CompleteLogin (srv_auth s)"
| "endpoint_handler s EpLogout = Logout (srv_auth s)"
| "endpoint_handler s EpGuest = Guest (srv_auth s)"
| "endpoint_handler s EpBeginPromote = BeginPromote (srv_auth s)"
| "endpoint_handler s EpCompletePromote = CompletePromote (srv_auth s)"
| "endpoint_handler s EpMe = requireSession s (Me (env_uuid (srv_auth s)))"
| "endpoint_handler s EpListCredentials =
     requireSession s (ListCredentials (env_uuid (srv_auth s)) (srv_printTime s))"
| "endpoint_handler s EpDeleteCredential = requireSession s (DeleteCredential (env_uuid (srv_auth s)))"

definition dispatch :: "('rd, 'sess, 'pc, 'pa) server \<Rightarrow> 'rd handler" where
  "dispatch s r =
     (let notFound = (\<lambda>r. ret (chi_NotFound (srv_chi s) r)) in
      case chi_Match (srv_chi s) (map (\<lambda>(m, p, e). (m, p)) (routes (srv_indexHTML s))) r of
        Some (i, param) \<Rightarrow>
          if i < length (routes (srv_indexHTML s))
          then endpoint_handler s (snd (snd (routes (srv_indexHTML s) ! i))) (r\<lparr>url_id := param\<rparr>)
          else notFound r
      | None \<Rightarrow>
          if chi_Mounted (srv_chi s) guardedPrefix r then requireSession s notFound r else notFound r)"

definition New :: "('rd, 'sess, 'pc, 'pa) server \<Rightarrow> 'rd handler" where
  "New s r = RequestLogger (chi_log.truncate (srv_chi s)) (env_uuid (srv_auth s)) (dispatch s)
               (chi_RealIP (srv_chi s) (chi_RequestID (srv_chi s) r))"

text \<open>
  One request from the outside: its context carries no user and the response header is
  empty.
\<close>

definition serve_request ::
  "('rd, 'sess, 'pc, 'pa) server \<Rightarrow> request \<Rightarrow> 'rd world \<Rightarrow> response \<times> 'rd world" where
  "serve_request s r w = serve (New s (r\<lparr>ctx_user := None\<rparr>)) (w\<lparr>w_header := []\<rparr>)"

section \<open>The service as a state machine\<close>

text \<open>
  Requests are served one after the other; in between, time passes and the state of the
  connection to PostgreSQL changes in any way.
\<close>

inductive service_step :: "('rd, 'sess, 'pc, 'pa) server \<Rightarrow> 'rd world \<Rightarrow> 'rd world \<Rightarrow> bool"
  for s where
  request: "service_step s w (snd (serve_request s r w))"
| tick: "w_now w \<le> t \<Longrightarrow> service_step s w (w\<lparr>w_now := t\<rparr>)"
| outage: "service_step s w (w\<lparr>w_pg := p\<rparr>)"

inductive reachable :: "('rd, 'sess, 'pc, 'pa) server \<Rightarrow> 'rd world \<Rightarrow> 'rd world \<Rightarrow> bool"
  for s w0 where
  start: "reachable s w0 w0"
| step: "reachable s w0 w \<Longrightarrow> service_step s w w' \<Longrightarrow> reachable s w0 w'"

lemma reachable_trans: "reachable s w0 w1 \<Longrightarrow> reachable s w1 w2 \<Longrightarrow> reachable s w0 w2"
  by (rotate_tac, induction rule: reachable.induct) (auto intro: reachable.intros)

end
