(* ===== verification/Service_Invariants.thy ===== *)
theory Service_Invariants
  imports Router
begin

text \<open>
  What every state of the running service satisfies.

  The locale \<open>service_invariant\<close> is the contract between the stores and the handlers: an
  invariant that each store method keeps (\<open>Insert\<close> and \<open>Create\<close> under the precondition
  under which the handlers call them) is kept by every handler, by the router and so in
  every reachable state. It is interpreted twice: on the constraints of the database
  together with ``every passkey belongs to a registered user'', for any Redis; and on these
  together with ``every session token belongs to a registered user, every guest token to an
  existing one'', over a Redis that behaves as documented.
\<close>

section \<open>Registered and known users\<close>

definition registered :: "'rd world \<Rightarrow> uuid \<Rightarrow> bool" where
  "registered w u \<longleftrightarrow> (\<exists>x \<in> set (w_users w). user_ID x = u \<and> \<not> IsGuest x)"

definition known :: "'rd world \<Rightarrow> uuid \<Rightarrow> bool" where
  "known w u \<longleftrightarrow> u \<in> user_ID ` set (w_users w)"

lemma registered_known: "registered w u \<Longrightarrow> known w u"
  by (auto simp: registered_def known_def)

lemma registered_cong: "w_users w' = w_users w \<Longrightarrow> registered w' u = registered w u"
  by (simp add: registered_def)

lemma known_cong: "w_users w' = w_users w \<Longrightarrow> known w' u = known w u"
  by (simp add: known_def)

text \<open>No method of the user store unregisters or removes a user.\<close>

lemma user_writes_grow:
  "holds (\<lambda>w. registered w u) (insert_user n d g)" "holds (\<lambda>w. known w u) (insert_user n d g)"
  "holds (\<lambda>w. registered w u) (update_promote i n d)" "holds (\<lambda>w. known w u) (update_promote i n d)"
proof -
  show "holds (\<lambda>w. registered w u) (insert_user n d g)" "holds (\<lambda>w. known w u) (insert_user n d g)"
    by (auto simp: spec_def insert_user_def Let_def registered_def known_def)
  show "holds (\<lambda>w. registered w u) (update_promote i n d)"
    by (fastforce simp: spec_def update_promote_def registered_def set_update_where split: option.split)
  show "holds (\<lambda>w. known w u) (update_promote i n d)"
    by (auto simp: spec_def update_promote_def known_def promote_ids split: option.split)
qed

lemma user_store_grows:
  "holds (\<lambda>w. registered w u) (UserStore_CreateGuest n d)"
  "holds (\<lambda>w. registered w u) (UserStore_CreateRegistered n d)"
  "holds (\<lambda>w. registered w u) (UserStore_PromoteGuest i n d)"
  "holds (\<lambda>w. known w u) (UserStore_CreateGuest n d)"
  "holds (\<lambda>w. known w u) (UserStore_CreateRegistered n d)"
  "holds (\<lambda>w. known w u) (UserStore_PromoteGuest i n d)"
  unfolding user_store_defs
  by (intro spec_rules user_writes_grow; simp add: registered_def known_def)+

lemma CreateRegistered_registers: "UserStore_CreateRegistered n d w = (Inr u, w') \<Longrightarrow> registered w' (user_ID u)"
  using CreateRegistered_Inr [of n d w u w'] by (auto simp: registered_def)

lemma CreateGuest_known: "UserStore_CreateGuest n d w = (Inr u, w') \<Longrightarrow> known w' (user_ID u)"
  using CreateGuest_Inr [of n d w u w'] by (auto simp: known_def)

lemma PromoteGuest_registers:
  assumes "UserStore_PromoteGuest i n d w = (Inr u, w')"
  shows "registered w' (user_ID u)"
proof -
  from assms obtain g where "g \<in> set (w_users w)" "user_ID g = i" "IsGuest g"
    and u: "u = promote_row n d (w_now w) g"
    and "w_users w' = update_where (\<lambda>u. user_ID u = i \<and> IsGuest u) (promote_row n d (w_now w)) (w_users w)"
    by (rule PromoteGuest_Inr)
  then have "u \<in> set (w_users w')" by (force simp: set_update_where)
  then show ?thesis by (auto simp: registered_def u intro!: bexI [of _ u])
qed

section \<open>The part of the state that invariants may mention\<close>

definition core :: "'rd world \<Rightarrow> (user list \<times> cred_row list) \<times> 'rd \<times> time" where
  "core w = (db w, w_rd w, w_now w)"

lemma core_simps [simp]:
  "core (w\<lparr>w_epos := n\<rparr>) = core w" "core (w\<lparr>w_calls := n\<rparr>) = core w"
  "core (w\<lparr>w_pg := p\<rparr>) = core w" "core (w\<lparr>w_upos := n\<rparr>) = core w"
  "core (w\<lparr>w_log := l\<rparr>) = core w" "core (w\<lparr>w_header := h\<rparr>) = core w"
  by (simp_all add: core_def)

lemma coreD:
  "core w' = core w \<Longrightarrow> w_users w' = w_users w" "core w' = core w \<Longrightarrow> w_creds w' = w_creds w"
  "core w' = core w \<Longrightarrow> w_rd w' = w_rd w" "core w' = core w \<Longrightarrow> w_now w' = w_now w"
  by (simp_all add: core_def db_def)

section \<open>Invariants of the stores are invariants of the service\<close>

locale service_invariant =
  fixes I :: "'rd world \<Rightarrow> bool" and R :: "'rd redis_client" and L :: uuid_lib
  assumes core_only: "I w \<Longrightarrow> core w' = core w \<Longrightarrow> I w'"
    and owners: "I w \<Longrightarrow> r \<in> set (w_creds w) \<Longrightarrow> registered w (user_id r)"
    and later: "I w \<Longrightarrow> w_now w \<le> t \<Longrightarrow> I (w\<lparr>w_now := t\<rparr>)"
    and create_guest: "holds I (UserStore_CreateGuest n d)"
    and create_registered: "holds I (UserStore_CreateRegistered n d)"
    and promote_guest: "holds I (UserStore_PromoteGuest i n d)"
    and insert: "spec (\<lambda>w. I w \<and> registered w (cred_UserID c)) (CredentialStore_Insert c) (\<lambda>_. I) (\<lambda>_. I)"
    and update: "holds I (CredentialStore_UpdateAfterAssertion i k be bs)"
    and soft_delete: "holds I (CredentialStore_SoftDelete i)"
    and save: "holds I (ChallengeStore_Save R ttl j p)"
    and take: "holds I (ChallengeStore_Take R j)"
    and session_create: "spec (\<lambda>w. I w \<and> registered w u) (SessionStore_Create R L ttl u) (\<lambda>_. I) (\<lambda>_. I)"
    and session_get: "holds I (SessionStore_Get R L tok)"
    and session_delete: "holds I (SessionStore_Delete R tok)"
    and guest_create: "spec (\<lambda>w. I w \<and> known w u) (GuestStore_Create R L ttl u) (\<lambda>_. I) (\<lambda>_. I)"
    and guest_get: "holds I (GuestStore_Get R L tok)"
    and guest_delete: "holds I (GuestStore_Delete R tok)"
    and ping: "holds I (redisPinger_Ping R)"
begin

text \<open>Steps that touch nothing an invariant may mention.\<close>

lemma quiet: "keeps core m \<Longrightarrow> holds I m"
  by (rule specI) (auto dest: keepsD intro: core_only)

lemma quietD: "m w = (x, w') \<Longrightarrow> I w \<Longrightarrow> keeps core m \<Longrightarrow> I w'"
  by (blast dest: keepsD intro: core_only)

lemma quiet_registered: "keeps core m \<Longrightarrow> holds (\<lambda>w. I w \<and> registered w u) m"
  by (rule specI) (blast dest: keepsD intro: core_only registered_cong [OF coreD(1), THEN iffD2])+

lemma end_with: "spec I (reject s c) Q (\<lambda>_. I)" "spec I (internal msg) Q (\<lambda>_. I)"
  "spec I (warnReject msg s c) Q (\<lambda>_. I)"
  unfolding reject_def internal_def warnReject_def
  by (intro spec_rules quiet keeps_rules; simp)+

lemma or_internal: "spec P m Q (\<lambda>_. I) \<Longrightarrow> spec P (orInternal msg m) Q (\<lambda>_. I)"
  unfolding orInternal_def by (erule spec_catchE) (rule end_with)

lemma some_or_internal: "holds I (someOrInternal msg x)"
  by (intro quiet keeps_rules) simp

lemma drop_guest: "holds I (dropGuest env msg r)" if "env_redis env = R"
  unfolding dropGuest_def that
  by (intro spec_rules guest_delete quiet keeps_rules; simp)

lemma take_challenge: "holds I (takeChallenge env msg i)" if "env_redis env = R"
  unfolding takeChallenge_def that by (intro spec_rules take end_with)

lemma resolve_guest: "holds I (resolveGuest env r)" if "env_redis env = R" "env_uuid env = L"
  unfolding resolveGuest_def that by (intro spec_rules guest_get quiet keeps_rules; simp)

lemma quiets:
  "holds I (decodeBegin r)" "holds I (decodeComplete r)" "holds I NewUserHandle" "holds I newSessionID"
  "holds I (verifyAttestation env m1 m2 u d b)" "holds I (Service_BeginRegistration W u i)"
  "holds I (Service_BeginLogin W i)" "holds I (UserStore_GetByUsername n)" "holds I (UserStore_GetByID j)"
  "holds I (Service_ParseCredentialAssertion W b)" "holds I (recordCounterAnomalies L' old new)"
  "holds I (setSessionCookie r t a)" "holds I (setGuestCookie r t a)" "holds I (clearSessionCookie r)"
  "holds I (writeJSON k v)" "holds I (writeStatus k)" "holds I (writePage pg)" "holds I next_call" "holds I (logE lv msg)"
  "holds I (CredentialStore_ListByUserID j)" "holds I (requireUser r)"
  unfolding requireUser_def by (intro quiet keeps_rules; simp)+

lemmas steps = end_with or_internal some_or_internal quiets holds_bindE holds_catchE spec_tryE spec_if
  spec_option spec_sum spec_prod spec_whenE

lemma begin_handlers:
  assumes "env_redis env = R" and "env_uuid env = L"
  shows "holds I (BeginRegister env r)" and "holds I (BeginLogin env r)"
    and "holds I (BeginPromote env r)" and "holds I (Logout env r)"
  unfolding BeginRegister_def BeginLogin_def BeginPromote_def Logout_def assms
  by (intro steps save session_delete resolve_guest assms spec_ret; simp)+

lemma guest_handler:
  assumes "env_redis env = R" and "env_uuid env = L"
  shows "holds I (Guest env r)"
proof -
  have new: "spec I (UserStore_CreateGuest n d) (\<lambda>u w. I w \<and> known w (user_ID u)) (\<lambda>_. I)" for n d
    by (rule specI) (auto dest: specD_Inr [OF create_guest] specD_Inl [OF create_guest] CreateGuest_known)
  show ?thesis
    unfolding Guest_def assms
    by (rule steps resolve_guest assms spec_failE spec_ret spec_bindE [OF or_internal [OF new]]
        spec_bindE [OF or_internal [OF guest_create]] | assumption)+
qed

text \<open>The common tail of the two flows that create a passkey: convert and insert.\<close>

lemma convert:
  "spec (\<lambda>w. I w \<and> registered w u) (someOrInternal msg (domainCredentialFromLib L' u h cred))
     (\<lambda>c w. I w \<and> registered w u \<and> cred_UserID c = u) (\<lambda>_. I)"
  unfolding someOrInternal_def
  by (intro spec_option spec_ret spec_pre [OF end_with(2)])
     (auto simp: domainCredentialFromLib_def Let_def split: if_splits)

lemma insert_keeps:
  "CredentialStore_Insert c w = (x, w') \<Longrightarrow> I w \<Longrightarrow> registered w (cred_UserID c) \<Longrightarrow> I w'"
  by (cases x) (metis specD_Inr [OF insert conjI] specD_Inl [OF insert conjI])+

lemma insert_registered:
  assumes "\<And>e. spec I (h e) (\<lambda>_ w. I w \<and> registered w u) (\<lambda>_. I)"
  shows "spec (\<lambda>w. I w \<and> registered w u \<and> cred_UserID c = u) (catchE (CredentialStore_Insert c) h)
     (\<lambda>_ w. I w \<and> registered w u) (\<lambda>_. I)"
proof (rule spec_catchE [OF _ assms])
  have "keeps w_users (CredentialStore_Insert c :: ('rd world, err, credential) act)"
    by (intro keeps_rules) simp_all
  then show "spec (\<lambda>w. I w \<and> registered w u \<and> cred_UserID c = u) (CredentialStore_Insert c)
      (\<lambda>_ w. I w \<and> registered w u) (\<lambda>_. I)"
    by (intro specI) (auto dest: insert_keeps keepsD intro: registered_cong [THEN iffD2])
qed

lemma register_handler:
  assumes "env_redis env = R"
  shows "holds I (CompleteRegister env r)"
proof -
  have new: "spec I (UserStore_CreateRegistered n d) (\<lambda>u w. I w \<and> registered w (user_ID u)) (\<lambda>_. I)" for n d
    by (rule specI)
       (auto dest: specD_Inr [OF create_registered] specD_Inl [OF create_registered] CreateRegistered_registers)
  show ?thesis
    unfolding CompleteRegister_def Let_def
    by (rule end_with some_or_internal quiets take_challenge [OF assms] spec_bindE [OF spec_catchE [OF new]]
        spec_bindE [OF convert] spec_bindE [OF insert_registered] spec_pre [OF quiets(15)]
        steps | erule conjunct1)+
qed

lemma promote_handler:
  assumes "env_redis env = R" and "env_uuid env = L"
  shows "holds I (CompletePromote env r)"
proof -
  have new: "spec I (UserStore_PromoteGuest i n d) (\<lambda>u w. I w \<and> registered w (user_ID u)) (\<lambda>_. I)" for i n d
    by (rule specI)
       (auto dest: specD_Inr [OF promote_guest] specD_Inl [OF promote_guest] PromoteGuest_registers)
  show ?thesis
    unfolding CompletePromote_def Let_def assms(2)
    unfolding assms(1)
    by (rule end_with some_or_internal quiets take_challenge [OF assms(1)] drop_guest [OF assms(1)]
        spec_bindE [OF spec_catchE [OF new]] spec_bindE [OF convert] spec_bindE [OF insert_registered]
        spec_bindE [OF or_internal [OF session_create]] steps | erule conjunct1)+
qed

lemma login_handler:
  assumes "env_redis env = R" and "env_uuid env = L"
  shows "holds I (CompleteLogin env r)"
proof -
  let ?W = "env_webauthn env"
  have val: "spec I (Service_ValidateLogin ?W (resolver ?W p) (None, None) d p)
      (\<lambda>x w. I w \<and> (\<forall>u. fst (snd x) = Some u \<longrightarrow> registered w (user_ID u))) (\<lambda>_. I)" for p d
  proof (rule specI)
    fix w x w' assume I: "I w"
      and run: "Service_ValidateLogin ?W (resolver ?W p) (None, None) d p w = (Inr x, w')"
    have "I w'"
      using run I by (rule quietD) (intro keeps_rules; simp)
    then show "I w' \<and> (\<forall>u. fst (snd x) = Some u \<longrightarrow> registered w' (user_ID u))"
      using run ValidateLogin_resolves [of ?W p d w "fst x" "snd x" w'] owners [of w']
      by (cases x) (auto simp: resolved_ok_def)
  next
    fix w e w' assume I: "I w" and run: "Service_ValidateLogin ?W (resolver ?W p) (None, None) d p w = (Inl e, w')"
    show "I w'" using run I by (rule quietD) (intro keeps_rules; simp)
  qed
  have upd: "spec (\<lambda>w. I w \<and> registered w u) (CredentialStore_UpdateAfterAssertion i k be bs)
      (\<lambda>_ w. I w \<and> registered w u) (\<lambda>_. I)" for u i k be bs
  proof -
    have "keeps w_users (CredentialStore_UpdateAfterAssertion i k be bs :: ('rd world, err, unit) act)"
      by (intro keeps_rules) simp_all
    then show ?thesis
      using specD_Inr [OF update] specD_Inl [OF update]
      by (intro specI) (blast dest: keepsD intro: registered_cong [THEN iffD2])+
  qed
  have log: "spec (\<lambda>w. I w \<and> registered w u) (recordCounterAnomalies L' old new)
      (\<lambda>_ w. I w \<and> registered w u) (\<lambda>_. I)" for u L' old new
    by (rule spec_weaken [OF quiet_registered [of _ u]]) (intro keeps_rules, simp_all)
  have ending: "spec (\<lambda>w. I w \<and> (\<forall>u. fst (snd x) = Some u \<longrightarrow> registered w (user_ID u)))
      (case x of (cred, c) \<Rightarrow> case c of (Some u, Some cr) \<Rightarrow> f cred u cr | _ \<Rightarrow> internal msg) Q (\<lambda>_. I)"
    if "\<And>cred u cr. spec (\<lambda>w. I w \<and> registered w (user_ID u)) (f cred u cr) Q (\<lambda>_. I)" for x f msg Q
    by (auto split: prod.split option.split intro!: spec_pre [OF end_with(2)] spec_pre [OF that])
  show ?thesis
    unfolding CompleteLogin_def assms(2)
    unfolding assms(1)
    by (rule end_with some_or_internal quiets take_challenge [OF assms(1)] drop_guest [OF assms(1)]
        spec_bindE [OF log] spec_bindE [OF or_internal [OF upd]] spec_bindE [OF or_internal [OF session_create]]
        spec_bindE [OF spec_catchE [OF val]] ending steps)+
qed

lemma user_handlers:
  "holds I (Me L' r)" "holds I (ListCredentials L' T r)" "holds I (DeleteCredential L' r)"
  unfolding Me_def ListCredentials_def DeleteCredential_def
  by (rule end_with quiets soft_delete steps spec_ret | assumption)+

lemma require_session:
  assumes "\<And>r. holds I (h r)"
  shows "holds I (RequireSession R L h r)"
  unfolding RequireSession_def writeUnauthorized_def writeInternalError_def
  by (rule assms session_get quiets steps spec_failE | assumption)+

lemma ready_handler: "holds I (Ready (newHealth R) r)"
proof -
  have "holds I pgPing"
    unfolding pgPing_def by (intro quiet keeps_rules; simp)
  then have "holds I (probe (Some pgPing))" and "holds I (probe (Some (redisPinger_Ping R)))"
    unfolding probe_def pingStatusOf_def using ping
    by (auto intro!: steps spec_ret split: sum.split)
  then show ?thesis
    unfolding Ready_def newHealth_def Let_def
    by (auto intro!: steps)
qed

lemma endpoint_handlers:
  assumes "env_redis (srv_auth s) = R" and "env_uuid (srv_auth s) = L"
  shows "holds I (endpoint_handler s e r)"
  by (cases e)
     (simp_all add: requireSession_def Live_def assms ready_handler quiets begin_handlers guest_handler
        register_handler login_handler promote_handler require_session user_handlers)

lemma dispatch_holds:
  assumes "env_redis (srv_auth s) = R" and "env_uuid (srv_auth s) = L"
  shows "holds I (dispatch s r)"
  unfolding dispatch_def Let_def requireSession_def assms
  by (intro spec_option spec_prod spec_if spec_ret require_session endpoint_handlers assms)

lemma serve_keeps: "holds I h \<Longrightarrow> I w \<Longrightarrow> I (snd (serve h w))"
  using holds_snd [of I h w] by (auto simp: serve_def split: prod.splits sum.splits)

lemma request_keeps:
  assumes "env_redis (srv_auth s) = R" and "env_uuid (srv_auth s) = L" and "I w"
  shows "I (snd (serve_request s r w))"
proof -
  let ?r = "chi_RealIP (srv_chi s) (chi_RequestID (srv_chi s) (r\<lparr>ctx_user := None\<rparr>))" and ?w = "w\<lparr>w_header := []\<rparr>"
  have "I ?w" using assms(3) by (rule core_only) simp
  then have "I (snd (serve (dispatch s ?r) ?w))"
    using serve_keeps dispatch_holds assms by blast
  moreover obtain l where "snd (serve_request s r w) = (snd (serve (dispatch s ?r) ?w))\<lparr>w_log := l\<rparr>"
    unfolding serve_request_def New_def using serve_RequestLogger_state by blast
  ultimately show ?thesis by (simp add: core_only)
qed

lemma reachable_keeps:
  assumes "reachable s w0 w" and "env_redis (srv_auth s) = R" and "env_uuid (srv_auth s) = L" and "I w0"
  shows "I w"
  using assms(1)
proof (induction rule: reachable.induct)
  case (step w w')
  from step.hyps(2) step.IH show ?case
    by (cases rule: service_step.cases) (auto intro: request_keeps assms later core_only)
qed (rule assms)

end

section \<open>The database\<close>

text \<open>
  The constraints of the schema, and: every row of \<open>credentials\<close>, deleted or not, belongs
  to a registered user. The second is not a constraint of the database; it holds because of
  the order in which the handlers call the stores.
\<close>

definition owners_registered :: "'rd world \<Rightarrow> bool" where
  "owners_registered w \<longleftrightarrow> (\<forall>r \<in> set (w_creds w). registered w (user_id r))"

definition db_ok :: "'rd world \<Rightarrow> bool" where
  "db_ok w \<longleftrightarrow> schema_ok w \<and> owners_registered w"

lemma db_ok_cong: "db_ok w \<Longrightarrow> db w' = db w \<Longrightarrow> db_ok w'"
  using schema_ok_db [of w w'] by (simp add: db_ok_def owners_registered_def registered_def db_def)

lemma db_ok_quiet: "keeps db m \<Longrightarrow> holds db_ok m"
  by (rule specI) (metis db_ok_cong keepsD)+

lemma db_ok_user_writes:
  assumes "holds schema_ok m" and "keeps w_creds m" and "\<And>u. holds (\<lambda>w. registered w u) m"
  shows "holds db_ok m"
proof (rule holdsI)
  fix w x w' assume "db_ok w" and run: "m w = (x, w')"
  then show "db_ok w'"
    using holdsD [OF assms(1) run] holdsD [OF assms(3) run] keepsD [OF assms(2) run]
    by (simp add: db_ok_def owners_registered_def)
qed

lemma holds_owners_update_live:
  assumes "\<And>t r. user_id (f t r) = user_id r"
  shows "holds owners_registered (update_live i f)"
  by (auto simp: spec_def update_live_def owners_registered_def registered_def set_update_where assms)

lemma owners_pg [simp]: "owners_registered (w\<lparr>w_pg := k\<rparr>) = owners_registered w"
  by (simp add: owners_registered_def registered_def)

lemma holds_conj: "holds I m \<Longrightarrow> holds J m \<Longrightarrow> holds (\<lambda>w. I w \<and> J w) m"
  by (rule holdsI) (blast dest: holdsD)

lemma UpdateAfterAssertion_db_ok: "holds db_ok (CredentialStore_UpdateAfterAssertion i k be bs)"
proof -
  have "holds owners_registered (CredentialStore_UpdateAfterAssertion i k be bs)"
    unfolding CredentialStore_UpdateAfterAssertion_def
    by (intro spec_rules holds_owners_update_live; simp)
  then show ?thesis
    unfolding db_ok_def [abs_def] by (intro holds_conj UpdateAfterAssertion_schema_ok)
qed

lemma SoftDelete_db_ok: "holds db_ok (CredentialStore_SoftDelete i)"
proof -
  have "owners_registered w'" if "owners_registered w" and "CredentialStore_SoftDelete i w = (x, w')"
    for w :: "'rd world" and x w'
    using SoftDelete_effect(1,2) [OF that(2)] that(1)
    by (auto simp: owners_registered_def registered_def set_update_where elim!: soft_delete_spec_Inr)
  then have "holds owners_registered (CredentialStore_SoftDelete i :: ('rd world, err, unit) act)"
    by (blast intro: holdsI)
  then show ?thesis
    unfolding db_ok_def [abs_def] by (intro holds_conj SoftDelete_schema_ok)
qed

lemma Insert_db_ok:
  "spec (\<lambda>w. db_ok w \<and> registered w (cred_UserID c)) (CredentialStore_Insert c) (\<lambda>_. db_ok) (\<lambda>_. db_ok)"
proof -
  let ?J = "\<lambda>w. owners_registered w \<and> registered w (cred_UserID c)"
  have "holds ?J (insert_credential c)"
    by (auto simp: spec_def insert_credential_def Let_def owners_registered_def registered_def)
  then have "holds ?J (CredentialStore_Insert c)"
    unfolding CredentialStore_Insert_def by (intro spec_rules; simp add: registered_def)
  from holds_conj [OF Insert_schema_ok this] show ?thesis
    by (rule spec_weaken) (simp_all add: db_ok_def)
qed

interpretation db_inv: service_invariant db_ok R L for R :: "'rd redis_client" and L :: uuid_lib
proof unfold_locales
  show "db_ok w'" if "db_ok w" and "core w' = core w" for w w' :: "'rd world"
    using that by (auto simp: core_def intro: db_ok_cong)
  show "registered w (user_id r)" if "db_ok w" and "r \<in> set (w_creds w)" for w :: "'rd world" and r
    using that by (simp add: db_ok_def owners_registered_def)
  show "db_ok (w\<lparr>w_now := t\<rparr>)" if "db_ok w" for w :: "'rd world" and t
    using that by (rule db_ok_cong) simp
  show "holds db_ok (UserStore_CreateGuest n d)" "holds db_ok (UserStore_CreateRegistered n d)"
    "holds db_ok (UserStore_PromoteGuest i n d)" for i n d
    by (intro db_ok_user_writes user_store_schema_ok user_store_grows keeps_rules; simp)+
  show "spec (\<lambda>w. db_ok w \<and> registered w u) (SessionStore_Create R L ttl u) (\<lambda>_. db_ok) (\<lambda>_. db_ok)"
    "spec (\<lambda>w. db_ok w \<and> known w u) (GuestStore_Create R L ttl u) (\<lambda>_. db_ok) (\<lambda>_. db_ok)" for ttl u
    by (rule spec_pre [OF db_ok_quiet], intro keeps_rules; simp)+
  show "holds db_ok (redisPinger_Ping R)"
    unfolding redisPinger_Ping_def by (intro db_ok_quiet keeps_rules) simp
qed (intro Insert_db_ok UpdateAfterAssertion_db_ok SoftDelete_db_ok db_ok_quiet keeps_rules; simp)+

section \<open>Tokens\<close>

text \<open>
  Whatever session token resolves now or would resolve later belongs to a registered user;
  a guest token belongs to a user that exists.
\<close>

definition tokens_ok ::
  "(time \<Rightarrow> 'rd \<Rightarrow> string \<Rightarrow> rval option) \<Rightarrow> uuid_lib \<Rightarrow> 'rd world \<Rightarrow> bool" where
  "tokens_ok H L w \<longleftrightarrow> (\<forall>t tok u. w_now w \<le> t \<longrightarrow>
     (session_owner H L t w tok = Some u \<longrightarrow> registered w u) \<and>
     (guest_owner H L t w tok = Some u \<longrightarrow> known w u))"

definition service_ok ::
  "(time \<Rightarrow> 'rd \<Rightarrow> string \<Rightarrow> rval option) \<Rightarrow> uuid_lib \<Rightarrow> 'rd world \<Rightarrow> bool" where
  "service_ok H L w \<longleftrightarrow> db_ok w \<and> tokens_ok H L w"

lemma tokens_ok_step:
  assumes ok: "tokens_ok H L w" and now: "w_now w' = w_now w" and gains: "gains H P w w'"
    and grow: "\<And>u. registered w u \<Longrightarrow> registered w' u" "\<And>u. known w u \<Longrightarrow> known w' u"
    and new: "\<And>tok v u. P (sessionKeyPrefix @ tok) v \<Longrightarrow> parse_owner L v = Some u \<Longrightarrow> registered w' u"
      "\<And>tok v u. P (guestKeyPrefix @ tok) v \<Longrightarrow> parse_owner L v = Some u \<Longrightarrow> known w' u"
  shows "tokens_ok H L w'"
  unfolding tokens_ok_def
proof (intro allI impI conjI)
  fix t tok u assume "w_now w' \<le> t"
  then have t: "w_now w \<le> t" by (simp add: now)
  have before: "session_owner H L t w tok = Some u \<Longrightarrow> registered w' u"
    "guest_owner H L t w tok = Some u \<Longrightarrow> known w' u"
    using ok t grow unfolding tokens_ok_def by blast+
  have gain: "H t (w_rd w) k = Some v \<or> P k v" if "H t (w_rd w') k = Some v" for k v
    using gains t that unfolding gains_def by blast
  show "registered w' u" if "session_owner H L t w' tok = Some u"
    using that before(1) gain [of "sessionKeyPrefix @ tok"] new(1)
    by (auto simp: session_owner_def token_owner_def bind_eq_Some_conv)
  show "known w' u" if "guest_owner H L t w' tok = Some u"
    using that before(2) gain [of "guestKeyPrefix @ tok"] new(2)
    by (auto simp: guest_owner_def token_owner_def bind_eq_Some_conv)
qed

lemma tokens_ok_same:
  assumes "tokens_ok H L w" and "w_now w' = w_now w" and "w_rd w' = w_rd w"
    and "\<And>u. registered w u \<Longrightarrow> registered w' u" and "\<And>u. known w u \<Longrightarrow> known w' u"
  shows "tokens_ok H L w'"
  by (rule tokens_ok_step [OF assms(1,2) gains_same [where P = "\<lambda>_ _. False"]]) (use assms in auto)

lemma tokens_ok_later:
  "tokens_ok H L w \<Longrightarrow> w_now w \<le> t \<Longrightarrow> tokens_ok H L (w\<lparr>w_now := t\<rparr>)"
  by (simp add: tokens_ok_def session_owner_def guest_owner_def token_owner_def registered_def known_def)
     (meson order_trans)

text \<open>The SQL stores: Redis and the clock are untouched, users only grow.\<close>

lemma service_ok_sql:
  assumes "holds db_ok m" and "keeps w_rd m" and "keeps w_now m"
    and "\<And>u. holds (\<lambda>w. registered w u) m" and "\<And>u. holds (\<lambda>w. known w u) m"
  shows "holds (service_ok H L) m"
proof (rule holdsI)
  fix w x w' assume ok: "service_ok H L w" and run: "m w = (x, w')"
  have "db_ok w'"
    using holdsD [OF assms(1) run] ok by (simp add: service_ok_def)
  moreover have "tokens_ok H L w'"
    by (rule tokens_ok_same [OF _ keepsD [OF assms(3) run] keepsD [OF assms(2) run]
          holdsD [OF assms(4) run] holdsD [OF assms(5) run]])
       (use ok in \<open>simp_all add: service_ok_def\<close>)
  ultimately show "service_ok H L w'" by (simp add: service_ok_def)
qed

lemma keeps_users_grow: "keeps w_users m \<Longrightarrow> holds (\<lambda>w. registered w u) m" "keeps w_users m \<Longrightarrow> holds (\<lambda>w. known w u) m"
  by (rule holdsI, drule keepsD, assumption, simp add: registered_def known_def)+

text \<open>The Redis stores: the database and the clock are untouched, and new entries are fine.\<close>

lemma service_ok_redis:
  assumes "keeps db m" and "keeps w_now m" and "\<And>w x w'. m w = (x, w') \<Longrightarrow> gains H P w w'"
    and new: "\<And>w tok v u. Q w \<Longrightarrow> P (sessionKeyPrefix @ tok) v \<Longrightarrow> parse_owner L v = Some u \<Longrightarrow> registered w u"
      "\<And>w tok v u. Q w \<Longrightarrow> P (guestKeyPrefix @ tok) v \<Longrightarrow> parse_owner L v = Some u \<Longrightarrow> known w u"
  shows "spec (\<lambda>w. service_ok H L w \<and> Q w) m (\<lambda>_. service_ok H L) (\<lambda>_. service_ok H L)"
proof -
  have "service_ok H L w'" if ok: "service_ok H L w" and Q: "Q w" and run: "m w = (x, w')" for w x w'
  proof -
    have db: "db w' = db w" and now: "w_now w' = w_now w"
      using keepsD [OF assms(1) run] keepsD [OF assms(2) run] by auto
    then have us: "registered w' u = registered w u" "known w' u = known w u" for u
      by (simp_all add: registered_def known_def db_def)
    have "tokens_ok H L w"
      using ok by (simp add: service_ok_def)
    from tokens_ok_step [OF this now assms(3) [OF run]] have "tokens_ok H L w'"
      unfolding us using new Q by blast
    then show ?thesis
      using ok db_ok_cong [OF _ db] by (simp add: service_ok_def)
  qed
  then show ?thesis by (blast intro: specI)
qed

lemmas service_ok_redis_holds = spec_pre [OF service_ok_redis [where Q = "\<lambda>_. True"]]

lemma service_ok_insert:
  fixes H :: "time \<Rightarrow> 'rd \<Rightarrow> string \<Rightarrow> rval option"
  shows "spec (\<lambda>w. service_ok H L w \<and> registered w (cred_UserID c)) (CredentialStore_Insert c)
     (\<lambda>_. service_ok H L) (\<lambda>_. service_ok H L)"
proof -
  have same: "keeps w_users (CredentialStore_Insert c :: ('rd, credential) store_act)"
    "keeps w_rd (CredentialStore_Insert c :: ('rd, credential) store_act)"
    "keeps w_now (CredentialStore_Insert c :: ('rd, credential) store_act)"
    by (intro keeps_rules; simp)+
  have "tokens_ok H L w'" if "tokens_ok H L w" and "CredentialStore_Insert c w = (x, w')" for w x w'
    using keepsD [OF same(1) that(2)]
    by (intro tokens_ok_same [OF that(1) keepsD [OF same(3) that(2)] keepsD [OF same(2) that(2)]])
       (simp_all add: registered_def known_def)
  then have "spec (tokens_ok H L) (CredentialStore_Insert c) (\<lambda>_. tokens_ok H L) (\<lambda>_. tokens_ok H L)"
    by (blast intro: holdsI)
  with Insert_db_ok [of c] show ?thesis
    by (intro specI) (auto simp: service_ok_def dest: specD_Inr specD_Inl)
qed

sublocale redis_stores \<subseteq> tokens: service_invariant "service_ok holds_at L" R L
proof unfold_locales
  let ?I = "service_ok holds_at L"
  show "?I w'" if "?I w" and "core w' = core w" for w w'
    using that coreD [OF that(2)] db_ok_cong [of w w']
    by (auto simp: service_ok_def core_def registered_def known_def intro: tokens_ok_same)
  show "registered w (user_id r)" if "?I w" and "r \<in> set (w_creds w)" for w and r
    using that by (simp add: service_ok_def db_ok_def owners_registered_def)
  show "?I (w\<lparr>w_now := t\<rparr>)" if "?I w" and "w_now w \<le> t" for w and t
    using that by (auto simp: service_ok_def intro: tokens_ok_later db_ok_cong)
  show "holds ?I (UserStore_CreateGuest n d)" "holds ?I (UserStore_CreateRegistered n d)"
    "holds ?I (UserStore_PromoteGuest i n d)" for i n d
    by (intro service_ok_sql db_inv.create_guest db_inv.create_registered db_inv.promote_guest
        user_store_grows keeps_rules; simp)+
  show "holds ?I (CredentialStore_UpdateAfterAssertion i k be bs)" "holds ?I (CredentialStore_SoftDelete i)"
    for i k be bs
    by (intro service_ok_sql UpdateAfterAssertion_db_ok SoftDelete_db_ok keeps_users_grow keeps_rules; simp)+
  show "spec (\<lambda>w. ?I w \<and> registered w (cred_UserID c)) (CredentialStore_Insert c) (\<lambda>_. ?I) (\<lambda>_. ?I)" for c
    by (rule service_ok_insert)
  show "spec (\<lambda>w. ?I w \<and> registered w u) (SessionStore_Create R L ttl u) (\<lambda>_. ?I) (\<lambda>_. ?I)" for ttl u
    by (rule service_ok_redis [OF _ _ create_gains(1)]) (auto intro!: keeps_rules)
  show "spec (\<lambda>w. ?I w \<and> known w u) (GuestStore_Create R L ttl u) (\<lambda>_. ?I) (\<lambda>_. ?I)" for ttl u
    by (rule service_ok_redis [OF _ _ create_gains(2)]) (auto intro!: keeps_rules)
  show "holds ?I (ChallengeStore_Save R ttl j p)" for ttl j p
    by (rule service_ok_redis_holds [OF _ _ store_gains(1)]) (auto intro!: keeps_rules)
  show "holds ?I (ChallengeStore_Take R j)" for j
    by (rule service_ok_redis_holds [OF _ _ Take_gains]) (auto intro!: keeps_rules)
  show "holds ?I (SessionStore_Delete R tok)" "holds ?I (GuestStore_Delete R tok)"
    "holds ?I (SessionStore_Get R L tok)" "holds ?I (GuestStore_Get R L tok)" for tok
    by (rule service_ok_redis_holds [OF _ _ store_gains(2)] service_ok_redis_holds [OF _ _ store_gains(3)]
          service_ok_redis_holds [OF _ _ store_gains(4)] service_ok_redis_holds [OF _ _ store_gains(5)],
        auto intro!: keeps_rules)+
  have "gains holds_at (\<lambda>_ _. False) w w'" if "redisPinger_Ping R w = (x, w')" for w x w'
    using that by (auto simp: redisPinger_Ping_def intro!: gains_same dest!: redisDo_state ping_frame)
  then show "holds ?I (redisPinger_Ping R)"
    by (rule service_ok_redis_holds [rotated 2]) (auto simp: redisPinger_Ping_def intro!: keeps_rules)
qed

context redis_stores begin

lemmas service_reachable = tokens.reachable_keeps
lemmas service_request = tokens.request_keeps

end

end
