(* ===== verification/Handler_Exits.thy ===== *)
theory Handler_Exits
  imports Service_Invariants
begin

text \<open>
  How the handlers end. A success is inverted into the chain of store and library calls that
  led to it; a rejection is always one of the error bodies of \<open>response.go\<close>.
\<close>

named_theorems exit_simps \<open>when a fragment goes on, and in which state\<close>
named_theorems reject_rules \<open>early exits are error responses\<close>

section \<open>Going on\<close>

lemma reject_stops [exit_simps]:
  "reject s c w = (Inr a, w') \<longleftrightarrow> False" "internal msg w = (Inr a, w') \<longleftrightarrow> False"
  "warnReject msg s c w = (Inr a, w') \<longleftrightarrow> False"
  by (auto simp: reject_def internal_def warnReject_def failE_def elim!: bindE_InrE)

lemma catchE_on [exit_simps]:
  "catchE m h w = (Inr a, w') \<longleftrightarrow>
     m w = (Inr a, w') \<or> (\<exists>e w1. m w = (Inl e, w1) \<and> h e w1 = (Inr a, w'))"
  by (auto simp: catchE_def split: prod.splits sum.splits)

lemma orInternal_on [exit_simps]: "orInternal msg m w = (Inr a, w') \<longleftrightarrow> m w = (Inr a, w')"
  by (auto simp: orInternal_def exit_simps)

lemma someOrInternal_on [exit_simps]: "someOrInternal msg x w = (Inr a, w') \<longleftrightarrow> x = Some a \<and> w' = w"
  by (auto simp: someOrInternal_def exit_simps ret_def split: option.splits)

lemma takeChallenge_on [exit_simps]:
  "takeChallenge env msg i w = (Inr raw, w') \<longleftrightarrow> ChallengeStore_Take (env_redis env) i w = (Inr raw, w')"
  by (auto simp: takeChallenge_def exit_simps)

lemma writeJSON_on [exit_simps]:
  "writeJSON s v w = (Inr resp, w') \<longleftrightarrow>
     w' = w \<and> resp = \<lparr>resp_Status = s, resp_JSON = True, resp_Cookies = w_header w, resp_Body = Some v, resp_Page = None\<rparr>"
  by (auto simp: writeJSON_def getE_def)

lemma writeStatus_on [exit_simps]:
  "writeStatus s w = (Inr resp, w') \<longleftrightarrow>
     w' = w \<and> resp = \<lparr>resp_Status = s, resp_JSON = False, resp_Cookies = w_header w, resp_Body = None, resp_Page = None\<rparr>"
  by (auto simp: writeStatus_def getE_def)

lemma SetCookie_on [exit_simps]: "SetCookie c w = (Inr (), w') \<longleftrightarrow> w' = w\<lparr>w_header := w_header w @ [c]\<rparr>"
  by (auto simp: SetCookie_def putE_def)

lemma ret_on [exit_simps]: "ret a w = (Inr b, w') \<longleftrightarrow> b = a \<and> w' = w"
  by (auto simp: ret_def)

lemma decodeBody_on [exit_simps]:
  "decodeBody fs z r w = (Inr q, w') \<longleftrightarrow>
     w' = w \<and> (\<exists>j. req_Body r = Some j \<and> decode_struct fs j z = Some q)"
  by (auto simp: decodeBody_def exit_simps split: option.splits)

text \<open>The members of an accepted \<open>complete\<close> or \<open>begin\<close> request.\<close>

definition complete_envelope :: "request \<Rightarrow> (string \<times> json) option" where
  "complete_envelope r = Option.bind (req_Body r) (\<lambda>j.
     Option.bind (decode_struct completeRequest_fields j \<lparr>complete_SessionID = '''', complete_Credential = None\<rparr>)
       (\<lambda>q. if complete_SessionID q = '''' then None
            else map_option (Pair (complete_SessionID q)) (complete_Credential q)))"

definition begin_envelope :: "request \<Rightarrow> beginRegisterRequest option" where
  "begin_envelope r = Option.bind (req_Body r) (\<lambda>j.
     Option.bind (decode_struct beginRegisterRequest_fields j \<lparr>begin_Username = '''', begin_DisplayName = ''''\<rparr>)
       (\<lambda>q. if begin_Username q = '''' \<or> begin_DisplayName q = '''' then None else Some q))"

lemma bindE_on:
  "bindE m f w = (Inr b, w'') \<longleftrightarrow> (\<exists>a w'. m w = (Inr a, w') \<and> f a w' = (Inr b, w''))"
  by (auto simp: bindE_def split: prod.splits sum.splits)

lemma decodeComplete_on [exit_simps]:
  "decodeComplete r w = (Inr x, w') \<longleftrightarrow> complete_envelope r = Some x \<and> w' = w"
  by (cases "req_Body r";
      cases "decode_struct completeRequest_fields (the (req_Body r))
               \<lparr>complete_SessionID = '''', complete_Credential = None\<rparr>")
     (auto simp: decodeComplete_def complete_envelope_def decodeBody_def exit_simps split: option.splits elim!: bindE_InrE)

lemma decodeBegin_on [exit_simps]:
  "decodeBegin r w = (Inr q, w') \<longleftrightarrow> begin_envelope r = Some q \<and> w' = w"
  by (auto simp: decodeBegin_def begin_envelope_def exit_simps bind_eq_Some_conv bindE_on split: if_splits)

lemma verifyAttestation_on:
  assumes "verifyAttestation env m1 m2 u sess body w = (Inr cred, w')"
  obtains parsed where "lib_ParseCreation (env_webauthn env) body = Some parsed"
    and "lib_CreateCredential (env_webauthn env) (w_now w) u sess parsed = Some cred"
    and "checkAttestationPolicy cred = None" and "w' = w"
proof -
  obtain parsed where "lib_ParseCreation (env_webauthn env) body = Some parsed"
    and run: "Service_CreateCredential (env_webauthn env) u sess parsed w = (Inr cred, w')"
    using assms
    by (auto simp: verifyAttestation_def exit_simps Service_ParseCredentialCreation_def failE_def
        elim!: bindE_InrE split: if_splits option.splits)
  then show thesis
    using that CreateCredential_Inr [OF run] by blast
qed

section \<open>Rejections\<close>

text \<open>The response of \<open>writeError\<close> for a code of the table.\<close>

definition answer :: "nat \<Rightarrow> string \<Rightarrow> cookie list \<Rightarrow> response" where
  "answer s c h = \<lparr>resp_Status = s, resp_JSON = True, resp_Cookies = h,
     resp_Body = Some (errorBody c (the (map_of codeMessages c))), resp_Page = None\<rparr>"

lemma answer_simps [simp]:
  "resp_Status (answer s c h) = s" "resp_JSON (answer s c h)" "resp_Cookies (answer s c h) = h"
  "resp_Body (answer s c h) = Some (errorBody c (the (map_of codeMessages c)))"
  by (simp_all add: answer_def)

lemma reject_eq: "map_of codeMessages c \<noteq> None \<Longrightarrow> reject s c w = (Inl (answer s c (w_header w)), w)"
  by (auto simp: reject_def writeError_def writeJSON_def bindE_def getE_def failE_def answer_def)

lemma internal_eq:
  "internal msg w = (Inl (answer 500 ''internal_error'' (w_header w)),
     w\<lparr>w_log := w_log w @ [\<lparr>log_level = LevelError, log_msg = msg, log_attrs = []\<rparr>]\<rparr>)"
  by (simp add: internal_def bindE_def logE_def putE_def reject_eq codeMessages_def)

text \<open>
  \<open>exits Q m\<close>: every early exit of \<open>m\<close>, its response and the state it leaves, satisfies
  \<open>Q\<close>. In particular \<open>avoids P m\<close>: no early exit is a response with \<open>P\<close>.
\<close>

definition exits :: "(response \<Rightarrow> 'w \<Rightarrow> bool) \<Rightarrow> ('w, response, 'a) act \<Rightarrow> bool" where
  "exits Q m \<longleftrightarrow> (\<forall>w r w'. m w = (Inl r, w') \<longrightarrow> Q r w')"

abbreviation avoids :: "(response \<Rightarrow> bool) \<Rightarrow> ('w, response, 'a) act \<Rightarrow> bool" where
  "avoids P m \<equiv> exits (\<lambda>r _. \<not> P r) m"

lemma exitsD: "exits Q m \<Longrightarrow> m w = (Inl r, w') \<Longrightarrow> Q r w'"
  by (auto simp: exits_def)

lemma exits_ret [reject_rules]: "exits Q (ret a)"
  by (simp add: exits_def ret_def)

lemma exits_bindE [reject_rules]: "exits Q m \<Longrightarrow> (\<And>a. exits Q (f a)) \<Longrightarrow> exits Q (bindE m f)"
  by (fastforce simp: exits_def bindE_def split: prod.splits sum.splits)

lemma exits_catchE [reject_rules]: "(\<And>e. exits Q (h e)) \<Longrightarrow> exits Q (catchE m h)"
  by (fastforce simp: exits_def catchE_def split: prod.splits sum.splits)

lemma exits_tryE [reject_rules]: "exits Q (tryE m)"
  by (simp add: exits_def tryE_def split: prod.splits)

lemma exits_state: "exits Q (putE f)" "exits Q (getE g)"
  by (simp_all add: exits_def putE_def getE_def)

lemma exits_cases [reject_rules]:
  "(b \<Longrightarrow> exits Q m1) \<Longrightarrow> (\<not> b \<Longrightarrow> exits Q m2) \<Longrightarrow> exits Q (if b then m1 else m2)"
  "exits Q m3 \<Longrightarrow> (\<And>a. exits Q (f a)) \<Longrightarrow> exits Q (case x of None \<Rightarrow> m3 | Some a \<Rightarrow> f a)"
  "(\<And>e. exits Q (g e)) \<Longrightarrow> (\<And>a. exits Q (h a)) \<Longrightarrow> exits Q (case y of Inl e \<Rightarrow> g e | Inr a \<Rightarrow> h a)"
  "(\<And>a b. exits Q (k a b)) \<Longrightarrow> exits Q (case z of (a, b) \<Rightarrow> k a b)"
  "exits Q m4 \<Longrightarrow> exits Q (whenE b m4)"
  by (auto simp: whenE_def exits_ret split: option.split sum.split prod.split)

lemma exits_reject [reject_rules]:
  "map_of codeMessages c \<noteq> None \<Longrightarrow> (\<And>w. Q (answer s c (w_header w)) w) \<Longrightarrow> exits Q (reject s c)"
  by (simp add: exits_def reject_eq)

lemma exits_internal [reject_rules]:
  "(\<And>w k. Q (answer 500 ''internal_error'' (w_header w)) (w\<lparr>w_log := k\<rparr>)) \<Longrightarrow> exits Q (internal msg)"
  by (simp add: exits_def internal_eq)

lemma exits_steps [reject_rules]:
  "exits Q (logE lv msg)" "exits Q (writeJSON s v)" "exits Q (writeStatus s)" "exits Q next_call"
  "exits Q (setSessionCookie r t a)" "exits Q (setGuestCookie r t a)" "exits Q (clearSessionCookie r)"
  "exits Q (clearGuestCookie r)"
  unfolding logE_def writeJSON_def writeStatus_def setSessionCookie_def setGuestCookie_def
    clearSessionCookie_def clearGuestCookie_def SetCookie_def
  by (intro exits_state | simp add: exits_def next_call_def)+

lemma exits_total [reject_rules]:
  "exits Q (dropGuest env msg r)" "exits Q (resolveGuest env r)" "exits Q (recordCounterAnomalies L old new)"
  unfolding dropGuest_def resolveGuest_def recordCounterAnomalies_def by (intro reject_rules)+

lemmas fragment_defs = orInternal_def someOrInternal_def decodeBody_def decodeBegin_def decodeComplete_def
  takeChallenge_def requireUser_def warnReject_def verifyAttestation_def

text \<open>
  Every early exit of a handler is one of the stable errors of \<open>response.go\<close>: the codes the
  handlers use are all in the table, so \<open>writeError\<close> never falls back.
\<close>

definition error_response :: "response \<Rightarrow> bool" where
  "error_response r \<longleftrightarrow> resp_JSON r \<and> resp_Status r \<in> {400, 401, 404, 409, 500}
     \<and> (\<exists>(code, msg) \<in> set codeMessages. resp_Body r = Some (errorBody code msg))"

abbreviation rejects :: "('w, response, 'a) act \<Rightarrow> bool" where
  "rejects m \<equiv> exits (\<lambda>r _. error_response r) m"

lemma error_answer:
  "map_of codeMessages c \<noteq> None \<Longrightarrow> s \<in> {400, 401, 404, 409, 500} \<Longrightarrow> error_response (answer s c h)"
  by (fastforce simp: error_response_def dest: map_of_SomeD)

lemma codes_known:
  "map_of codeMessages ''invalid_request'' \<noteq> None" "map_of codeMessages ''missing_fields'' \<noteq> None"
  "map_of codeMessages ''username_taken'' \<noteq> None" "map_of codeMessages ''credential_exists'' \<noteq> None"
  "map_of codeMessages ''session_invalid'' \<noteq> None" "map_of codeMessages ''attestation_rejected'' \<noteq> None"
  "map_of codeMessages ''unauthorized'' \<noteq> None" "map_of codeMessages ''not_found'' \<noteq> None"
  "map_of codeMessages ''last_credential'' \<noteq> None" "map_of codeMessages ''guest_invalid'' \<noteq> None"
  "map_of codeMessages ''not_a_guest'' \<noteq> None" "map_of codeMessages ''internal_error'' \<noteq> None"
  by (simp_all add: codeMessages_def)

text \<open>
  One argument for all handlers: they leave early by an error response of the table, or by
  the internal error with one more log line.
\<close>

lemma fragments_exit:
  assumes "\<And>c s w. map_of codeMessages c \<noteq> None \<Longrightarrow> s \<in> {400, 401, 404, 409} \<Longrightarrow> Q (answer s c (w_header w)) w"
    and "\<And>w k. Q (answer 500 ''internal_error'' (w_header w)) (w\<lparr>w_log := k\<rparr>)"
  shows "exits Q (orInternal msg m)" and "exits Q (someOrInternal msg x)" and "exits Q (decodeBegin r)"
    and "exits Q (decodeComplete r)" and "exits Q (takeChallenge env msg i)" and "exits Q (requireUser r)"
    and "exits Q (verifyAttestation env m1 m2 u d b)" and "exits Q (warnReject msg 400 ''invalid_request'')"
    and "exits Q (warnReject msg 401 ''unauthorized'')"
  unfolding fragment_defs by (intro reject_rules assms codes_known; simp)+

lemma handlers_exit:
  assumes "\<And>c s w. map_of codeMessages c \<noteq> None \<Longrightarrow> s \<in> {400, 401, 404, 409} \<Longrightarrow> Q (answer s c (w_header w)) w"
    and "\<And>w k. Q (answer 500 ''internal_error'' (w_header w)) (w\<lparr>w_log := k\<rparr>)"
  shows "exits Q (BeginRegister env r)" and "exits Q (CompleteRegister env r)" and "exits Q (BeginLogin env r)"
    and "exits Q (CompleteLogin env r)" and "exits Q (Logout env r)" and "exits Q (BeginPromote env r)"
    and "exits Q (CompletePromote env r)" and "exits Q (Me L r)" and "exits Q (ListCredentials L T r)"
    and "exits Q (DeleteCredential L r)"
  unfolding BeginRegister_def CompleteRegister_def BeginLogin_def CompleteLogin_def Logout_def
    BeginPromote_def CompletePromote_def Me_def ListCredentials_def DeleteCredential_def Let_def
  by (intro fragments_exit reject_rules assms codes_known; simp)+

lemma handlers_reject:
  "rejects (BeginRegister env r)" "rejects (CompleteRegister env r)" "rejects (BeginLogin env r)"
  "rejects (CompleteLogin env r)" "rejects (Logout env r)" "rejects (BeginPromote env r)"
  "rejects (CompletePromote env r)" "rejects (Me L r)" "rejects (ListCredentials L T r)"
  "rejects (DeleteCredential L r)"
  by (rule handlers_exit; auto simp: error_answer codes_known)+

definition has_code :: "string \<Rightarrow> response \<Rightarrow> bool" where
  "has_code c resp \<longleftrightarrow> (\<exists>msg. resp_Body resp = Some (errorBody c msg))"

lemma has_code_answer [simp]: "has_code c (answer s c' h) \<longleftrightarrow> c' = c"
  by (auto simp: has_code_def errorBody_def)

text \<open>A response with that code passes the fragments that avoid it.\<close>

lemma past_fragment:
  assumes "bindE m f w = (Inl resp, w')" and "avoids P m" and "P resp"
  obtains a w1 where "m w = (Inr a, w1)" and "f a w1 = (Inl resp, w')"
  using assms by (auto simp: exits_def bindE_def split: prod.splits sum.splits)

text \<open>
  \<open>refuses P f m\<close>: when \<open>m\<close> ends with a response with \<open>P\<close>, the part \<open>f\<close> of the state is
  as before. Either no step before that exit touches \<open>f\<close>, or the exit is not one with \<open>P\<close>.
\<close>

definition refuses :: "(response \<Rightarrow> bool) \<Rightarrow> ('w \<Rightarrow> 'x) \<Rightarrow> ('w, response, 'a) act \<Rightarrow> bool" where
  "refuses P f m \<longleftrightarrow> (\<forall>w resp w'. m w = (Inl resp, w') \<longrightarrow> P resp \<longrightarrow> f w' = f w)"

lemma refusesD: "refuses P f m \<Longrightarrow> m w = (Inl resp, w') \<Longrightarrow> P resp \<Longrightarrow> f w' = f w"
  by (auto simp: refuses_def)

lemma refuses_keeps: "keeps f m \<Longrightarrow> refuses P f m"
  by (auto simp: refuses_def dest: keepsD)

lemma refuses_avoids: "avoids P m \<Longrightarrow> refuses P f m"
  by (auto simp: refuses_def exits_def)

lemma refuses_step:
  assumes "keeps f m" and "\<And>a. refuses P f (g a)"
  shows "refuses P f (bindE m g)"
  unfolding refuses_def
proof (intro allI impI)
  fix w resp w' assume run: "bindE m g w = (Inl resp, w')" and P: "P resp"
  obtain x w1 where m: "m w = (x, w1)" by (cases "m w")
  have "f w1 = f w" using assms(1) m by (rule keepsD)
  then show "f w' = f w"
    using run m P refusesD [OF assms(2)] by (cases x) (auto simp: bindE_def)
qed

lemma refuses_last:
  assumes "refuses P f m" and "\<And>a. avoids P (g a)"
  shows "refuses P f (bindE m g)"
  using assms by (auto simp: refuses_def exits_def bindE_def split: prod.splits sum.splits) blast+

lemma refuses_catchE:
  assumes "\<And>e w w'. m w = (Inl e, w') \<Longrightarrow> f w' = f w \<and> keeps f (h e) \<or> avoids P (h e)"
  shows "refuses P f (catchE m h)"
  unfolding refuses_def
proof (intro allI impI)
  fix w resp w' assume run: "catchE m h w = (Inl resp, w')" and "P resp"
  then obtain e w1 where "m w = (Inl e, w1)" and "h e w1 = (Inl resp, w')"
    by (auto simp: catchE_def split: prod.splits sum.splits)
  then show "f w' = f w"
    using assms \<open>P resp\<close> by (metis exits_def keepsD)
qed

lemma refuses_cases:
  "(b \<Longrightarrow> refuses P f m1) \<Longrightarrow> (\<not> b \<Longrightarrow> refuses P f m2) \<Longrightarrow> refuses P f (if b then m1 else m2)"
  "refuses P f m3 \<Longrightarrow> (\<And>a. refuses P f (g a)) \<Longrightarrow> refuses P f (case x of None \<Rightarrow> m3 | Some a \<Rightarrow> g a)"
  "(\<And>a b. refuses P f (k a b)) \<Longrightarrow> refuses P f (case z of (a, b) \<Rightarrow> k a b)"
  by (auto split: option.split prod.split)

text \<open>A response that is not an error comes from the end of the handler.\<close>

lemma serve_success:
  assumes "serve h w = (resp, w')" and "rejects h" and "resp_Status resp \<in> {200, 204}"
  shows "h w = (Inr resp, w')"
  using assms by (auto simp: serve_def error_response_def split: prod.splits sum.splits dest!: exitsD)

section \<open>Successes\<close>

text \<open>The user that \<open>complete\<close> hands to the library.\<close>

definition stored_user :: "('rd, 'sess, 'pc, 'pa) auth_env \<Rightarrow> 'sess registrationSession \<Rightarrow> wa_user" where
  "stored_user env stored =
     \<lparr>Handle = sess_UserID (env_webauthn env) (reg_Session stored), wa_Name = reg_Username stored,
      wa_DisplayName = reg_DisplayName stored, wa_Credentials = None\<rparr>"

lemma CompleteRegister_on:
  assumes "CompleteRegister env r w = (Inr resp, w')"
  obtains sessionID body raw w1 stored parsed cred user w2 domainCred saved
  where "complete_envelope r = Some (sessionID, body)"
    and "ChallengeStore_Take (env_redis env) sessionID w = (Inr raw, w1)"
    and "unmarshal_registrationSession env raw = Some stored" and "\<not> reg_Promote stored"
    and "lib_ParseCreation (env_webauthn env) body = Some parsed"
    and "lib_CreateCredential (env_webauthn env) (w_now w1) (stored_user env stored) (reg_Session stored) parsed
           = Some cred"
    and "checkAttestationPolicy cred = None"
    and "UserStore_CreateRegistered (reg_Username stored) (reg_DisplayName stored) w1 = (Inr user, w2)"
    and "domainCredentialFromLib (env_uuid env) (user_ID user) (Handle (stored_user env stored)) cred
           = Some domainCred"
    and "CredentialStore_Insert domainCred w2 = (Inr saved, w')"
    and "resp = \<lparr>resp_Status = 200, resp_JSON = True, resp_Cookies = w_header w',
                 resp_Body = Some (completeRegisterResponse env (user_ID user) (cred_ID saved)), resp_Page = None\<rparr>"
  using assms that
  by (auto simp: CompleteRegister_def exit_simps Let_def stored_user_def
      elim!: bindE_InrE verifyAttestation_on split: if_splits)

lemma CompletePromote_on:
  assumes "CompletePromote env r w = (Inr resp, w')"
  obtains sessionID body raw w1 stored parsed cred promoted w2 domainCred saved w3 token w4 w5
  where "complete_envelope r = Some (sessionID, body)"
    and "ChallengeStore_Take (env_redis env) sessionID w = (Inr raw, w1)"
    and "unmarshal_registrationSession env raw = Some stored" and "reg_Promote stored"
    and "lib_ParseCreation (env_webauthn env) body = Some parsed"
    and "lib_CreateCredential (env_webauthn env) (w_now w1) (stored_user env stored) (reg_Session stored) parsed
           = Some cred"
    and "checkAttestationPolicy cred = None"
    and "UserStore_PromoteGuest (reg_PromoteUserID stored) (reg_Username stored) (reg_DisplayName stored) w1
           = (Inr promoted, w2)"
    and "domainCredentialFromLib (env_uuid env) (user_ID promoted) (Handle (stored_user env stored)) cred
           = Some domainCred"
    and "CredentialStore_Insert domainCred w2 = (Inr saved, w3)"
    and "SessionStore_Create (env_redis env) (env_uuid env) (env_sessionTTL env) (user_ID promoted) w3
           = (Inr token, w4)"
    and "dropGuest env ''promote complete: delete guest'' r w4 = (Inr (), w5)"
    and "setSessionCookie r token (sessionMaxAge env) w5 = (Inr () :: response + unit, w')"
    and "resp = \<lparr>resp_Status = 200, resp_JSON = True, resp_Cookies = w_header w',
                 resp_Body = Some (completeLoginResponse env promoted), resp_Page = None\<rparr>"
  using assms that
  by (auto simp: CompletePromote_def exit_simps Let_def stored_user_def
      elim!: bindE_InrE verifyAttestation_on split: if_splits)

lemma CompleteLogin_on:
  assumes "CompleteLogin env r w = (Inr resp, w')"
  obtains sessionID body raw w1 stored parsed cred user found w2 w3 w4 token w5 w6
  where "complete_envelope r = Some (sessionID, body)"
    and "ChallengeStore_Take (env_redis env) sessionID w = (Inr raw, w1)"
    and "unmarshal_loginSession env raw = Some stored"
    and "lib_ParseAssertion (env_webauthn env) body = Some parsed"
    and "Service_ValidateLogin (env_webauthn env) (resolver (env_webauthn env) parsed) (None, None)
           (login_Session stored) parsed w1 = (Inr (cred, (Some user, Some found)), w2)"
    and "recordCounterAnomalies (env_uuid env) found cred w2 = (Inr () :: response + unit, w3)"
    and "CredentialStore_UpdateAfterAssertion (cred_ID found) (au_SignCount (lib_Authenticator cred))
           (fl_BackupEligible (lib_Flags cred)) (fl_BackupState (lib_Flags cred)) w3 = (Inr (), w4)"
    and "SessionStore_Create (env_redis env) (env_uuid env) (env_sessionTTL env) (user_ID user) w4
           = (Inr token, w5)"
    and "setSessionCookie r token (sessionMaxAge env) w5 = (Inr () :: response + unit, w6)"
    and "dropGuest env ''login complete: delete guest'' r w6 = (Inr (), w')"
    and "resp = \<lparr>resp_Status = 200, resp_JSON = True, resp_Cookies = w_header w',
                 resp_Body = Some (completeLoginResponse env user), resp_Page = None\<rparr>"
  using assms that
  by (auto simp: CompleteLogin_def exit_simps Service_ParseCredentialAssertion_def failE_def
      elim!: bindE_InrE split: if_splits option.splits)

lemma BeginRegistration_on:
  assumes "Service_BeginRegistration W u i w = (Inr (options, session), w')"
  obtains creation where "options = CreationOptions creation i"
    and "lib_BeginRegistration W (w_now w) (w_calls w) u = Some (creation, Some session)"
  using assms
  by (auto simp: Service_BeginRegistration_def next_call_def getE_def ret_def failE_def
      elim!: bindE_InrE split: option.splits)

lemma BeginLogin_service_on:
  assumes "Service_BeginLogin W i w = (Inr (options, session), w')"
  obtains assertion where "options = AssertionOptions assertion i"
    and "lib_BeginDiscoverableLogin W (w_now w) (w_calls w) = Some (assertion, Some session)"
  using assms
  by (auto simp: Service_BeginLogin_def next_call_def getE_def ret_def failE_def
      elim!: bindE_InrE split: option.splits)

definition register_payload ::
  "'sess \<Rightarrow> beginRegisterRequest \<Rightarrow> uuid \<Rightarrow> bool \<Rightarrow> 'sess registrationSession" where
  "register_payload session q u promote =
     \<lparr>reg_Session = session, reg_Username = begin_Username q, reg_DisplayName = begin_DisplayName q,
      reg_PromoteUserID = u, reg_Promote = promote\<rparr>"

definition begin_user :: "slice \<Rightarrow> beginRegisterRequest \<Rightarrow> wa_user" where
  "begin_user handle q =
     \<lparr>Handle = handle, wa_Name = begin_Username q, wa_DisplayName = begin_DisplayName q,
      wa_Credentials = None\<rparr>"

lemma BeginRegister_on:
  assumes "BeginRegister env r w = (Inr resp, w')"
  obtains q w1 handle w2 sessionID w3 options session w4 payload
  where "begin_envelope r = Some q"
    and "UserStore_GetByUsername (begin_Username q) w = (Inl ErrUserNotFound, w1)"
    and "NewUserHandle w1 = (Inr handle, w2)" and "newSessionID w2 = (Inr sessionID, w3)"
    and "Service_BeginRegistration (env_webauthn env) (begin_user handle q) sessionID w3
           = (Inr (options, session), w4)"
    and "marshal_registrationSession env (register_payload session q uuid_Nil False) = Some payload"
    and "ChallengeStore_Save (env_redis env) (env_challengeTTL env) sessionID payload w4 = (Inr (), w')"
    and "resp = \<lparr>resp_Status = 200, resp_JSON = True, resp_Cookies = w_header w', resp_Body = Some options, resp_Page = None\<rparr>"
  using assms that
  by (auto simp: BeginRegister_def exit_simps tryE_Inr register_payload_def begin_user_def
      elim!: bindE_InrE split: sum.splits if_splits)

lemma BeginPromote_on:
  assumes "BeginPromote env r w = (Inr resp, w')"
  obtains q guest w1 handle w2 sessionID w3 options session w4 payload
  where "begin_envelope r = Some q"
    and "resolveGuest env r w = (Inr (Some guest) :: response + user option, w1)" and "IsGuest guest"
    and "NewUserHandle w1 = (Inr handle, w2)" and "newSessionID w2 = (Inr sessionID, w3)"
    and "Service_BeginRegistration (env_webauthn env) (begin_user handle q) sessionID w3
           = (Inr (options, session), w4)"
    and "marshal_registrationSession env (register_payload session q (user_ID guest) True) = Some payload"
    and "ChallengeStore_Save (env_redis env) (env_challengeTTL env) sessionID payload w4 = (Inr (), w')"
    and "resp = \<lparr>resp_Status = 200, resp_JSON = True, resp_Cookies = w_header w', resp_Body = Some options, resp_Page = None\<rparr>"
  using assms that
  by (auto simp: BeginPromote_def exit_simps register_payload_def begin_user_def
      elim!: bindE_InrE split: option.splits if_splits)

lemma BeginLogin_on:
  assumes "BeginLogin env r w = (Inr resp, w')"
  obtains sessionID w1 options session w2 payload
  where "newSessionID w = (Inr sessionID, w1)"
    and "Service_BeginLogin (env_webauthn env) sessionID w1 = (Inr (options, session), w2)"
    and "marshal_loginSession env \<lparr>login_Session = session\<rparr> = Some payload"
    and "ChallengeStore_Save (env_redis env) (env_challengeTTL env) sessionID payload w2 = (Inr (), w')"
    and "resp = \<lparr>resp_Status = 200, resp_JSON = True, resp_Cookies = w_header w', resp_Body = Some options, resp_Page = None\<rparr>"
  using assms that by (auto simp: BeginLogin_def exit_simps elim!: bindE_InrE)

section \<open>Payloads survive the challenge store\<close>

lemma registrationSession_round_trip:
  assumes "session_data_ok (env_webauthn env)" and "uuid_lib_ok (env_uuid env)"
    and "marshal_registrationSession env s = Some j"
  obtains s' where "unmarshal_registrationSession env (RDoc j) = Some s'"
    and "reg_Username s' = reg_Username s" and "reg_DisplayName s' = reg_DisplayName s"
    and "reg_PromoteUserID s' = reg_PromoteUserID s" and "reg_Promote s' = reg_Promote s"
    and "sess_UserID (env_webauthn env) (reg_Session s') = sess_UserID (env_webauthn env) (reg_Session s)"
proof -
  obtain js where js: "sess_marshal (env_webauthn env) (reg_Session s) = Some js"
    using assms(3) by (auto simp: marshal_registrationSession_def split: option.splits)
  then obtain d where "sess_unmarshal (env_webauthn env) js (sess_zero (env_webauthn env)) = Some d"
    and "sess_UserID (env_webauthn env) d = sess_UserID (env_webauthn env) (reg_Session s)"
    using assms(1) unfolding session_data_ok_def by blast
  then show thesis
    using that assms(2,3) js
    by (auto simp: marshal_registrationSession_def unmarshal_registrationSession_def
        registrationSession_fields_def zero_registrationSession_def field_for_def uuid_field_def
        uuid_lib_ok_def split: if_splits)
qed

text \<open>
  A payload of \<open>/login/begin\<close> also decodes as a registration session: with empty names and
  not marked as a promotion, and with the login's user id.
\<close>

lemma loginSession_as_registrationSession:
  assumes "session_data_ok (env_webauthn env)" and "marshal_loginSession env s = Some j"
  obtains s' where "unmarshal_registrationSession env (RDoc j) = Some s'"
    and "reg_Username s' = ''''" and "reg_DisplayName s' = ''''" and "\<not> reg_Promote s'"
    and "sess_UserID (env_webauthn env) (reg_Session s') = sess_UserID (env_webauthn env) (login_Session s)"
proof -
  obtain js where js: "sess_marshal (env_webauthn env) (login_Session s) = Some js" "j = JObj [(''session'', js)]"
    using assms(2) by (auto simp: marshal_loginSession_def)
  then obtain d where "sess_unmarshal (env_webauthn env) js (sess_zero (env_webauthn env)) = Some d"
    and "sess_UserID (env_webauthn env) d = sess_UserID (env_webauthn env) (login_Session s)"
    using assms(1) unfolding session_data_ok_def by blast
  then show thesis
    using that js
    by (auto simp: unmarshal_registrationSession_def registrationSession_fields_def
        zero_registrationSession_def field_for_def)
qed

text \<open>The three endpoints that consume a challenge.\<close>

definition complete_handlers ::
  "('rd, 'sess, 'pc, 'pa) auth_env \<Rightarrow> (request \<Rightarrow> ('rd, response) handler_act) set" where
  "complete_handlers env = {CompleteRegister env, CompleteLogin env, CompletePromote env}"

section \<open>A challenge that is spent\<close>

definition spent :: "(time \<Rightarrow> 'rd \<Rightarrow> string \<Rightarrow> rval option) \<Rightarrow> string \<Rightarrow> 'rd world \<Rightarrow> bool" where
  "spent H i w \<longleftrightarrow> (\<forall>t. w_now w \<le> t \<longrightarrow> challenge_at H t w i = None)"

text \<open>What the key of a challenge holds from now on.\<close>

definition chal_view ::
  "(time \<Rightarrow> 'rd \<Rightarrow> string \<Rightarrow> rval option) \<Rightarrow> string \<Rightarrow> 'rd world \<Rightarrow> time \<times> (time \<Rightarrow> rval option)" where
  "chal_view H i w = (w_now w, \<lambda>t. if w_now w \<le> t then challenge_at H t w i else None)"

lemma chal_view_eqI:
  "w_now w' = w_now w \<Longrightarrow>
   (\<And>t. w_now w \<le> t \<Longrightarrow> H t (w_rd w') (challengeKeyPrefix @ i) = H t (w_rd w) (challengeKeyPrefix @ i)) \<Longrightarrow>
   chal_view H i w' = chal_view H i w"
  by (auto simp: chal_view_def challenge_at_def fun_eq_iff)

lemma chal_view_simps [simp]:
  "chal_view H i (w\<lparr>w_epos := n\<rparr>) = chal_view H i w" "chal_view H i (w\<lparr>w_calls := n\<rparr>) = chal_view H i w"
  "chal_view H i (w\<lparr>w_pg := p\<rparr>) = chal_view H i w" "chal_view H i (w\<lparr>w_upos := n\<rparr>) = chal_view H i w"
  "chal_view H i (w\<lparr>w_log := l\<rparr>) = chal_view H i w" "chal_view H i (w\<lparr>w_header := h\<rparr>) = chal_view H i w"
  "chal_view H i (w\<lparr>w_users := us\<rparr>) = chal_view H i w" "chal_view H i (w\<lparr>w_creds := cs\<rparr>) = chal_view H i w"
  by (rule chal_view_eqI; simp)+

lemma spent_view: "spent H i w \<longleftrightarrow> snd (chal_view H i w) = (\<lambda>_. None)"
  by (auto simp: spent_def chal_view_def fun_eq_iff)

context redis_stores begin

lemma keeps_view:
  "keeps (chal_view holds_at i) (SessionStore_Create R L ttl u)"
  "keeps (chal_view holds_at i) (GuestStore_Delete R tok)"
proof -
  have now: "keeps w_now (SessionStore_Create R L ttl u)" "keeps w_now (GuestStore_Delete R tok)"
    by (intro keeps_rules; simp)+
  show "keeps (chal_view holds_at i) (SessionStore_Create R L ttl u)"
    by (rule keepsI, rule chal_view_eqI) (auto dest: keepsD [OF now(1)] intro: Create_other(1))
  show "keeps (chal_view holds_at i) (GuestStore_Delete R tok)"
    by (rule keepsI, rule chal_view_eqI) (auto dest: keepsD [OF now(2)] intro: Delete_other(2))
qed

lemma keeps_view_dropGuest: "keeps (chal_view holds_at i) (dropGuest env msg r)" if "env_redis env = R"
  unfolding dropGuest_def that
  by (cases "cookie_value GuestCookieName r")
     (auto intro!: keeps_ret keeps_bindE keeps_catchE keeps_view(2) keeps_logE keeps_cookies)

text \<open>
  The common shape of the three \<open>complete\<close> handlers: decode, take the challenge, go on.
  Unless the challenge store fails, the id is spent afterwards; and a spent id is refused.
\<close>

lemma takeChallenge_spends:
  assumes "takeChallenge env msg i w = (x, w')" and "env_redis env = R"
  shows "spent holds_at i w' \<or> (\<exists>resp. x = Inl resp \<and> resp_Status resp = 500)"
proof (cases "ChallengeStore_Take R i w")
  case (Pair y w1)
  have now: "w_now w1 = w_now w"
    using Pair by (rule keepsD [OF keeps_redis_stores(6), rotated]) simp
  show ?thesis
  proof (cases "y = Inl (Wrapped ''take challenge'' RedisCause)")
    case True
    with assms Pair show ?thesis by (auto simp: takeChallenge_def catchE_def internal_eq)
  next
    case False
    with Pair have ok: "\<exists>raw. y = Inr raw \<or> y = Inl ErrChallengeNotFound"
      by (cases y) (auto simp: ChallengeStore_Take_def dest!: redisFetch_Inl)
    then have "spent holds_at i w1"
      using Take_consumes [OF Pair] now by (auto simp: spent_def)
    moreover from ok have "w' = w1"
      using assms Pair by (auto simp: takeChallenge_def catchE_def reject_eq codeMessages_def)
    ultimately show ?thesis by blast
  qed
qed

lemma complete_spends:
  assumes "complete_envelope r = Some (i, b)" and "env_redis env = R"
    and "\<And>raw. keeps (chal_view holds_at i) (f i b raw)"
    and "serve (bindE (decodeComplete r) (\<lambda>(i, b). bindE (takeChallenge env msg i) (f i b))) w = (resp, w')"
    and "resp_Status resp \<noteq> 500"
  shows "spent holds_at i w'"
proof -
  have dec: "decodeComplete r w = (Inr (i, b), w)"
    using assms(1) by (simp add: decodeComplete_on)
  obtain x w1 where take: "takeChallenge env msg i w = (x, w1)"
    by (cases "takeChallenge env msg i w")
  show ?thesis
  proof (cases x)
    case (Inl e)
    then show ?thesis
      using assms(4,5) dec take takeChallenge_spends [OF take assms(2)]
      by (simp add: serve_bindE)
  next
    case (Inr raw)
    then have "spent holds_at i w1"
      using takeChallenge_spends [OF take assms(2)] by simp
    moreover have "w' = snd (serve (f i b raw) w1)"
      using assms(4) dec take Inr by (simp add: serve_bindE)
    ultimately show ?thesis
      using keeps_serve [OF assms(3)] by (simp add: spent_view)
  qed
qed

lemma complete_refuses:
  assumes "complete_envelope r = Some (i, b)" and "env_redis env = R"
    and "challenge_at holds_at (w_now w) w i = None"
    and "serve (bindE (decodeComplete r) (\<lambda>(i, b). bindE (takeChallenge env msg i) (f i b))) w = (resp, w')"
  shows "resp_Status resp \<in> {401, 500}" and "db w' = db w"
proof -
  have dec: "decodeComplete r w = (Inr (i, b), w)"
    using assms(1) by (simp add: decodeComplete_on)
  have db: "db w1 = db w" if "ChallengeStore_Take R i w = (y, w1)" for y w1
    using that by (rule keepsD [OF keeps_redis_stores(6), rotated]) simp
  have "resp_Status resp \<in> {401, 500} \<and> db w' = db w"
    by (rule Take_gone [OF assms(3)])
       (use assms(4) dec db in \<open>auto simp: serve_bindE takeChallenge_def assms(2) catchE_def reject_eq internal_eq codeMessages_def\<close>)
  then show "resp_Status resp \<in> {401, 500}" and "db w' = db w" by auto
qed

end

context redis_stores begin

lemma complete_handlers_spend:
  assumes "h \<in> complete_handlers env" and "env_redis env = R" and "env_uuid env = L"
    and "complete_envelope r = Some (i, b)" and "serve (h r) w = (resp, w')" and "resp_Status resp \<noteq> 500"
  shows "spent holds_at i w'"
proof -
  from assms(1) consider "h = CompleteRegister env" | "h = CompleteLogin env" | "h = CompletePromote env"
    by (auto simp: complete_handlers_def)
  then show ?thesis
  proof cases
    case 1
    show ?thesis
      by (rule complete_spends [OF assms(4,2) _ assms(5,6) [unfolded 1 CompleteRegister_def]], unfold Let_def)
         (rule keeps_rules | (simp; fail))+
  next
    case 2
    show ?thesis
      by (rule complete_spends [OF assms(4,2) _ assms(5,6) [unfolded 2 CompleteLogin_def]], unfold assms(2,3))
         (rule keeps_view(1) keeps_view_dropGuest [OF assms(2)] keeps_rules | (simp; fail))+
  next
    case 3
    show ?thesis
      by (rule complete_spends [OF assms(4,2) _ assms(5,6) [unfolded 3 CompletePromote_def]],
          unfold assms(2,3) Let_def)
         (rule keeps_view(1) keeps_view_dropGuest [OF assms(2)] keeps_rules | (simp; fail))+
  qed
qed

lemma complete_handlers_refuse:
  assumes "h \<in> complete_handlers env" and "env_redis env = R" and "complete_envelope r = Some (i, b)"
    and "challenge_at holds_at (w_now w) w i = None" and "serve (h r) w = (resp, w')"
  shows "resp_Status resp \<in> {401, 500} \<and> db w' = db w"
proof -
  from assms(1) consider "h = CompleteRegister env" | "h = CompleteLogin env" | "h = CompletePromote env"
    by (auto simp: complete_handlers_def)
  then show ?thesis
  proof cases
    case 1
    show ?thesis
      using complete_refuses [OF assms(3,2,4) assms(5) [unfolded 1 CompleteRegister_def]] by blast
  next
    case 2
    show ?thesis
      using complete_refuses [OF assms(3,2,4) assms(5) [unfolded 2 CompleteLogin_def]] by blast
  next
    case 3
    show ?thesis
      using complete_refuses [OF assms(3,2,4) assms(5) [unfolded 3 CompletePromote_def]] by blast
  qed
qed

end

end
