(* ===== verification/Sample_Environment.thy ===== *)
theory Sample_Environment
  imports Handler_Exits
begin

text \<open>
  An instance of every parameter of the model, for the concrete runs: the Redis server with
  a map, the uuid library that prints bytes, and the library \<open>toy_webauthn\<close> below.
\<close>

section \<open>A library for the concrete runs\<close>

text \<open>
  Session data is the pair of user id and challenge number, its JSON form an array; the
  session of a discoverable login has no user id (\<open>nil\<close>, JSON \<open>null\<close>). A
  creation response names the challenge and carries the new credential id; it verifies if
  the challenge is that of the session. An assertion response carries the credential id;
  the library asks for the user and accepts the first credential it is given, with the
  counter raised by one.
\<close>

type_synonym toy_session = "slice \<times> nat"

definition toy_credential :: "bytes \<Rightarrow> lib_credential" where
  "toy_credential i =
     \<lparr>lib_ID = Some i, lib_PublicKey = Some [7], lib_AttestationType = ''none'', lib_AttestationFormat = ''none'',
      lib_Transport = [], lib_Flags = \<lparr>fl_BackupEligible = True, fl_BackupState = True\<rparr>,
      lib_Authenticator = \<lparr>au_AAGUID = [], au_SignCount = 0\<rparr>\<rparr>"

definition toy_login :: "bytes \<Rightarrow> login_prog" where
  "toy_login i = CallHandler (Some i) None (\<lambda>u. LoginDone (case u of
      None \<Rightarrow> None
    | Some u \<Rightarrow> (case WebAuthnCredentials u of
        [] \<Rightarrow> None
      | c # _ \<Rightarrow> Some (c\<lparr>lib_Authenticator := (lib_Authenticator c)\<lparr>au_SignCount :=
          au_SignCount (lib_Authenticator c) + 1\<rparr>\<rparr>))))"

definition toy_webauthn :: "(toy_session, nat \<times> bytes, bytes) webauthn_lib" where
  "toy_webauthn =
     \<lparr>lib_BeginRegistration = (\<lambda>t n u. Some (JNull, Some (WebAuthnID u, n))),
      lib_FinishRegistration = (\<lambda>t u s r. None),
      lib_CreateCredential = (\<lambda>t u s p. if fst p = snd s then Some (toy_credential (snd p)) else None),
      lib_ParseCreation = (\<lambda>j. case j of JStr s \<Rightarrow> Some (0, map (\<lambda>c. of_nat (of_char c)) s) | _ \<Rightarrow> None),
      lib_BeginDiscoverableLogin = (\<lambda>t n. Some (JNull, Some (None, n))),
      lib_ValidateDiscoverableLogin = (\<lambda>t s i. toy_login i),
      lib_ParseAssertion = (\<lambda>j. case j of JStr s \<Rightarrow> Some (map (\<lambda>c. of_nat (of_char c)) s) | _ \<Rightarrow> None),
      pa_RawID = Some, sess_UserID = fst, sess_zero = (None, 0),
      sess_marshal = (\<lambda>(u, n). Some (JArr
          [case u of None \<Rightarrow> JNull | Some h \<Rightarrow> JStr (map (\<lambda>b. char_of (unat b)) h),
           JNum (replicate n CHR ''1'')])),
      sess_unmarshal = (\<lambda>j s. case j of
          JArr [JNull, JNum n] \<Rightarrow> Some (None, length n)
        | JArr [JStr u, JNum n] \<Rightarrow> Some (Some (map (\<lambda>c. of_nat (of_char c)) u), length n)
        | _ \<Rightarrow> None)\<rparr>"

lemma toy_session_data_ok: "session_data_ok toy_webauthn"
proof -
  have "unat (b :: byte) < 256" for b
    using unsigned_less [where 'a = nat, of b] by simp
  then show ?thesis
    by (auto simp: session_data_ok_def toy_webauthn_def comp_def split: option.split)
qed

definition toy_env :: "(rserver, toy_session, nat \<times> bytes, bytes) auth_env" where
  "toy_env =
     \<lparr>env_redis = map_server, env_webauthn = toy_webauthn, env_uuid = raw_uuid_lib,
      env_challengeTTL = 300, env_sessionTTL = 1000, env_guestTTL = 500,
      sessionMaxAge = 86400, guestMaxAge = 3600\<rparr>"

definition request_with :: "json \<Rightarrow> request" where
  "request_with j = \<lparr>req_Method = ''POST'', req_Path = ''/'', req_RemoteAddr = '''', req_Body = Some j,
     req_Cookies = [], req_TLS = True, req_Headers = [], ctx_user = None, url_id = ''''\<rparr>"

text \<open>A challenge as \<open>/register/begin\<close> or \<open>/promote/begin\<close> leaves it, and a request that completes it.\<close>

definition toy_payload :: "string \<Rightarrow> uuid \<Rightarrow> bool \<Rightarrow> json" where
  "toy_payload n u promote = JObj
     ([(''session'', JArr [JStr ''h'', JNum '''']), (''username'', JStr n), (''display_name'', JStr ''Shown''),
       (''promote_user_id'', JStr (uuid_String raw_uuid_lib u))]
      @ (if promote then [(''promote'', JBool True)] else []))"

definition with_challenge :: "json \<Rightarrow> rserver world \<Rightarrow> rserver world" where
  "with_challenge p w = w\<lparr>w_rd := rs_put (challengeKeyPrefix @ ''sid'') (RDoc p) (w_now w + 300) (w_rd w)\<rparr>"

definition toy_complete :: request where
  "toy_complete = request_with (JObj [(''session_id'', JStr ''sid''), (''credential'', JStr ''k'')])"

definition toy_start :: "rserver world" where
  "toy_start = start_world empty_server"

text \<open>A concrete run: \<open>begin\<close>, then \<open>complete\<close> with the id that it handed out.\<close>

definition toy_begin :: "string \<Rightarrow> request" where
  "toy_begin n = request_with (JObj [(''username'', JStr n), (''display_name'', JStr ''Shown'')])"

definition body_sid :: "response \<Rightarrow> string" where
  "body_sid resp = (case resp_Body resp of Some (JObj [_, (_, JStr i)]) \<Rightarrow> i | _ \<Rightarrow> '''')"

definition complete_with :: "string \<Rightarrow> request" where
  "complete_with i = request_with (JObj [(''session_id'', JStr i), (''credential'', JStr ''k'')])"

definition toy_begun :: "response \<times> rserver world" where
  "toy_begun = serve (BeginRegister toy_env (toy_begin ''alice'')) toy_start"

lemma toy_begun_run:
  "serve (BeginRegister toy_env (toy_begin ''alice'')) toy_start = (fst toy_begun, snd toy_begun)"
  "resp_Status (fst toy_begun) = 200"
  "resp_Body (fst toy_begun) = Some (CreationOptions JNull (body_sid (fst toy_begun)))"
  "w_now toy_start \<le> w_now (snd toy_begun)"
  "complete_envelope (complete_with (body_sid (fst toy_begun))) = Some (body_sid (fst toy_begun), JStr ''k'')"
  by (simp add: toy_begun_def) code_simp+

text \<open>The commands of a Redis server that does not fail.\<close>

lemma toy_redis:
  assumes "rs_script s = []"
  shows "rc_Set (env_redis toy_env) t k v ttl s = (ROk (), rs_put k v (t + ttl) s)"
    and "rc_Get (env_redis toy_env) t k s = (rs_lookup t k s, s)"
    and "rc_GetDel (env_redis toy_env) t k s = (rs_lookup t k s, rs_remove k s)"
  using assms by (simp_all add: toy_env_def map_server_def rs_command_def rs_next_def)

lemma rs_script_simps [simp]:
  "rs_script (rs_put k v e s) = rs_script s" "rs_script (rs_remove k s) = rs_script s" "rs_script empty_server = []"
  by (simp_all add: rs_put_def rs_remove_def empty_server_def)

lemma toy_take:
  assumes "rs_script (w_rd w) = []" and "challenge_at rs_holds_at (w_now w) w i = Some raw"
  shows "rc_GetDel (env_redis toy_env) (w_now w) (challengeKeyPrefix @ i) (w_rd w)
    = (ROk raw, rs_remove (challengeKeyPrefix @ i) (w_rd w))"
  using assms by (simp add: toy_redis rs_lookup_def challenge_at_def)

lemma toy_stores: "redis_stores (env_redis toy_env) rs_holds_at (env_uuid toy_env)"
  using server_stores.redis_stores_axioms by (simp add: toy_env_def)

lemma toy_ttls [simp]: "ttls_positive toy_env"
  by (simp add: toy_env_def ttls_positive_def)

lemma toy_session_ok: "session_data_ok (env_webauthn toy_env)"
  using toy_session_data_ok by (simp add: toy_env_def)

end
