(* ===== verification/Session_Views.thy ===== *)
theory Session_Views
  imports Sample_Environment
begin

text \<open>
  What the handlers do to the response header and to the sessions: the cookies they set, and
  \<open>sess_view\<close>, the owner of every session token from now on, with the steps that keep it and
  the one that changes it.
\<close>

section \<open>Cookies\<close>

definition session_cookie :: "request \<Rightarrow> string \<Rightarrow> int \<Rightarrow> cookie" where
  "session_cookie r token age =
     \<lparr>ck_Name = SessionCookieName, ck_Value = token, ck_Path = ''/'', ck_HttpOnly = True,
      ck_Secure = isHTTPS r, ck_SameSite = SameSiteLaxMode, ck_MaxAge = age\<rparr>"

definition guest_cookie :: "request \<Rightarrow> string \<Rightarrow> int \<Rightarrow> cookie" where
  "guest_cookie r token age =
     \<lparr>ck_Name = GuestCookieName, ck_Value = token, ck_Path = ''/'', ck_HttpOnly = True,
      ck_Secure = isHTTPS r, ck_SameSite = SameSiteLaxMode, ck_MaxAge = age\<rparr>"

text \<open>What \<open>dropGuest\<close> adds to the header: an expired guest cookie, if one was sent.\<close>

definition dropped_guest :: "request \<Rightarrow> cookie list" where
  "dropped_guest r = (case cookie_value GuestCookieName r of
      None \<Rightarrow> [] | Some _ \<Rightarrow> [guest_cookie r '''' (-1)])"

lemma set_cookies_on [exit_simps]:
  "setSessionCookie r token age w = (Inr (), w') \<longleftrightarrow> w' = w\<lparr>w_header := w_header w @ [session_cookie r token age]\<rparr>"
  "setGuestCookie r token age w = (Inr (), w') \<longleftrightarrow> w' = w\<lparr>w_header := w_header w @ [guest_cookie r token age]\<rparr>"
  "clearGuestCookie r w = (Inr (), w') \<longleftrightarrow> w' = w\<lparr>w_header := w_header w @ [guest_cookie r '''' (-1)]\<rparr>"
  "clearSessionCookie r w = (Inr (), w') \<longleftrightarrow> w' = w\<lparr>w_header := w_header w @ [session_cookie r '''' (-1)]\<rparr>"
  by (simp_all add: setSessionCookie_def setGuestCookie_def clearGuestCookie_def clearSessionCookie_def
      session_cookie_def guest_cookie_def exit_simps)

lemma dropGuest_header:
  assumes "dropGuest env msg r w = (Inr (), w')"
  shows "w_header w' = w_header w @ dropped_guest r"
proof (cases "cookie_value GuestCookieName r")
  case None
  with assms show ?thesis by (simp add: dropGuest_def dropped_guest_def exit_simps)
next
  case (Some tok)
  with assms obtain w1 where "catchE (GuestStore_Delete (env_redis env) tok) (\<lambda>_. logE LevelWarn msg) w
      = (Inr () :: response + unit, w1)" and "clearGuestCookie r w1 = (Inr () :: response + unit, w')"
    by (auto simp: dropGuest_def elim!: bindE_InrE)
  moreover from this(1) have "w_header w1 = w_header w"
    by (rule keepsD [rotated]) (intro keeps_rules; simp)
  ultimately show ?thesis
    using Some by (simp add: dropped_guest_def exit_simps)
qed

section \<open>Sessions from now on\<close>

definition sess_view ::
  "(time \<Rightarrow> 'rd \<Rightarrow> string \<Rightarrow> rval option) \<Rightarrow> uuid_lib \<Rightarrow> 'rd world \<Rightarrow> time \<times> (time \<Rightarrow> string \<Rightarrow> uuid option)" where
  "sess_view H L w = (w_now w, \<lambda>t tok. if w_now w \<le> t then session_owner H L t w tok else None)"

lemma sess_view_eqI:
  "w_now w' = w_now w \<Longrightarrow>
   (\<And>t tok. w_now w \<le> t \<Longrightarrow> H t (w_rd w') (sessionKeyPrefix @ tok) = H t (w_rd w) (sessionKeyPrefix @ tok)) \<Longrightarrow>
   sess_view H L w' = sess_view H L w"
  by (auto simp: sess_view_def session_owner_def token_owner_def fun_eq_iff)

lemma sess_viewD:
  "sess_view H L w' = sess_view H L w \<Longrightarrow> w_now w \<le> t \<Longrightarrow> session_owner H L t w' = session_owner H L t w"
  by (auto simp: sess_view_def fun_eq_iff dest: spec [of _ t])

lemma sess_view_simps [simp]:
  "sess_view H L (w\<lparr>w_epos := n\<rparr>) = sess_view H L w" "sess_view H L (w\<lparr>w_calls := n\<rparr>) = sess_view H L w"
  "sess_view H L (w\<lparr>w_pg := p\<rparr>) = sess_view H L w" "sess_view H L (w\<lparr>w_upos := n\<rparr>) = sess_view H L w"
  "sess_view H L (w\<lparr>w_log := l\<rparr>) = sess_view H L w" "sess_view H L (w\<lparr>w_header := h\<rparr>) = sess_view H L w"
  "sess_view H L (w\<lparr>w_users := us\<rparr>) = sess_view H L w" "sess_view H L (w\<lparr>w_creds := cs\<rparr>) = sess_view H L w"
  by (rule sess_view_eqI; simp)+

context redis_stores begin

lemma keeps_sess_view:
  "keeps (sess_view holds_at L) (ChallengeStore_Take R i)"
  "keeps (sess_view holds_at L) (GuestStore_Delete R tok)"
  "keeps (sess_view holds_at L) (GuestStore_Get R L tok)"
proof -
  have now: "keeps w_now (ChallengeStore_Take R i)" "keeps w_now (GuestStore_Delete R tok)"
    "keeps w_now (GuestStore_Get R L tok)"
    by (intro keeps_rules; simp)+
  show "keeps (sess_view holds_at L) (ChallengeStore_Take R i)"
    by (rule keepsI, rule sess_view_eqI)
       (auto dest: keepsD [OF now(1)] intro: Take_other)
  show "keeps (sess_view holds_at L) (GuestStore_Delete R tok)"
    by (rule keepsI, rule sess_view_eqI)
       (auto dest: keepsD [OF now(2)] intro: Delete_other(2))
  show "keeps (sess_view holds_at L) (GuestStore_Get R L tok)"
    by (rule keepsI, rule sess_view_eqI)
       (auto dest: keepsD [OF now(3)] Get_same(2))
qed

lemma keeps_sess_view_dropGuest: "keeps (sess_view holds_at L) (dropGuest env msg r)" if "env_redis env = R"
  unfolding dropGuest_def that
  by (cases "cookie_value GuestCookieName r")
     (auto intro!: keeps_ret keeps_bindE keeps_catchE keeps_sess_view(2) keeps_logE keeps_cookies)

end

text \<open>
  The steps that end login and promotion: a session is created, the guest token dropped and
  the cookie set; in between the header may change.
\<close>

lemma session_issued:
  assumes stores: "redis_stores (env_redis env) H (env_uuid env)"
    and sess: "SessionStore_Create (env_redis env) (env_uuid env) ttl u w4 = (Inr token, w5)"
    and drop: "dropGuest env msg r (w5\<lparr>w_header := h\<rparr>) = (Inr (), w')"
    and ttl: "0 < ttl"
  shows "\<forall>t \<ge> w_now w4. session_owner H (env_uuid env) t w' =
      (session_owner H (env_uuid env) t w4)(token := if t < w_now w4 + ttl then Some u else None)"
    and "db w' = db w4" and "w_now w' = w_now w4" and "w_header w5 = w_header w4"
proof -
  have now: "w_now w5 = w_now w4" and header: "w_header w5 = w_header w4" and db: "db w5 = db w4"
    using sess by (rule keepsD [rotated], intro keeps_rules; simp)+
  show "db w' = db w4" "w_now w' = w_now w4"
    using keepsD [OF keeps_dropGuest drop, of db] keepsD [OF keeps_dropGuest drop, of w_now] now db by simp_all
  show "w_header w5 = w_header w4" by (rule header)
  have "sess_view H (env_uuid env) w' = sess_view H (env_uuid env) w5"
    using keepsD [OF redis_stores.keeps_sess_view_dropGuest [OF stores refl] drop] by simp
  then show "\<forall>t \<ge> w_now w4. session_owner H (env_uuid env) t w' =
      (session_owner H (env_uuid env) t w4)(token := if t < w_now w4 + ttl then Some u else None)"
    using redis_stores.session_create [OF stores sess _ ttl] sess_viewD now by metis
qed

end
