(* ===== verification/Login_Properties.thy ===== *)
theory Login_Properties
  imports Session_Views
begin

text \<open>
  What login, logout, guest sessions and promotion do: to whom a session is issued, what is
  written, which cookies are set, and what a refusal leaves unchanged.
\<close>

section \<open>Login\<close>

lemma UpdateAfterAssertion_Inr:
  assumes "CredentialStore_UpdateAfterAssertion i k be bs w = (Inr (), w')"
  shows "w_creds w' = update_where (\<lambda>r. row_id r = i \<and> live r)
      (\<lambda>r. r\<lparr>sign_count := ucast k, backup_eligible := be, backup_state := bs, last_used_at := Some (w_now w)\<rparr>)
      (w_creds w)" and "w_users w' = w_users w" and "w_rd w' = w_rd w" and "w_now w' = w_now w"
    and "w_header w' = w_header w"
proof -
  obtain n where "wrapPg ''update credential'' (update_live i (\<lambda>now r. r\<lparr>sign_count := ucast k,
      backup_eligible := be, backup_state := bs, last_used_at := Some now\<rparr>)) w = (Inr n, w')"
    using assms
    by (auto simp: CredentialStore_UpdateAfterAssertion_def exit_simps failE_def elim!: bindE_InrE split: if_splits)
  then have "pg_stmt (update_live i (\<lambda>now r. r\<lparr>sign_count := ucast k,
      backup_eligible := be, backup_state := bs, last_used_at := Some now\<rparr>)) w = (Inr n, w')"
    by (simp add: wrapPg_def exit_simps failE_def)
  then show "w_creds w' = update_where (\<lambda>r. row_id r = i \<and> live r)
      (\<lambda>r. r\<lparr>sign_count := ucast k, backup_eligible := be, backup_state := bs, last_used_at := Some (w_now w)\<rparr>)
      (w_creds w)" and "w_users w' = w_users w" and "w_rd w' = w_rd w" and "w_now w' = w_now w"
    and "w_header w' = w_header w"
    by (cases rule: pg_stmt_cases; auto simp: update_live_def)+
qed

text \<open>What a login that succeeded has done, step by step.\<close>

lemma login_run:
  fixes env :: "('rd, 'sess, 'pc, 'pa) auth_env"
  assumes stores: "redis_stores (env_redis env) H (env_uuid env)"
    and "serve (CompleteLogin env r) w = (resp, w')" and "resp_Status resp = 200"
    and ttls: "ttls_positive env"
  obtains sid body raw and w1 :: "'rd world" and stored parsed cred row user token w2
  where "complete_envelope r = Some (sid, body)" and "challenge_at H (w_now w) w sid = Some raw"
    and "unmarshal_loginSession env raw = Some stored"
    and "lib_ParseAssertion (env_webauthn env) body = Some parsed"
    and "Service_ValidateLogin (env_webauthn env) (resolver (env_webauthn env) parsed) (None, None)
        (login_Session stored) parsed w1 = (Inr (cred, (Some user, Some (scan_row row))), w2)" and "db w1 = db w"
    and "row \<in> set (w_creds w)" and "live row" and "Some (credential_id row) = pa_RawID (env_webauthn env) parsed"
    and "user \<in> set (w_users w)" and "user_ID user = user_id row"
    and "w_users w' = w_users w"
    and "w_creds w' = update_where (\<lambda>x. row_id x = row_id row \<and> live x)
        (\<lambda>x. x\<lparr>sign_count := ucast (au_SignCount (lib_Authenticator cred)),
             backup_eligible := fl_BackupEligible (lib_Flags cred),
             backup_state := fl_BackupState (lib_Flags cred), last_used_at := Some (w_now w)\<rparr>) (w_creds w)"
    and "\<forall>t \<ge> w_now w. session_owner H (env_uuid env) t w' =
         (session_owner H (env_uuid env) t w)(token :=
            if t < w_now w + env_sessionTTL env then Some (user_id row) else None)"
    and "w_now w' = w_now w"
    and "resp_Body resp = Some (completeLoginResponse env user)"
    and "resp_Cookies resp = w_header w @ [session_cookie r token (sessionMaxAge env)] @ dropped_guest r"
proof -
  have "CompleteLogin env r w = (Inr resp, w')"
    by (rule serve_success [OF assms(2)]) (simp_all add: handlers_reject assms)
  then obtain sid body raw w1 stored parsed cred user found w2 w3 w4 token w5 w6
    where env: "complete_envelope r = Some (sid, body)"
      and take: "ChallengeStore_Take (env_redis env) sid w = (Inr raw, w1)"
      and stored: "unmarshal_loginSession env raw = Some stored"
      and parsed: "lib_ParseAssertion (env_webauthn env) body = Some parsed"
      and val: "Service_ValidateLogin (env_webauthn env) (resolver (env_webauthn env) parsed) (None, None)
             (login_Session stored) parsed w1 = (Inr (cred, (Some user, Some found)), w2)"
      and anom: "recordCounterAnomalies (env_uuid env) found cred w2 = (Inr () :: response + unit, w3)"
      and upd: "CredentialStore_UpdateAfterAssertion (cred_ID found) (au_SignCount (lib_Authenticator cred))
             (fl_BackupEligible (lib_Flags cred)) (fl_BackupState (lib_Flags cred)) w3 = (Inr (), w4)"
      and sess: "SessionStore_Create (env_redis env) (env_uuid env) (env_sessionTTL env) (user_ID user) w4
             = (Inr token, w5)"
      and cook: "setSessionCookie r token (sessionMaxAge env) w5 = (Inr () :: response + unit, w6)"
      and drop: "dropGuest env ''login complete: delete guest'' r w6 = (Inr (), w')"
      and resp: "resp = \<lparr>resp_Status = 200, resp_JSON = True, resp_Cookies = w_header w',
                   resp_Body = Some (completeLoginResponse env user), resp_Page = None\<rparr>"
    by (rule CompleteLogin_on)
  let ?V = "sess_view H (env_uuid env)"
  have s1: "db w1 = db w" "w_header w1 = w_header w" "?V w1 = ?V w"
    using keepsD [OF keeps_redis_stores(6) take, of db] keepsD [OF keeps_redis_stores(6) take, of w_header]
      keepsD [OF redis_stores.keeps_sess_view(1) [OF stores] take] by simp_all
  have s2: "db w2 = db w1" "w_header w2 = w_header w1" "?V w2 = ?V w1"
    using val by (rule keepsD [rotated], intro keeps_rules; simp)+
  have s3: "db w3 = db w2" "w_header w3 = w_header w2" "?V w3 = ?V w2" "w_now w3 = w_now w2"
    using anom by (rule keepsD [rotated], intro keeps_rules; simp)+
  have s4: "?V w4 = ?V w3"
    using upd by (rule keepsD [rotated]) (intro keeps_rules; simp)
  have w6: "w6 = w5\<lparr>w_header := w_header w5 @ [session_cookie r token (sessionMaxAge env)]\<rparr>"
    using cook by (simp add: exit_simps)
  note issued = session_issued [OF stores sess drop [unfolded w6] ttls_positiveD(2) [OF ttls]]
  have now: "w_now w4 = w_now w" "w_now w3 = w_now w"
    using s1(3) s2(3) s3(3) s4 by (simp_all add: sess_view_def)
  obtain row where row: "row \<in> set (w_creds w)" "live row" "Some (credential_id row) = pa_RawID (env_webauthn env) parsed"
    "user \<in> set (w_users w)" "user_ID user = user_id row" "found = scan_row row"
    using ValidateLogin_resolves [OF val] s1(1) s2(1) by (auto simp: resolved_ok_def db_def)
  have "session_owner H (env_uuid env) t w4 = session_owner H (env_uuid env) t w" if "w_now w \<le> t" for t
    using sess_viewD [of H "env_uuid env" w4 w t] s1 s2 s3 s4 that by simp
  then have owner: "\<forall>t \<ge> w_now w. session_owner H (env_uuid env) t w' = (session_owner H (env_uuid env) t w)(token :=
      if t < w_now w + env_sessionTTL env then Some (user_id row) else None)"
    using issued(1) now(1) row(5) by simp
  have header: "w_header w' = w_header w @ [session_cookie r token (sessionMaxAge env)] @ dropped_guest r"
    using dropGuest_header [OF drop] w6 issued(4) UpdateAfterAssertion_Inr(5) [OF upd] s1 s2 s3 by simp
  have tables: "w_users w' = w_users w" "w_creds w' = update_where (\<lambda>x. row_id x = row_id row \<and> live x)
        (\<lambda>x. x\<lparr>sign_count := ucast (au_SignCount (lib_Authenticator cred)),
             backup_eligible := fl_BackupEligible (lib_Flags cred),
             backup_state := fl_BackupState (lib_Flags cred), last_used_at := Some (w_now w)\<rparr>) (w_creds w)"
    using UpdateAfterAssertion_Inr [OF upd] issued(2) s1(1) s2(1) s3(1) row(6) now(2) by (simp_all add: db_def)
  show thesis
    using env redis_stores.Take_Inr [OF stores take] stored parsed val [unfolded row(6)] s1(1) row(1-5) tables owner
    by (rule that) (simp_all add: resp header issued(3) now)
qed

text \<open>
  C1: a login that succeeds issues a session to the owner of the passkey, and to nobody
  else. The library validated the assertion against the challenge that was stored under the
  session id; the passkey is a live row whose credential id is the raw id of the assertion;
  the new token resolves to that row's owner until it expires. Only that passkey's counter,
  backup flags and time of last use are written, with the values that the library returned.
  The token goes into an \<open>HttpOnly\<close> cookie; the body is the profile and nothing else.
  The configured times to live are positive.
\<close>

theorem CompleteLogin_binds_owner:
  fixes env :: "('rd, 'sess, 'pc, 'pa) auth_env"
  assumes stores: "redis_stores (env_redis env) H (env_uuid env)"
    and "serve (CompleteLogin env r) w = (resp, w')" and "resp_Status resp = 200"
    and ttls: "ttls_positive env"
  shows "\<exists>sid body raw (w1 :: 'rd world) stored parsed cred row user token w2.
      complete_envelope r = Some (sid, body) \<and> challenge_at H (w_now w) w sid = Some raw
    \<and> unmarshal_loginSession env raw = Some stored
    \<and> lib_ParseAssertion (env_webauthn env) body = Some parsed
    \<and> Service_ValidateLogin (env_webauthn env) (resolver (env_webauthn env) parsed) (None, None)
        (login_Session stored) parsed w1 = (Inr (cred, (Some user, Some (scan_row row))), w2) \<and> db w1 = db w
    \<and> row \<in> set (w_creds w) \<and> live row \<and> Some (credential_id row) = pa_RawID (env_webauthn env) parsed
    \<and> user \<in> set (w_users w) \<and> user_ID user = user_id row
    \<and> w_users w' = w_users w
    \<and> w_creds w' = update_where (\<lambda>x. row_id x = row_id row \<and> live x)
        (\<lambda>x. x\<lparr>sign_count := ucast (au_SignCount (lib_Authenticator cred)),
             backup_eligible := fl_BackupEligible (lib_Flags cred),
             backup_state := fl_BackupState (lib_Flags cred), last_used_at := Some (w_now w)\<rparr>) (w_creds w)
    \<and> (\<forall>t \<ge> w_now w. session_owner H (env_uuid env) t w' =
         (session_owner H (env_uuid env) t w)(token :=
            if t < w_now w + env_sessionTTL env then Some (user_id row) else None))
    \<and> resp_Body resp = Some (completeLoginResponse env user)
    \<and> resp_Cookies resp = w_header w @ [session_cookie r token (sessionMaxAge env)] @ dropped_guest r"
  using assms by (rule login_run) blast

text \<open>A user with one passkey, and a challenge of \<open>/login/begin\<close> that waits to be completed.\<close>

definition toy_passkey :: "rserver world" where
  "toy_passkey = with_challenge (JObj [(''session'', JArr [JNull, JNum ''''])])
     (toy_start\<lparr>w_users := [sample_user], w_creds := [row_of (UUID [1]) 0 (sample_credential (UUID [9]) [107])]\<rparr>)"

theorem CompleteLogin_binds_owner_witness:
  "\<exists>token. (\<forall>t \<ge> 0. session_owner rs_holds_at raw_uuid_lib t
        (snd (serve (CompleteLogin toy_env toy_complete) toy_passkey)) token
        = (if t < 1000 then Some (user_ID sample_user) else None))
    \<and> resp_Cookies (fst (serve (CompleteLogin toy_env toy_complete) toy_passkey))
        = [session_cookie toy_complete token 86400]"
proof -
  have run: "resp_Status (fst (serve (CompleteLogin toy_env toy_complete) toy_passkey)) = 200"
    by code_simp
  have toy: "w_now toy_passkey = 0" "w_header toy_passkey = []" "w_users toy_passkey = [sample_user]"
    "env_sessionTTL toy_env = 1000" "sessionMaxAge toy_env = 86400" "dropped_guest toy_complete = []"
    by code_simp+
  have "env_uuid toy_env = raw_uuid_lib" by (simp add: toy_env_def)
  note toy = toy this
  show ?thesis
    using CompleteLogin_binds_owner [OF toy_stores surjective_pairing run] by (auto simp: toy)
qed

section \<open>Logout\<close>

lemma Logout_run:
  assumes "serve (Logout env r) w = (resp, w')"
  obtains w1 where "(case cookie_value SessionCookieName r of None \<Rightarrow> ret () | Some tok \<Rightarrow>
      catchE (SessionStore_Delete (env_redis env) tok) (\<lambda>_. logE LevelWarn ''logout: delete session'')) w
      = (Inr () :: response + unit, w1)"
    and "w' = w1\<lparr>w_header := w_header w1 @ [session_cookie r '''' (-1)]\<rparr>"
    and "resp = \<lparr>resp_Status = 204, resp_JSON = False, resp_Cookies = w_header w', resp_Body = None, resp_Page = None\<rparr>"
proof -
  have "exits (\<lambda>_ _. False) (Logout env r)"
    unfolding Logout_def by (intro reject_rules)
  then have "Logout env r w = (Inr resp, w')"
    using assms by (auto simp: serve_def split: prod.splits sum.splits dest: exitsD)
  then show thesis
    using that by (auto simp: Logout_def exit_simps elim!: bindE_InrE)
qed

text \<open>The deletion of the request's session, or the warning that it failed.\<close>

lemma logout_deletes:
  assumes stores: "redis_stores (env_redis env) H (env_uuid env)"
    and del: "(case cookie_value SessionCookieName r of None \<Rightarrow> ret () | Some tok \<Rightarrow>
      catchE (SessionStore_Delete (env_redis env) tok) (\<lambda>_. logE LevelWarn ''logout: delete session'')) w
      = (Inr () :: response + unit, w1)"
  shows "(\<forall>t \<ge> w_now w. \<forall>tok. cookie_value SessionCookieName r \<noteq> Some tok \<longrightarrow>
         session_owner H (env_uuid env) t w1 tok = session_owner H (env_uuid env) t w tok)
    \<and> (\<forall>tok. cookie_value SessionCookieName r = Some tok \<longrightarrow>
         (\<forall>t \<ge> w_now w. session_owner H (env_uuid env) t w1 tok = None)
         \<or> w_log w1 = w_log w @ [\<lparr>log_level = LevelWarn, log_msg = ''logout: delete session'', log_attrs = []\<rparr>])"
proof (cases "cookie_value SessionCookieName r")
  case None
  with del show ?thesis by (simp add: exit_simps)
next
  case (Some tok)
  obtain x w2 where d: "SessionStore_Delete (env_redis env) tok w = (x, w2)"
    by (cases "SessionStore_Delete (env_redis env) tok w")
  have log: "w_log w2 = w_log w"
    using d by (rule keepsD [rotated]) (intro keeps_rules; simp)
  have other: "session_owner H (env_uuid env) t w2 tok' = session_owner H (env_uuid env) t w tok'"
    if "w_now w \<le> t" "tok' \<noteq> tok" for t tok'
    using redis_stores.Delete_other(1) [OF stores d that(1), of "sessionKeyPrefix @ tok'"] that(2)
    by (simp add: session_owner_def token_owner_def)
  show ?thesis
  proof (cases x)
    case (Inl e)
    then have "w1 = w2\<lparr>w_log := w_log w2 @ [\<lparr>log_level = LevelWarn, log_msg = ''logout: delete session'', log_attrs = []\<rparr>]\<rparr>"
      using del Some d by (simp add: catchE_def logE_def putE_def)
    then show ?thesis
      using Some log other by (auto simp: session_owner_def token_owner_def)
  next
    case (Inr u)
    then have "w1 = w2" using del Some d by (simp add: catchE_def)
    then show ?thesis
      using Some other d Inr redis_stores.session_delete [OF stores, of tok w w2] by auto
  qed
qed

text \<open>
  C20: logout always answers 204 and drops the cookie, and the token that came with the
  request stops working: afterwards it resolves to nobody, now or later, unless Redis failed,
  in which case a warning is logged. No other session and no row of the database is touched.
\<close>

theorem Logout_revokes:
  assumes stores: "redis_stores (env_redis env) H (env_uuid env)"
    and run: "serve (Logout env r) w = (resp, w')"
  shows "resp_Status resp = 204 \<and> resp_Body resp = None
    \<and> resp_Cookies resp = w_header w @ [session_cookie r '''' (-1)] \<and> db w' = db w
    \<and> (\<forall>t \<ge> w_now w. \<forall>tok. cookie_value SessionCookieName r \<noteq> Some tok \<longrightarrow>
         session_owner H (env_uuid env) t w' tok = session_owner H (env_uuid env) t w tok)
    \<and> (\<forall>tok. cookie_value SessionCookieName r = Some tok \<longrightarrow>
         (\<forall>t \<ge> w_now w. session_owner H (env_uuid env) t w' tok = None)
         \<or> w_log w' = w_log w @ [\<lparr>log_level = LevelWarn, log_msg = ''logout: delete session'', log_attrs = []\<rparr>])"
proof -
  obtain w1 where del: "(case cookie_value SessionCookieName r of None \<Rightarrow> ret () | Some tok \<Rightarrow>
      catchE (SessionStore_Delete (env_redis env) tok) (\<lambda>_. logE LevelWarn ''logout: delete session'')) w
      = (Inr () :: response + unit, w1)"
    and w': "w' = w1\<lparr>w_header := w_header w1 @ [session_cookie r '''' (-1)]\<rparr>"
    and resp: "resp = \<lparr>resp_Status = 204, resp_JSON = False, resp_Cookies = w_header w', resp_Body = None, resp_Page = None\<rparr>"
    using run by (rule Logout_run)
  have same: "db w1 = db w" "w_header w1 = w_header w"
    using del by (rule keepsD [rotated], intro keeps_rules; simp)+
  have owner: "session_owner H L t w' = session_owner H L t w1" for L t
    by (simp add: w' session_owner_def token_owner_def fun_eq_iff)
  note logout_deletes [OF stores del]
  moreover have "w_log w' = w_log w1" "db w' = db w" "w_header w' = w_header w @ [session_cookie r '''' (-1)]"
    using same by (simp_all add: w')
  ultimately show ?thesis
    by (simp add: resp owner)
qed

text \<open>A state with one session, and the request that ends it.\<close>

definition toy_session_world :: "rserver world" where
  "toy_session_world = toy_start\<lparr>w_users := [sample_user],
     w_creds := [row_of (UUID [1]) 0 (sample_credential (UUID [9]) [107])],
     w_rd := rs_put (sessionKeyPrefix @ ''tok'') (RStr (uuid_String raw_uuid_lib (user_ID sample_user))) 1000 empty_server\<rparr>"

definition with_cookie :: "string \<Rightarrow> string \<Rightarrow> request \<Rightarrow> request" where
  "with_cookie n v r = r\<lparr>req_Cookies := [(n, v)]\<rparr>"

theorem Logout_revokes_witness:
  "session_owner rs_holds_at raw_uuid_lib 5 toy_session_world ''tok'' = Some (user_ID sample_user)
   \<and> session_owner rs_holds_at raw_uuid_lib 5
       (snd (serve (Logout toy_env (with_cookie SessionCookieName ''tok'' (request_with JNull))) toy_session_world)) ''tok''
     = None"
proof -
  let ?r = "with_cookie SessionCookieName ''tok'' (request_with JNull)"
  have run: "w_log (snd (serve (Logout toy_env ?r) toy_session_world)) = []" "w_log toy_session_world = []"
    "w_now toy_session_world = 0" "cookie_value SessionCookieName ?r = Some ''tok''"
    "session_owner rs_holds_at raw_uuid_lib 5 toy_session_world ''tok'' = Some (user_ID sample_user)"
    by code_simp+
  have "env_uuid toy_env = raw_uuid_lib" by (simp add: toy_env_def)
  then show ?thesis
    using Logout_revokes [OF toy_stores surjective_pairing, of ?r toy_session_world] run by auto
qed

end
