(* ===== verification/Account_Properties.thy ===== *)
theory Account_Properties
  imports Login_Properties
begin

text \<open>
  The endpoints under \<open>/users/me\<close>, with the session middleware in front of them as the
  router wires them: without a session there is no access, and with one a user sees and
  deletes only what is its own.
\<close>

section \<open>The session check\<close>

lemma middleware_errors:
  "bindE writeUnauthorized failE = reject 401 ''unauthorized''"
  "bindE writeInternalError failE = reject 500 ''internal_error''"
  by (simp_all add: writeUnauthorized_def writeInternalError_def reject_def writeError_def codeMessages_def)

text \<open>The middleware's own error bodies are those of \<open>response.go\<close>.\<close>

lemma RequireSession_eq:
  "RequireSession R L h r = (case cookie_value SessionCookieName r of
      None \<Rightarrow> reject 401 ''unauthorized''
    | Some tok \<Rightarrow>
        bindE (catchE (SessionStore_Get R L tok) (\<lambda>e.
            if e = ErrSessionNotFound then reject 401 ''unauthorized'' else internal ''session lookup''))
          (\<lambda>userID. h (r\<lparr>ctx_user := Some userID\<rparr>)))"
  unfolding RequireSession_def middleware_errors internal_def by (rule refl)

lemma RequireSession_cases:
  assumes stores: "redis_stores R H L" and run: "serve (RequireSession R L h r) w = (resp, w')"
  obtains (through) tok u w1 where "cookie_value SessionCookieName r = Some tok"
      and "session_owner H L (w_now w) w tok = Some u" and "db w1 = db w" and "w_now w1 = w_now w"
      and "w_header w1 = w_header w" and "serve (h (r\<lparr>ctx_user := Some u\<rparr>)) w1 = (resp, w')"
  | (stopped) "resp = answer 401 ''unauthorized'' (w_header w) \<or> resp = answer 500 ''internal_error'' (w_header w)"
      and "db w' = db w"
proof (cases "cookie_value SessionCookieName r")
  case None
  with run show thesis
    by (intro stopped) (auto simp: RequireSession_eq reject_eq codes_known serve_def)
next
  case (Some tok)
  obtain x w1 where get: "SessionStore_Get R L tok w = (x, w1)"
    by (cases "SessionStore_Get R L tok w")
  have same: "db w1 = db w" "w_now w1 = w_now w" "w_header w1 = w_header w"
    by (rule keepsD [OF keeps_redis_stores(1) get]; simp)+
  show thesis
  proof (cases x)
    case (Inl e)
    with run Some get same show thesis
      by (intro stopped)
         (auto simp: RequireSession_eq serve_bindE catchE_def reject_eq internal_eq codes_known split: if_splits)
  next
    case (Inr u)
    then have "serve (h (r\<lparr>ctx_user := Some u\<rparr>)) w1 = (resp, w')"
      using run Some get by (simp add: RequireSession_eq serve_bindE catchE_def)
    with through Some same show thesis
      using redis_stores.session_get(1) [OF stores get [unfolded Inr]] by blast
  qed
qed

section \<open>No access without a session\<close>

definition guarded_endpoints :: "endpoint set" where
  "guarded_endpoints = {EpMe, EpListCredentials, EpDeleteCredential}"

lemma guarded_handler:
  assumes "e \<in> guarded_endpoints"
  obtains h where "endpoint_handler s e = RequireSession (env_redis (srv_auth s)) (env_uuid (srv_auth s)) h"
  using assms by (auto simp: guarded_endpoints_def requireSession_def)

text \<open>
  C3: without a live session there is no access. If the request carries no session cookie,
  or one whose token resolves to nobody, then every endpoint under \<open>/users/me\<close> answers with
  the error 401 \<open>unauthorized\<close>, or 500 if Redis failed, sets no cookie and changes nothing
  in the database.
\<close>

theorem no_session_no_access:
  assumes stores: "redis_stores (env_redis (srv_auth s)) H (env_uuid (srv_auth s))"
    and e: "e \<in> guarded_endpoints"
    and "\<And>tok. cookie_value SessionCookieName r = Some tok \<Longrightarrow>
       session_owner H (env_uuid (srv_auth s)) (w_now w) w tok = None"
    and run: "serve (endpoint_handler s e r) w = (resp, w')"
  shows "resp \<in> {answer 401 ''unauthorized'' (w_header w), answer 500 ''internal_error'' (w_header w)} \<and> db w' = db w"
proof -
  obtain h where "endpoint_handler s e = RequireSession (env_redis (srv_auth s)) (env_uuid (srv_auth s)) h"
    using e by (rule guarded_handler)
  with run have "serve (RequireSession (env_redis (srv_auth s)) (env_uuid (srv_auth s)) h r) w = (resp, w')" by simp
  with stores show ?thesis
    by (cases rule: RequireSession_cases) (use assms(3) in auto)
qed

text \<open>A server for the concrete runs.\<close>

definition toy_chi :: chi where
  "toy_chi = \<lparr>chi_BytesWritten = (\<lambda>_. 0), chi_GetReqID = (\<lambda>_. ''id''),
     chi_Match = (\<lambda>ps r. map_option (\<lambda>i. (i, ''x''))
       (find (\<lambda>i. ps ! i = (req_Method r, req_Path r)) [0 ..< length ps])),
     chi_Mounted = (\<lambda>p r. take (length p) (req_Path r) = p),
     chi_NotFound = (\<lambda>r. \<lparr>resp_Status = 404, resp_JSON = False, resp_Cookies = [], resp_Body = None, resp_Page = None\<rparr>),
     chi_RequestID = id, chi_RealIP = id\<rparr>"

definition toy_server :: "(rserver, toy_session, nat \<times> bytes, bytes) server" where
  "toy_server = \<lparr>srv_auth = toy_env, srv_chi = toy_chi, srv_printTime = (\<lambda>_. ''now''),
     srv_indexHTML = Some ''<html>''\<rparr>"

lemma toy_server_stores:
  "redis_stores (env_redis (srv_auth toy_server)) rs_holds_at (env_uuid (srv_auth toy_server))"
  using toy_stores by (simp add: toy_server_def)

theorem no_session_no_access_witness:
  "fst (serve (endpoint_handler toy_server EpMe (with_cookie SessionCookieName ''other'' (request_with JNull)))
     toy_session_world) \<in> {answer 401 ''unauthorized'' [], answer 500 ''internal_error'' []}"
proof -
  let ?r = "with_cookie SessionCookieName ''other'' (request_with JNull)"
  have none: "session_owner rs_holds_at raw_uuid_lib (w_now toy_session_world) toy_session_world ''other'' = None"
    "cookie_value SessionCookieName ?r = Some ''other''" "w_header toy_session_world = []"
    by code_simp+
  have "env_uuid (srv_auth toy_server) = raw_uuid_lib" by (simp add: toy_server_def toy_env_def)
  with none have gone: "session_owner rs_holds_at (env_uuid (srv_auth toy_server)) (w_now toy_session_world)
      toy_session_world tok = None" if "cookie_value SessionCookieName ?r = Some tok" for tok
    using that by simp
  have e: "EpMe \<in> guarded_endpoints" by (simp add: guarded_endpoints_def)
  show ?thesis
    using no_session_no_access [OF toy_server_stores e gone surjective_pairing] none(3) by simp
qed

section \<open>Reading one's own data\<close>

lemma through_session:
  assumes stores: "redis_stores (env_redis (srv_auth s)) H (env_uuid (srv_auth s))"
    and "endpoint_handler s e = RequireSession (env_redis (srv_auth s)) (env_uuid (srv_auth s)) h"
    and "serve (endpoint_handler s e r) w = (resp, w')" and "resp_Status resp \<in> {200, 204}"
    and "\<And>r'. rejects (h r')"
  obtains tok u w1 where "cookie_value SessionCookieName r = Some tok"
    and "session_owner H (env_uuid (srv_auth s)) (w_now w) w tok = Some u"
    and "db w1 = db w" and "w_now w1 = w_now w" and "h (r\<lparr>ctx_user := Some u\<rparr>) w1 = (Inr resp, w')"
proof -
  have "serve (RequireSession (env_redis (srv_auth s)) (env_uuid (srv_auth s)) h r) w = (resp, w')"
    using assms(2,3) by simp
  with stores show thesis
  proof (cases rule: RequireSession_cases)
    case (through tok u w1)
    with that show thesis
      using serve_success [OF through(6) assms(5)] assms(4) by blast
  qed (use assms(4) in auto)
qed

lemma requireUser_ctx: "requireUser (r\<lparr>ctx_user := Some u\<rparr>) = ret u"
  by (simp add: requireUser_def UserIDFromContext_def)

lemma select_live_by_user_db: "db w' = db w \<Longrightarrow> select_live_by_user u w' = select_live_by_user u w"
  by (simp add: select_live_by_user_def db_def)

text \<open>
  C21: \<open>GET /users/me\<close> and \<open>GET /users/me/credentials\<close> answer 200 only with data of the
  user to whom the request's session token resolves: the profile is a row with that user's
  id, and the list is exactly that user's live passkeys, oldest first. Neither changes the
  database.
\<close>

theorem reads_own_data:
  assumes stores: "redis_stores (env_redis (srv_auth s)) H (env_uuid (srv_auth s))"
    and e: "e \<in> {EpMe, EpListCredentials}"
    and run: "serve (endpoint_handler s e r) w = (resp, w')" and "resp_Status resp = 200"
  shows "\<exists>tok u. cookie_value SessionCookieName r = Some tok
    \<and> session_owner H (env_uuid (srv_auth s)) (w_now w) w tok = Some u \<and> db w' = db w
    \<and> (e = EpMe \<longrightarrow> (\<exists>v \<in> set (w_users w). user_ID v = u \<and> resp_Body resp = Some (meResponse (env_uuid (srv_auth s)) v)))
    \<and> (e = EpListCredentials \<longrightarrow> resp_Body resp = Some (JArr (map (credentialResponse (env_uuid (srv_auth s))
         (srv_printTime s) \<circ> scan_row) (select_live_by_user u w))))"
proof (cases "e = EpMe")
  case True
  obtain tok u w1 where tok: "cookie_value SessionCookieName r = Some tok"
    "session_owner H (env_uuid (srv_auth s)) (w_now w) w tok = Some u" "db w1 = db w"
    and me: "Me (env_uuid (srv_auth s)) (r\<lparr>ctx_user := Some u\<rparr>) w1 = (Inr resp, w')"
    by (rule through_session [OF stores _ run]) (use assms(4) True in \<open>auto simp: requireSession_def handlers_reject\<close>)
  from me obtain v where v: "UserStore_GetByID u w1 = (Inr v, w')"
    and body: "resp_Body resp = Some (meResponse (env_uuid (srv_auth s)) v)"
    by (auto simp: Me_def requireUser_ctx exit_simps elim!: bindE_InrE split: if_splits)
  have "db w' = db w1"
    using v by (rule keepsD [rotated]) (intro keeps_rules; simp)
  then show ?thesis
    using tok True body GetByID_Inr(1,2) [OF v] by (auto simp: db_def)
next
  case False
  then have e': "e = EpListCredentials" using e by simp
  obtain tok u w1 where tok: "cookie_value SessionCookieName r = Some tok"
    "session_owner H (env_uuid (srv_auth s)) (w_now w) w tok = Some u" "db w1 = db w"
    and lst: "ListCredentials (env_uuid (srv_auth s)) (srv_printTime s) (r\<lparr>ctx_user := Some u\<rparr>) w1 = (Inr resp, w')"
    by (rule through_session [OF stores _ run]) (use assms(4) e' in \<open>auto simp: requireSession_def handlers_reject\<close>)
  from lst obtain cs where cs: "CredentialStore_ListByUserID u w1 = (Inr cs, w')"
    and body: "resp_Body resp = Some (JArr (map (credentialResponse (env_uuid (srv_auth s)) (srv_printTime s)) cs))"
    by (auto simp: ListCredentials_def requireUser_ctx exit_simps elim!: bindE_InrE)
  have "db w' = db w1"
    using cs by (rule keepsD [rotated]) (intro keeps_rules; simp)
  then show ?thesis
    using tok e' body ListByUserID_Inr(1) [OF cs] select_live_by_user_db [of w1 w u] by (auto simp: comp_def)
qed

theorem reads_own_data_witness:
  "\<exists>v \<in> set (w_users toy_session_world). user_ID v = user_ID sample_user \<and>
     resp_Body (fst (serve (endpoint_handler toy_server EpMe (with_cookie SessionCookieName ''tok'' (request_with JNull)))
       toy_session_world)) = Some (meResponse raw_uuid_lib v)"
proof -
  let ?r = "with_cookie SessionCookieName ''tok'' (request_with JNull)"
  have run: "resp_Status (fst (serve (endpoint_handler toy_server EpMe ?r) toy_session_world)) = 200"
    "cookie_value SessionCookieName ?r = Some ''tok''"
    "session_owner rs_holds_at raw_uuid_lib (w_now toy_session_world) toy_session_world ''tok'' = Some (user_ID sample_user)"
    by code_simp+
  have "env_uuid (srv_auth toy_server) = raw_uuid_lib" by (simp add: toy_server_def toy_env_def)
  then show ?thesis
    using reads_own_data [OF toy_server_stores insertI1 surjective_pairing run(1)] run by auto
qed

section \<open>Deleting one's own passkeys\<close>

lemma wrapPg_Inl: "wrapPg what q w = (Inl e, w') \<Longrightarrow> \<exists>p. e = Wrapped what (PgCause p)"
  by (auto simp: wrapPg_def catchE_def failE_def split: prod.splits sum.splits)

lemma bindE_InlE:
  assumes "bindE m f w = (Inl e, w'')"
  obtains (first) "m w = (Inl e, w'')" | (later) a w' where "m w = (Inr a, w')" and "f a w' = (Inl e, w'')"
  using assms by (auto simp: bindE_def split: prod.splits sum.splits)

text \<open>A refusal of \<open>SoftDelete\<close> by one of its sentinels has written nothing.\<close>

lemma SoftDelete_sentinel:
  assumes "CredentialStore_SoftDelete i w = (Inl e, w')" and "e = ErrLastCredential \<or> e = ErrCredentialNotFound"
  shows "db w' = db w"
proof -
  have q: "keeps db (wrapPg m (ret ()))" "keeps db (wrapPg m (getE g))"
    "keeps db (catchE (pg_stmt (pg_query h)) (\<lambda>p. if p = NoRows then failE ErrCredentialNotFound
        else failE (Wrapped m' (PgCause p))))" for m m' g h
    by (intro keeps_rules; simp)+
  from assms show ?thesis
    unfolding CredentialStore_SoftDelete_def
    by (auto elim!: bindE_InlE split: if_splits simp: failE_def dest!: wrapPg_Inl keepsD [OF q(1)] keepsD [OF q(2)] keepsD [OF q(3)])
qed

lemma DeleteCredential_refuses:
  "refuses (\<lambda>resp. resp_Status resp \<noteq> 500) db (DeleteCredential L r :: ('rd, response) handler_act)"
proof -
  have soft: "refuses (\<lambda>resp. resp_Status resp \<noteq> 500) db (catchE (CredentialStore_SoftDelete i) (\<lambda>e.
      if e = ErrLastCredential then reject 409 ''last_credential''
      else if e = ErrCredentialNotFound then reject 404 ''not_found''
      else internal ''delete credential: soft delete'') :: ('rd, unit) handler_act)" for i
  proof (rule refuses_catchE)
    fix e and w w' :: "'rd world" assume run: "CredentialStore_SoftDelete i w = (Inl e, w')"
    show "db w' = db w \<and> keeps db (if e = ErrLastCredential then reject 409 ''last_credential''
          else if e = ErrCredentialNotFound then reject 404 ''not_found''
          else internal ''delete credential: soft delete'') \<or>
        avoids (\<lambda>resp. resp_Status resp \<noteq> 500) (if e = ErrLastCredential then reject 409 ''last_credential''
          else if e = ErrCredentialNotFound then reject 404 ''not_found''
          else internal ''delete credential: soft delete'')"
    proof (cases "e = ErrLastCredential \<or> e = ErrCredentialNotFound")
      case True
      then show ?thesis
        using SoftDelete_sentinel [OF run] by (auto intro!: keeps_responses)
    qed (auto intro!: exits_internal)
  qed
  show ?thesis
    unfolding DeleteCredential_def requireUser_def
    by (rule refuses_last [OF soft] refuses_step refuses_cases exits_steps refuses_keeps [OF keeps_responses(2)]
        | (intro keeps_rules; simp; fail) | simp)+
qed

lemma DeleteCredential_on:
  assumes "DeleteCredential L (r\<lparr>ctx_user := Some u\<rparr>) w = (Inr resp, w')"
  obtains i owned w1 where "uuid_Parse L (url_id r) = Some i"
    and "CredentialStore_ListByUserID u w = (Inr owned, w1)" and "\<exists>c \<in> set owned. cred_ID c = i"
    and "CredentialStore_SoftDelete i w1 = (Inr (), w')" and "resp_Status resp = 204"
  using assms that
  by (auto simp: DeleteCredential_def requireUser_ctx exit_simps elim!: bindE_InrE
      split: if_splits option.splits) blast

text \<open>
  C5: a user can delete only its own passkeys, and never the last one. A \<open>DELETE\<close> that
  answers 204 came with a session token that resolves to the owner of a live passkey with
  the id of the path; the owner had at least two live passkeys; exactly that row is marked
  as deleted. Every other answer except 500 leaves the database as it was.
\<close>

theorem DeleteCredential_own_only:
  assumes stores: "redis_stores (env_redis (srv_auth s)) H (env_uuid (srv_auth s))" and ok: "schema_ok w"
    and run: "serve (endpoint_handler s EpDeleteCredential r) w = (resp, w')"
  shows "(resp_Status resp = 204 \<longrightarrow> (\<exists>tok row. cookie_value SessionCookieName r = Some tok
      \<and> session_owner H (env_uuid (srv_auth s)) (w_now w) w tok = Some (user_id row)
      \<and> uuid_Parse (env_uuid (srv_auth s)) (url_id r) = Some (row_id row) \<and> row \<in> set (w_creds w) \<and> live row
      \<and> 1 < live_count (w_creds w) (user_id row) \<and> w_users w' = w_users w
      \<and> w_creds w' = update_where (\<lambda>x. row_id x = row_id row) (mark_deleted (w_now w)) (w_creds w)))
    \<and> (resp_Status resp \<notin> {204, 500} \<longrightarrow> db w' = db w)"
proof -
  let ?L = "env_uuid (srv_auth s)"
  have guard: "endpoint_handler s EpDeleteCredential =
      RequireSession (env_redis (srv_auth s)) ?L (DeleteCredential ?L)"
    by (simp add: requireSession_def)
  have "db w' = db w" if "resp_Status resp \<notin> {204, 500}"
    using stores run [unfolded guard]
  proof (cases rule: RequireSession_cases)
    case (through tok u w1)
    then have "DeleteCredential ?L (r\<lparr>ctx_user := Some u\<rparr>) w1 = (Inl resp, w')"
      using that by (auto simp: serve_def split: prod.splits sum.splits elim: DeleteCredential_on)
    from refusesD [OF DeleteCredential_refuses this] have "db w' = db w1"
      using that by simp
    then show ?thesis using through(3) by simp
  qed
  moreover have "\<exists>tok row. cookie_value SessionCookieName r = Some tok
      \<and> session_owner H ?L (w_now w) w tok = Some (user_id row)
      \<and> uuid_Parse ?L (url_id r) = Some (row_id row) \<and> row \<in> set (w_creds w) \<and> live row
      \<and> 1 < live_count (w_creds w) (user_id row) \<and> w_users w' = w_users w
      \<and> w_creds w' = update_where (\<lambda>x. row_id x = row_id row) (mark_deleted (w_now w)) (w_creds w)"
    if status: "resp_Status resp = 204"
  proof -
    obtain tok u w1 where tok: "cookie_value SessionCookieName r = Some tok" "session_owner H ?L (w_now w) w tok = Some u"
      and same: "db w1 = db w" "w_now w1 = w_now w"
      and del: "DeleteCredential ?L (r\<lparr>ctx_user := Some u\<rparr>) w1 = (Inr resp, w')"
      by (rule through_session [OF stores guard run]) (use status in \<open>auto simp: handlers_reject\<close>)
    from del obtain i owned w2 where i: "uuid_Parse ?L (url_id r) = Some i" "\<exists>c \<in> set owned. cred_ID c = i"
      and lst: "CredentialStore_ListByUserID u w1 = (Inr owned, w2)"
      and soft: "CredentialStore_SoftDelete i w2 = (Inr (), w')"
      by (rule DeleteCredential_on)
    have same2: "db w2 = db w1" "w_now w2 = w_now w1"
      using lst by (rule keepsD [rotated], intro keeps_rules; simp)+
    from i(2) obtain mine where mine: "mine \<in> set (w_creds w)" "row_id mine = i" "user_id mine = u"
      using ListByUserID_Inr(1) [OF lst] same(1) by (auto simp: set_select_live_by_user db_def)
    from SoftDelete_effect(3) [OF soft] obtain row where row: "row \<in> set (w_creds w)" "row_id row = i" "live row"
      "1 < live_count (w_creds w) (user_id row)"
      "w_creds w' = update_where (\<lambda>x. row_id x = i) (mark_deleted (w_now w)) (w_creds w)"
      using same same2 by (auto simp: db_def elim!: soft_delete_spec_Inr)
    have "row = mine"
      using ok row(1,2) mine(1,2) by (auto simp: schema_ok_def creds_ok_def distinct_map inj_on_def)
    then show ?thesis
      using tok i row mine(3) SoftDelete_effect(1) [OF soft] same same2 by (auto simp: db_def)
  qed
  ultimately show ?thesis by blast
qed

definition toy_two_passkeys :: "rserver world" where
  "toy_two_passkeys = two_passkeys
     (rs_put (sessionKeyPrefix @ ''tok'') (RStr (uuid_String raw_uuid_lib (user_ID sample_user))) 1000 empty_server)"

definition toy_delete :: request where
  "toy_delete = (with_cookie SessionCookieName ''tok'' (request_with JNull))
     \<lparr>url_id := uuid_String raw_uuid_lib (row_id (hd (w_creds toy_two_passkeys)))\<rparr>"

theorem DeleteCredential_own_only_witness:
  "resp_Status (fst (serve (endpoint_handler toy_server EpDeleteCredential toy_delete) toy_two_passkeys)) = 204
   \<and> (\<exists>row \<in> set (w_creds toy_two_passkeys). live row \<and>
        w_creds (snd (serve (endpoint_handler toy_server EpDeleteCredential toy_delete) toy_two_passkeys))
          = update_where (\<lambda>x. row_id x = row_id row) (mark_deleted 0) (w_creds toy_two_passkeys))"
proof -
  have run: "resp_Status (fst (serve (endpoint_handler toy_server EpDeleteCredential toy_delete) toy_two_passkeys)) = 204"
    "w_now toy_two_passkeys = 0"
    by code_simp+
  have "schema_ok toy_two_passkeys"
    unfolding toy_two_passkeys_def by (rule two_passkeys_schema_ok)
  from DeleteCredential_own_only [OF toy_server_stores this surjective_pairing, of toy_delete] show ?thesis
    using run by auto
qed

end
