(* ===== verification/Register_Properties.thy ===== *)
theory Register_Properties
  imports Sample_Environment
begin

text \<open>
  What the registration endpoints achieve and refuse, for every webauthn library, every
  Redis with the documented behaviour and every pattern of PostgreSQL failures: what a
  successful registration leaves behind, that a session id works once, and which flows do
  and do not accept each other's session ids.
\<close>

section \<open>Registration\<close>

lemma domainCredentialFromLib_Some:
  assumes "domainCredentialFromLib L u h cred = Some c"
  shows "cred_UserID c = u" and "CredentialID c = lib_ID cred" and "WebAuthnUserHandle c = h"
    and "AttestationFormat c = lib_AttestationFormat cred" and "AttestationType c = lib_AttestationType cred"
    and "PublicKey c = lib_PublicKey cred" and "SignCount c = au_SignCount (lib_Authenticator cred)"
    and "BackupEligible c = fl_BackupEligible (lib_Flags cred)" and "BackupState c = fl_BackupState (lib_Flags cred)"
  using assms by (auto simp: domainCredentialFromLib_def Let_def split: if_splits)

text \<open>What a successful \<open>begin\<close> leaves in the challenge store, under the id that it returns.\<close>

lemma save_at:
  assumes "redis_stores R H L" and "ChallengeStore_Save R ttl sid p w0 = (Inr (), w1)" and "w_now w0 = w_now w"
    and "0 < ttl"
  shows "\<forall>t \<ge> w_now w. challenge_at H t w1 sid = (if t < w_now w + ttl then Some (RDoc p) else None)"
  using redis_stores.Save_ok [OF assms(1,2)] assms(3,4) by simp

lemma begin_tail:
  assumes stores: "redis_stores R H L" and now: "w_now w1 = w_now w"
    and "NewUserHandle w1 = (Inr handle, w2)" and "newSessionID w2 = (Inr i, w3)"
    and "Service_BeginRegistration W u i w3 = (Inr (options, session), w4)"
    and "ChallengeStore_Save R ttl i payload w4 = (Inr (), w')" and "options = CreationOptions opts sid"
    and "0 < ttl"
  shows "\<forall>t \<ge> w_now w. challenge_at H t w' sid = (if t < w_now w + ttl then Some (RDoc payload) else None)"
proof -
  have "w_now w2 = w_now w1"
    using assms(3) by (rule keepsD [rotated]) (intro keeps_rules; simp)
  moreover have "w_now w3 = w_now w2"
    using assms(4) by (rule keepsD [rotated]) (intro keeps_rules; simp)
  moreover have "w_now w4 = w_now w3"
    using assms(5) by (rule keepsD [rotated]) (intro keeps_rules; simp)
  moreover have "i = sid"
    using assms(5,7) by (auto simp: CreationOptions_def elim!: BeginRegistration_on)
  ultimately show ?thesis
    using save_at [OF stores assms(6), of w] assms(8) now by simp
qed

lemma BeginRegister_saves:
  assumes stores: "redis_stores (env_redis env) H (env_uuid env)"
    and "serve (BeginRegister env r) w = (resp, w1)" and "resp_Status resp = 200"
    and "resp_Body resp = Some (CreationOptions opts sid)"
    and ttls: "ttls_positive env"
  shows "\<exists>q session payload. begin_envelope r = Some q
    \<and> marshal_registrationSession env (register_payload session q uuid_Nil False) = Some payload
    \<and> (\<forall>t \<ge> w_now w. challenge_at H t w1 sid =
         (if t < w_now w + env_challengeTTL env then Some (RDoc payload) else None))"
proof -
  have "BeginRegister env r w = (Inr resp, w1)"
    by (rule serve_success [OF assms(2)]) (simp_all add: handlers_reject assms)
  then show ?thesis
  proof (rule BeginRegister_on)
    fix q wa handle wb i wc options session wd payload
    assume q: "begin_envelope r = Some q" "marshal_registrationSession env (register_payload session q uuid_Nil False) = Some payload"
      and look: "UserStore_GetByUsername (begin_Username q) w = (Inl ErrUserNotFound, wa)"
      and tail: "NewUserHandle wa = (Inr handle, wb)" "newSessionID wb = (Inr i, wc)"
        "Service_BeginRegistration (env_webauthn env) (begin_user handle q) i wc = (Inr (options, session), wd)"
        "ChallengeStore_Save (env_redis env) (env_challengeTTL env) i payload wd = (Inr (), w1)"
      and resp: "resp = \<lparr>resp_Status = 200, resp_JSON = True, resp_Cookies = w_header w1, resp_Body = Some options, resp_Page = None\<rparr>"
    have "w_now wa = w_now w"
      using look by (rule keepsD [rotated]) (intro keeps_rules; simp)
    from begin_tail [OF stores this tail] show ?thesis
      using q assms(4) resp ttls_positiveD(1) [OF ttls] by auto
  qed
qed

lemma BeginPromote_saves:
  assumes stores: "redis_stores (env_redis env) H (env_uuid env)"
    and "serve (BeginPromote env r) w = (resp, w1)" and "resp_Status resp = 200"
    and "resp_Body resp = Some (CreationOptions opts sid)"
    and ttls: "ttls_positive env"
  shows "\<exists>q guest wa session payload. begin_envelope r = Some q
    \<and> resolveGuest env r w = (Inr (Some guest) :: response + user option, wa) \<and> IsGuest guest
    \<and> marshal_registrationSession env (register_payload session q (user_ID guest) True) = Some payload
    \<and> (\<forall>t \<ge> w_now w. challenge_at H t w1 sid =
         (if t < w_now w + env_challengeTTL env then Some (RDoc payload) else None))"
proof -
  have "BeginPromote env r w = (Inr resp, w1)"
    by (rule serve_success [OF assms(2)]) (simp_all add: handlers_reject assms)
  then show ?thesis
  proof (rule BeginPromote_on)
    fix q guest wa handle wb i wc options session wd payload
    assume q: "begin_envelope r = Some q"
        "marshal_registrationSession env (register_payload session q (user_ID guest) True) = Some payload"
      and look: "resolveGuest env r w = (Inr (Some guest) :: response + user option, wa)" "IsGuest guest"
      and tail: "NewUserHandle wa = (Inr handle, wb)" "newSessionID wb = (Inr i, wc)"
        "Service_BeginRegistration (env_webauthn env) (begin_user handle q) i wc = (Inr (options, session), wd)"
        "ChallengeStore_Save (env_redis env) (env_challengeTTL env) i payload wd = (Inr (), w1)"
      and resp: "resp = \<lparr>resp_Status = 200, resp_JSON = True, resp_Cookies = w_header w1, resp_Body = Some options, resp_Page = None\<rparr>"
    have "w_now wa = w_now w"
      using look(1) by (rule keepsD [rotated]) (intro keeps_rules; simp)
    from begin_tail [OF stores this tail] show ?thesis
      using q look assms(4) resp ttls_positiveD(1) [OF ttls] by auto
  qed
qed

lemma BeginLogin_saves:
  assumes stores: "redis_stores (env_redis env) H (env_uuid env)"
    and "serve (BeginLogin env r) w = (resp, w1)" and "resp_Status resp = 200"
    and "resp_Body resp = Some (AssertionOptions opts sid)"
    and ttls: "ttls_positive env"
  shows "\<exists>t n a session payload. lib_BeginDiscoverableLogin (env_webauthn env) t n = Some (a, Some session)
    \<and> marshal_loginSession env \<lparr>login_Session = session\<rparr> = Some payload
    \<and> (\<forall>t \<ge> w_now w. challenge_at H t w1 sid =
         (if t < w_now w + env_challengeTTL env then Some (RDoc payload) else None))"
proof -
  have "BeginLogin env r w = (Inr resp, w1)"
    by (rule serve_success [OF assms(2)]) (simp_all add: handlers_reject assms)
  then show ?thesis
  proof (rule BeginLogin_on)
    fix i wa options session wb payload
    assume i: "newSessionID w = (Inr i, wa)"
      and opts: "Service_BeginLogin (env_webauthn env) i wa = (Inr (options, session), wb)"
      and payload: "marshal_loginSession env \<lparr>login_Session = session\<rparr> = Some payload"
      and save: "ChallengeStore_Save (env_redis env) (env_challengeTTL env) i payload wb = (Inr (), w1)"
      and resp: "resp = \<lparr>resp_Status = 200, resp_JSON = True, resp_Cookies = w_header w1, resp_Body = Some options, resp_Page = None\<rparr>"
    have "w_now wa = w_now w"
      using i by (rule keepsD [rotated]) (intro keeps_rules; simp)
    moreover have "w_now wb = w_now wa"
      using opts by (rule keepsD [rotated]) (intro keeps_rules; simp)
    moreover have "i = sid"
      using assms(4) resp opts by (auto simp: AssertionOptions_def elim!: BeginLogin_service_on)
    moreover obtain a where "lib_BeginDiscoverableLogin (env_webauthn env) (w_now wa) (w_calls wa) = Some (a, Some session)"
      using opts by (rule BeginLogin_service_on)
    ultimately show ?thesis
      using save_at [OF stores save, of w] ttls_positiveD(1) [OF ttls] payload by fastforce
  qed
qed

text \<open>
  C9: a registration that succeeds creates exactly one user and one passkey. The user is
  registered, under the names that were stored with the challenge, and the name was free;
  the passkey belongs to that user, is the credential that the library verified against the
  stored session, carries the session's opaque handle, and passed both attestation policies.
  The response names the two new ids and sets no cookie.
\<close>

theorem CompleteRegister_creates:
  assumes "serve (CompleteRegister env r) w = (resp, w')" and "resp_Status resp = 200"
  shows "\<exists>sessionID body raw w1 stored parsed cred user row.
      complete_envelope r = Some (sessionID, body)
    \<and> ChallengeStore_Take (env_redis env) sessionID w = (Inr raw, w1)
    \<and> unmarshal_registrationSession env raw = Some stored \<and> \<not> reg_Promote stored
    \<and> lib_ParseCreation (env_webauthn env) body = Some parsed
    \<and> lib_CreateCredential (env_webauthn env) (w_now w) (stored_user env stored) (reg_Session stored) parsed
        = Some cred
    \<and> IsAcceptedAttestation (lib_AttestationFormat cred) \<and> IsAcceptedAttestationType (lib_AttestationType cred)
    \<and> w_users w' = w_users w @ [user] \<and> \<not> IsGuest user \<and> Username user = reg_Username stored
    \<and> DisplayName user = reg_DisplayName stored \<and> \<not> username_taken (w_users w) (Username user)
    \<and> w_creds w' = w_creds w @ [row] \<and> user_id row = user_ID user \<and> live row
    \<and> Some (credential_id row) = lib_ID cred \<and> Some (public_key row) = lib_PublicKey cred
    \<and> Some (webauthn_user_handle row) = Handle (stored_user env stored)
    \<and> attestation_format row = lib_AttestationFormat cred \<and> attestation_type row = lib_AttestationType cred
    \<and> resp_Body resp = Some (completeRegisterResponse env (user_ID user) (row_id row))
    \<and> resp_Cookies resp = w_header w"
proof -
  have "CompleteRegister env r w = (Inr resp, w')"
    by (rule serve_success [OF assms(1)]) (simp_all add: handlers_reject assms)
  then show ?thesis
  proof (rule CompleteRegister_on)
    fix sessionID body raw w1 stored parsed cred user w2 domainCred saved
    assume h: "complete_envelope r = Some (sessionID, body)"
      "ChallengeStore_Take (env_redis env) sessionID w = (Inr raw, w1)"
      "unmarshal_registrationSession env raw = Some stored" "\<not> reg_Promote stored"
      "lib_ParseCreation (env_webauthn env) body = Some parsed"
      "lib_CreateCredential (env_webauthn env) (w_now w1) (stored_user env stored) (reg_Session stored) parsed
        = Some cred"
      "checkAttestationPolicy cred = None"
      "UserStore_CreateRegistered (reg_Username stored) (reg_DisplayName stored) w1 = (Inr user, w2)"
      "domainCredentialFromLib (env_uuid env) (user_ID user) (Handle (stored_user env stored)) cred
        = Some domainCred"
      "CredentialStore_Insert domainCred w2 = (Inr saved, w')"
      "resp = \<lparr>resp_Status = 200, resp_JSON = True, resp_Cookies = w_header w',
         resp_Body = Some (completeRegisterResponse env (user_ID user) (cred_ID saved)), resp_Page = None\<rparr>"
    note user = CreateRegistered_Inr [OF h(8)] and cred = domainCredentialFromLib_Some [OF h(9)]
    have same1: "w_users w1 = w_users w" "w_creds w1 = w_creds w" "w_now w1 = w_now w" "w_header w1 = w_header w"
      by (rule keepsD [OF keeps_redis_stores(6) h(2)]; simp)+
    have same2: "w_header w2 = w_header w1"
      using h(8) by (rule keepsD [rotated]) (intro keeps_rules; simp)
    have same3: "w_header w' = w_header w2"
      using h(10) by (rule keepsD [rotated]) (intro keeps_rules; simp)
    from h(10) obtain row where row: "w_creds w' = w_creds w2 @ [row]" "w_users w' = w_users w2"
      "row = row_of (row_id row) (w_now w2) domainCred" "saved = scan_row row" "not_null domainCred"
      by (rule Insert_Inr)
    have fields: "user_id row = user_ID user \<and> live row \<and> Some (credential_id row) = lib_ID cred
        \<and> Some (public_key row) = lib_PublicKey cred \<and> Some (webauthn_user_handle row) = Handle (stored_user env stored)
        \<and> attestation_format row = lib_AttestationFormat cred \<and> attestation_type row = lib_AttestationType cred"
      by (subst (1 2 3 4 5 6 7) row(3)) (use row(5) in \<open>simp add: row_of_def live_def not_null_def cred\<close>)
    show ?thesis
      using h(1-7) user row(1,2,4) fields same1 same2 same3
      by (intro exI [of _ sessionID] exI [of _ body] exI [of _ raw] exI [of _ w1] exI [of _ stored]
          exI [of _ parsed] exI [of _ cred] exI [of _ user] exI [of _ row])
         (simp add: h(11) checkAttestationPolicy_None)
  qed
qed

theorem CompleteRegister_creates_witness:
  "\<exists>user row. w_users (snd (serve (CompleteRegister toy_env toy_complete)
       (with_challenge (toy_payload ''alice'' uuid_Nil False) toy_start))) = [user]
     \<and> w_creds (snd (serve (CompleteRegister toy_env toy_complete)
       (with_challenge (toy_payload ''alice'' uuid_Nil False) toy_start))) = [row]
     \<and> user_id row = user_ID user \<and> IsAcceptedAttestation (attestation_format row)"
proof -
  let ?w = "with_challenge (toy_payload ''alice'' uuid_Nil False) toy_start"
  have "resp_Status (fst (serve (CompleteRegister toy_env toy_complete) ?w)) = 200"
    and "w_users ?w = []" and "w_creds ?w = []"
    by code_simp+
  then show ?thesis
    using CompleteRegister_creates [of toy_env toy_complete ?w, OF surjective_pairing] by auto
qed

text \<open>
  C16: the identity chosen at \<open>/register/begin\<close> is the one created at
  \<open>/register/complete\<close>. If \<open>begin\<close> answered 200 and handed out a session id, and nothing
  else touched that challenge, a later \<open>complete\<close> with that id that answers 200 creates a
  user with exactly the username and display name of the \<open>begin\<close> request, and it came
  before the challenge expired.
  The configured times to live are positive.
\<close>

theorem register_round_trip:
  assumes stores: "redis_stores (env_redis env) H (env_uuid env)" and "session_data_ok (env_webauthn env)"
    and "serve (BeginRegister env r1) w = (resp1, w1)" and "resp_Status resp1 = 200"
    and "resp_Body resp1 = Some (CreationOptions opts sid)"
    and "w_now w \<le> w_now w2" and "challenge_at H (w_now w2) w2 sid = challenge_at H (w_now w2) w1 sid"
    and "complete_envelope r2 = Some (sid, body)"
    and "serve (CompleteRegister env r2) w2 = (resp2, w3)" and "resp_Status resp2 = 200"
    and ttls: "ttls_positive env"
  shows "\<exists>q user. begin_envelope r1 = Some q \<and> w_users w3 = w_users w2 @ [user] \<and> \<not> IsGuest user
    \<and> Username user = begin_Username q \<and> DisplayName user = begin_DisplayName q
    \<and> w_now w2 < w_now w + env_challengeTTL env"
proof -
  from BeginRegister_saves [OF stores assms(3,4,5) ttls] obtain q session payload where q: "begin_envelope r1 = Some q"
    and payload: "marshal_registrationSession env (register_payload session q uuid_Nil False) = Some payload"
    and saved: "\<And>t. w_now w \<le> t \<Longrightarrow> challenge_at H t w1 sid =
      (if t < w_now w + env_challengeTTL env then Some (RDoc payload) else None)"
    by blast
  have "CompleteRegister env r2 w2 = (Inr resp2, w3)"
    by (rule serve_success [OF assms(9)]) (simp_all add: handlers_reject assms)
  then obtain raw w4 stored parsed cred user w5 domainCred saved
    where take: "ChallengeStore_Take (env_redis env) sid w2 = (Inr raw, w4)"
      and stored: "unmarshal_registrationSession env raw = Some stored"
      and user: "UserStore_CreateRegistered (reg_Username stored) (reg_DisplayName stored) w4 = (Inr user, w5)"
      and cred: "CredentialStore_Insert domainCred w5 = (Inr saved, w3)"
    by (rule CompleteRegister_on) (use assms(8) in simp)
  have "challenge_at H (w_now w2) w1 sid = Some raw"
    using redis_stores.Take_Inr [OF stores take] assms(7) by simp
  with saved [OF assms(6)] have raw: "raw = RDoc payload" and "w_now w2 < w_now w + env_challengeTTL env"
    by (auto split: if_splits)
  moreover have "reg_Username stored = begin_Username q" "reg_DisplayName stored = begin_DisplayName q"
    using registrationSession_round_trip [OF assms(2) redis_stores.uuids [OF stores] payload] stored raw
    by (auto simp: register_payload_def)
  moreover have "w_users w4 = w_users w2"
    using take by (rule keepsD [OF keeps_redis_stores(6), rotated]) simp
  moreover have "w_users w3 = w_users w5"
    using cred by (rule Insert_Inr)
  ultimately show ?thesis
    using q CreateRegistered_Inr [OF user] by auto
qed

theorem register_round_trip_witness:
  "\<exists>user. w_users (snd (serve (CompleteRegister toy_env (complete_with (body_sid (fst toy_begun)))) (snd toy_begun)))
     = [user] \<and> Username user = ''alice''"
proof -
  have run: "resp_Status (fst (serve (CompleteRegister toy_env (complete_with (body_sid (fst toy_begun))))
        (snd toy_begun))) = 200"
    and "begin_envelope (toy_begin ''alice'') = Some \<lparr>begin_Username = ''alice'', begin_DisplayName = ''Shown''\<rparr>"
    and "w_users (snd toy_begun) = []"
    by code_simp+
  then show ?thesis
    using register_round_trip [OF toy_stores toy_session_ok toy_begun_run(1-4) refl toy_begun_run(5)
        surjective_pairing run]
    by auto
qed

section \<open>Replay and crossed flows\<close>

text \<open>
  C18: a session id works once. After any of the three \<open>complete\<close> endpoints has processed a
  session id, whatever it answered short of an internal error, no \<open>complete\<close> endpoint
  accepts the same id again, as long as no new challenge is stored under it: the answer is
  401 or 500, and the database does not change.
\<close>

theorem complete_replay_refused:
  assumes stores: "redis_stores (env_redis env) H (env_uuid env)"
    and "h \<in> complete_handlers env" and "h' \<in> complete_handlers env"
    and "complete_envelope r = Some (sid, body)" and "complete_envelope r' = Some (sid, body')"
    and "serve (h r) w = (resp, w1)" and "resp_Status resp \<noteq> 500"
    and "w_now w1 \<le> w_now w2" and "challenge_at H (w_now w2) w2 sid = challenge_at H (w_now w2) w1 sid"
    and "serve (h' r') w2 = (resp', w3)"
  shows "resp_Status resp' \<in> {401, 500} \<and> db w3 = db w2"
proof -
  have "spent H sid w1"
    using assms(2,4,6,7) by (intro redis_stores.complete_handlers_spend [OF stores]) auto
  then have "challenge_at H (w_now w2) w2 sid = None"
    using assms(8,9) by (simp add: spent_def)
  then show ?thesis
    using assms(3,5,10) by (intro redis_stores.complete_handlers_refuse [OF stores]) auto
qed

theorem complete_replay_refused_witness:
  "resp_Status (fst (serve (CompletePromote toy_env toy_complete)
     (snd (serve (CompleteRegister toy_env toy_complete)
       (with_challenge (toy_payload ''alice'' uuid_Nil False) toy_start))))) \<in> {401, 500}"
proof -
  let ?w = "with_challenge (toy_payload ''alice'' uuid_Nil False) toy_start"
  have run: "complete_envelope toy_complete = Some (''sid'', JStr ''k'')"
    "resp_Status (fst (serve (CompleteRegister toy_env toy_complete) ?w)) \<noteq> 500"
    by code_simp+
  show ?thesis
    using complete_replay_refused [of toy_env rs_holds_at "CompleteRegister toy_env" "CompletePromote toy_env"
        toy_complete "''sid''" "JStr ''k''" toy_complete "JStr ''k''" ?w, OF toy_stores _ _ run(1,1)
        surjective_pairing run(2) order_refl refl surjective_pairing]
    by (simp add: complete_handlers_def)
qed

context redis_stores begin

lemma wrong_flow_refused:
  assumes "complete_envelope r = Some (i, b)" and "env_redis env = R"
    and "challenge_at holds_at (w_now w) w i = Some raw" and "unm raw = Some stored" and "bad stored"
    and "serve (bindE (decodeComplete r) (\<lambda>(i, b). bindE (takeChallenge env m1 i) (\<lambda>raw.
        bindE (someOrInternal m2 (unm raw)) (\<lambda>stored.
          if bad stored then reject 401 ''session_invalid'' else g i b stored)))) w = (resp, w')"
  shows "resp_Status resp \<in> {401, 500} \<and> db w' = db w"
proof (cases "ChallengeStore_Take R i w")
  case (Pair x w1)
  have dec: "decodeComplete r w = (Inr (i, b), w)"
    using assms(1) by (simp add: decodeComplete_on)
  have db: "db w1 = db w"
    using Pair by (rule keepsD [OF keeps_redis_stores(6), rotated]) simp
  have x: "x' = raw" if "x = Inr x'" for x'
    using Take_Inr [of i w x' w1] Pair that assms(3) by simp
  show ?thesis
    using assms(4,5,6) dec db x Pair
    by (cases x) (auto simp: serve_bindE takeChallenge_def someOrInternal_def ret_def assms(2) catchE_def
        reject_eq internal_eq codeMessages_def serve_def [of "reject _ _"] split: if_splits)
qed

end

text \<open>
  C7: the registration and the promotion flow do not mix. A session id handed out by
  \<open>/promote/begin\<close> is refused by \<open>/register/complete\<close>, and one handed out by
  \<open>/register/begin\<close> by \<open>/promote/complete\<close>: the answer is 401 or 500 and the database does
  not change.
  The configured times to live are positive.
\<close>

theorem cross_flow_refused:
  assumes stores: "redis_stores (env_redis env) H (env_uuid env)" and "session_data_ok (env_webauthn env)"
    and flow: "(begin, complete) \<in> {(BeginPromote env, CompleteRegister env), (BeginRegister env, CompletePromote env)}"
    and "serve (begin r1) w = (resp1, w1)" and "resp_Status resp1 = 200"
    and "resp_Body resp1 = Some (CreationOptions opts sid)"
    and "w_now w \<le> w_now w2" and "challenge_at H (w_now w2) w2 sid = challenge_at H (w_now w2) w1 sid"
    and "complete_envelope r2 = Some (sid, body)" and "serve (complete r2) w2 = (resp2, w3)"
    and ttls: "ttls_positive env"
  shows "resp_Status resp2 \<in> {401, 500} \<and> db w3 = db w2"
proof (cases "challenge_at H (w_now w2) w2 sid")
  case None
  have "complete \<in> complete_handlers env"
    using flow by (auto simp: complete_handlers_def)
  then show ?thesis
    using assms(9,10) None by (intro redis_stores.complete_handlers_refuse [OF stores]) auto
next
  case (Some raw)
  have "challenge_at H (w_now w2) w1 sid = Some raw"
    using Some assms(8) by simp
  note saved = this and trip = registrationSession_round_trip [OF assms(2) redis_stores.uuids [OF stores]]
  from flow consider (promote) "begin = BeginPromote env" "complete = CompleteRegister env"
    | (register) "begin = BeginRegister env" "complete = CompletePromote env"
    by auto
  then show ?thesis
  proof cases
    case promote
    obtain q session payload and guest :: user where
      "marshal_registrationSession env (register_payload session q (user_ID guest) True) = Some payload"
      and "raw = RDoc payload"
      using BeginPromote_saves [OF stores assms(4) [unfolded promote] assms(5,6) ttls] saved assms(7)
      by (auto split: if_splits)
    then obtain stored where "unmarshal_registrationSession env raw = Some stored" "reg_Promote stored"
      using trip by (metis register_payload_def registrationSession.select_convs(5))
    then show ?thesis
      using assms(10) unfolding promote CompleteRegister_def Let_def
      by (intro redis_stores.wrong_flow_refused [OF stores assms(9) refl Some])
  next
    case register
    obtain q session payload where
      "marshal_registrationSession env (register_payload session q uuid_Nil False) = Some payload"
      and "raw = RDoc payload"
      using BeginRegister_saves [OF stores assms(4) [unfolded register] assms(5,6) ttls] saved assms(7)
      by (auto split: if_splits)
    then obtain stored where "unmarshal_registrationSession env raw = Some stored" "\<not> reg_Promote stored"
      using trip by (metis register_payload_def registrationSession.select_convs(5))
    then show ?thesis
      using assms(10) unfolding register CompletePromote_def Let_def
      by (intro redis_stores.wrong_flow_refused [OF stores assms(9) refl Some])
  qed
qed

theorem cross_flow_refused_witness:
  "resp_Status (fst (serve (CompletePromote toy_env (complete_with (body_sid (fst toy_begun)))) (snd toy_begun)))
     \<in> {401, 500}"
proof -
  have flow: "(BeginRegister toy_env, CompletePromote toy_env) \<in>
    {(BeginPromote toy_env, CompleteRegister toy_env), (BeginRegister toy_env, CompletePromote toy_env)}"
    by simp
  show ?thesis
    using cross_flow_refused [OF toy_stores toy_session_ok flow toy_begun_run(1-4) refl toy_begun_run(5)
        surjective_pairing toy_ttls] by blast
qed

section \<open>A registration that fails late\<close>

lemma fragments_avoid:
  "avoids (has_code ''credential_exists'') (decodeComplete r)"
  "avoids (has_code ''credential_exists'') (takeChallenge env msg i)"
  "avoids (has_code ''credential_exists'') (someOrInternal msg x)"
  "avoids (has_code ''credential_exists'') (verifyAttestation env m1 m2 u d b)"
  "avoids (has_code ''credential_exists'') (catchE m (\<lambda>e. if e = ErrUsernameTaken
     then reject 409 ''username_taken'' else internal msg))"
  unfolding fragment_defs by (intro reject_rules; simp add: codeMessages_def)+

lemma Insert_exists:
  assumes "CredentialStore_Insert c w = (Inl ErrCredentialExists, w')"
  shows "w_creds w' = w_creds w" and "w_users w' = w_users w"
proof -
  have "pg_stmt (insert_credential c) w = (Inl UniqueViolation, w')"
    using assms
    by (auto simp: CredentialStore_Insert_def scanCredential_def act_defs
        split: prod.splits sum.splits if_splits elim!: is_unique_violationE)
  then obtain xs where "insert_credential c (w\<lparr>w_pg := xs\<rparr>) = (Inl UniqueViolation, w')"
    by (cases rule: pg_stmt_cases) auto
  then show "w_creds w' = w_creds w" and "w_users w' = w_users w"
    by (auto simp: insert_credential_def Let_def split: if_splits)
qed

lemma CompleteRegister_conflict:
  assumes run: "CompleteRegister env r w = (Inl resp, w')" and code: "has_code ''credential_exists'' resp"
  obtains i raw w1 n d user w2 domainCred
  where "ChallengeStore_Take (env_redis env) i w = (Inr raw, w1)"
    and "UserStore_CreateRegistered n d w1 = (Inr user, w2)"
    and "CredentialStore_Insert domainCred w2 = (Inl ErrCredentialExists, w')"
  using run unfolding CompleteRegister_def Let_def
  apply (elim past_fragment [OF _ fragments_avoid(1) code])
  apply (clarsimp simp: exit_simps)
  apply (elim past_fragment [OF _ fragments_avoid(2) code] past_fragment [OF _ fragments_avoid(3) code])
  apply (clarsimp simp: exit_simps split: if_splits)
  subgoal using code by (auto simp: reject_eq codeMessages_def)
  apply (elim past_fragment [OF _ fragments_avoid(4) code] past_fragment [OF _ fragments_avoid(5) code]
      past_fragment [OF _ fragments_avoid(3) code] verifyAttestation_on)
  using code
  by (auto simp: exit_simps bindE_def catchE_def writeJSON_def getE_def internal_eq reject_eq codeMessages_def
      split: prod.splits sum.splits if_splits elim!: verifyAttestation_on)

text \<open>
  C30: a registration refused with \<open>credential_exists\<close> is not undone. The registered user
  row has been inserted by then and stays, without any passkey: nobody can log in as that
  user, and the username is taken for everyone else.
\<close>

theorem register_conflict_leaves_user:
  assumes "serve (CompleteRegister env r) w = (resp, w')" and "has_code ''credential_exists'' resp"
    and "creds_ok (w_users w) (w_creds w)"
  shows "\<exists>user. w_users w' = w_users w @ [user] \<and> \<not> IsGuest user \<and> username_taken (w_users w') (Username user)
    \<and> live_count (w_creds w') (user_ID user) = 0
    \<and> (\<forall>d v w3. UserStore_CreateRegistered (Username user) d w' \<noteq> (Inr v, w3))"
proof -
  have "CompleteRegister env r w = (Inl resp, w')"
    using assms(1,2)
    by (auto simp: serve_def has_code_def errorBody_def completeRegisterResponse_def
        split: prod.splits sum.splits elim!: CompleteRegister_on)
  from this assms(2) obtain i raw w1 n d user w2 dc where
    take: "ChallengeStore_Take (env_redis env) i w = (Inr raw, w1)"
    and user: "UserStore_CreateRegistered n d w1 = (Inr user, w2)"
    and ins: "CredentialStore_Insert dc w2 = (Inl ErrCredentialExists, w')"
    by (rule CompleteRegister_conflict)
  have same: "w_users w1 = w_users w" "w_creds w1 = w_creds w"
    by (rule keepsD [OF keeps_redis_stores(6) take]; simp)+
  note u = CreateRegistered_Inr [OF user] and c = Insert_exists [OF ins]
  have users: "w_users w' = w_users w @ [user]" and creds: "w_creds w' = w_creds w"
    using u(1,7) c same by simp_all
  have taken: "username_taken (w_users w') (Username user)"
    using u(2) users by (auto simp: username_taken_def)
  moreover have "live_count (w_creds w') (user_ID user) = 0"
    using assms(3) u(6) same(1) unfolding live_count_def count_where_eq_0 creds creds_ok_def by metis
  moreover have "UserStore_CreateRegistered (Username user) d w' \<noteq> (Inr v, w3)" for d v w3
    using taken CreateRegistered_Inr(5) by blast
  ultimately show ?thesis
    using users u(2) by auto
qed

definition toy_taken :: "rserver world" where
  "toy_taken = with_challenge (toy_payload ''bob'' uuid_Nil False)
     (toy_start\<lparr>w_users := [sample_user], w_creds := [row_of (UUID [1]) 0 (sample_credential (UUID [9]) [107])]\<rparr>)"

theorem register_conflict_leaves_user_witness:
  "\<exists>user. w_users (snd (serve (CompleteRegister toy_env toy_complete) toy_taken)) = [sample_user, user]
     \<and> live_count (w_creds (snd (serve (CompleteRegister toy_env toy_complete) toy_taken))) (user_ID user) = 0"
proof -
  have "resp_Body (fst (serve (CompleteRegister toy_env toy_complete) toy_taken)) =
      Some (errorBody ''credential_exists'' ''That credential is already registered.'')"
    by code_simp
  then have code: "has_code ''credential_exists'' (fst (serve (CompleteRegister toy_env toy_complete) toy_taken))"
    by (auto simp: has_code_def)
  have "creds_ok (w_users toy_taken) (w_creds toy_taken)" and "w_users toy_taken = [sample_user]"
    by (simp_all add: toy_taken_def with_challenge_def creds_ok_def)
  then show ?thesis
    using register_conflict_leaves_user [OF surjective_pairing code] by auto
qed

end
