(* ===== verification/Guest_Properties.thy ===== *)
theory Guest_Properties
  imports Register_Properties Login_Properties
begin

text \<open>
  Guest sessions (\<open>/auth/guest\<close>) and the promotion of a guest to a registered user
  (\<open>/auth/promote\<close>): a browser keeps its guest, and the guest keeps its id through the
  promotion.
\<close>

section \<open>Guest sessions from now on\<close>

definition guest_view ::
  "(time \<Rightarrow> 'rd \<Rightarrow> string \<Rightarrow> rval option) \<Rightarrow> uuid_lib \<Rightarrow> 'rd world \<Rightarrow> time \<times> (time \<Rightarrow> string \<Rightarrow> uuid option)" where
  "guest_view H L w = (w_now w, \<lambda>t tok. if w_now w \<le> t then guest_owner H L t w tok else None)"

lemma guest_view_eqI:
  "w_now w' = w_now w \<Longrightarrow>
   (\<And>t tok. w_now w \<le> t \<Longrightarrow> H t (w_rd w') (guestKeyPrefix @ tok) = H t (w_rd w) (guestKeyPrefix @ tok)) \<Longrightarrow>
   guest_view H L w' = guest_view H L w"
  by (auto simp: guest_view_def guest_owner_def token_owner_def fun_eq_iff)

lemma guest_viewD:
  "guest_view H L w' = guest_view H L w \<Longrightarrow> w_now w \<le> t \<Longrightarrow> guest_owner H L t w' = guest_owner H L t w"
  by (auto simp: guest_view_def fun_eq_iff dest: spec [of _ t])

lemma guest_view_simps [simp]:
  "guest_view H L (w\<lparr>w_calls := n\<rparr>) = guest_view H L w" "guest_view H L (w\<lparr>w_pg := p\<rparr>) = guest_view H L w"
  "guest_view H L (w\<lparr>w_upos := n\<rparr>) = guest_view H L w" "guest_view H L (w\<lparr>w_users := us\<rparr>) = guest_view H L w"
  by (rule guest_view_eqI; simp)+

text \<open>What \<open>resolveGuest\<close> finds, and that it changes nothing that matters.\<close>

lemma resolveGuest_Some:
  assumes stores: "redis_stores (env_redis env) H (env_uuid env)"
    and "resolveGuest env r w = (Inr (Some u), w')"
  obtains tok where "cookie_value GuestCookieName r = Some tok"
    and "guest_owner H (env_uuid env) (w_now w) w tok = Some (user_ID u)" and "u \<in> set (w_users w)"
proof -
  obtain tok w1 i where tok: "cookie_value GuestCookieName r = Some tok"
    and get: "GuestStore_Get (env_redis env) (env_uuid env) tok w = (Inr i, w1)"
    and user: "UserStore_GetByID i w1 = (Inr u, w')"
    using assms(2)
    by (auto simp: resolveGuest_def exit_simps tryE_Inr elim!: bindE_InrE split: option.splits sum.splits)
  have "w_users w1 = w_users w"
    using get by (rule keepsD [OF keeps_redis_stores(3), rotated]) simp
  then show thesis
    using that tok GetByID_Inr(1,2) [OF user] redis_stores.guest_get(1) [OF stores get] by simp
qed

lemma resolveGuest_same:
  assumes stores: "redis_stores (env_redis env) H (env_uuid env)"
    and "resolveGuest env r w = (x, w')"
  shows "guest_view H (env_uuid env) w' = guest_view H (env_uuid env) w"
proof -
  have get: "keeps (guest_view H (env_uuid env)) (GuestStore_Get (env_redis env) (env_uuid env) tok)" for tok
  proof (rule keepsI)
    fix w y w1 assume get: "GuestStore_Get (env_redis env) (env_uuid env) tok w = (y, w1)"
    have "w_now w1 = w_now w"
      using get by (rule keepsD [rotated]) (intro keeps_rules; simp)
    then show "guest_view H (env_uuid env) w1 = guest_view H (env_uuid env) w"
      using redis_stores.Get_same(2) [OF stores get] by (intro guest_view_eqI) auto
  qed
  show ?thesis
    using assms(2) by (rule keepsD [rotated]) (unfold resolveGuest_def, intro get keeps_rules; simp)
qed

section \<open>Guests\<close>

text \<open>The second half of \<open>Guest\<close>, when there is no guest to reuse.\<close>

definition makeGuest :: "('rd, 'sess, 'pc, 'pa) auth_env \<Rightarrow> request \<Rightarrow> ('rd, response) handler_act" where
  "makeGuest env r =
     bindE next_call (\<lambda>n.
     bindE (orInternal ''guest: create user''
         (UserStore_CreateGuest (''guest-'' @ uuid_NewString (env_uuid env) n) ''Guest'')) (\<lambda>user.
     bindE (orInternal ''guest: mint token''
         (GuestStore_Create (env_redis env) (env_uuid env) (env_guestTTL env) (user_ID user))) (\<lambda>token.
     bindE (setGuestCookie r token (guestMaxAge env)) (\<lambda>_.
     writeJSON 200 (guestResponse env (user_ID user))))))"

lemma makeGuest_exits: "exits (\<lambda>resp _. resp_Status resp = 500) (makeGuest env r)"
  unfolding makeGuest_def orInternal_def by (intro reject_rules; simp)

lemma Guest_cases:
  assumes "serve (Guest env r) w = (resp, w')" and "resp_Status resp = 200"
  obtains (reuse) u where "resolveGuest env r w = (Inr (Some u) :: response + user option, w')" and "IsGuest u"
      and "resp_Cookies resp = w_header w'" and "resp_Body resp = Some (guestResponse env (user_ID u))"
  | (new) known w1 n w2 u w3 token w4
    where "resolveGuest env r w = (Inr known :: response + user option, w1)"
      and "next_call w1 = (Inr n :: response + nat, w2)"
      and "UserStore_CreateGuest (''guest-'' @ uuid_NewString (env_uuid env) n) ''Guest'' w2 = (Inr u, w3)"
      and "GuestStore_Create (env_redis env) (env_uuid env) (env_guestTTL env) (user_ID u) w3 = (Inr token, w4)"
      and "w' = w4\<lparr>w_header := w_header w4 @ [guest_cookie r token (guestMaxAge env)]\<rparr>"
      and "resp_Cookies resp = w_header w'" and "resp_Body resp = Some (guestResponse env (user_ID u))"
proof -
  obtain known w1 where known: "resolveGuest env r w = (Inr known :: response + user option, w1)"
    by (cases "resolveGuest env r w :: (response + user option) \<times> _"; cases "fst (resolveGuest env r w) :: response + user option")
       (auto dest: exitsD [OF exits_total(2) [where Q = "\<lambda>_ _. False"]])
  show thesis
  proof (cases "\<exists>u. known = Some u \<and> IsGuest u")
    case True
    then show thesis
      using assms(1) known reuse
      by (auto simp: serve_def Guest_def bindE_def whenE_def writeJSON_def getE_def failE_def)
  next
    case False
    then have "(case known of None \<Rightarrow> ret () | Some user \<Rightarrow>
        whenE (IsGuest user) (bindE (writeJSON 200 (guestResponse env (user_ID user))) failE)) w1
        = (Inr () :: response + unit, w1)"
      by (auto simp: whenE_def ret_def split: option.split)
    then have "serve (makeGuest env r) w1 = (resp, w')"
      using assms(1) known by (simp add: Guest_def makeGuest_def serve_bindE)
    then have "makeGuest env r w1 = (Inr resp, w')"
      using makeGuest_exits [of env r] assms(2)
      by (auto simp: serve_def split: prod.splits sum.splits dest: exitsD)
    then show thesis
      using new [OF known] by (auto simp: makeGuest_def exit_simps elim!: bindE_InrE)
  qed
qed

text \<open>
  C26: \<open>/auth/guest\<close> answers 200 with the id of a guest user. Either the request's cookie
  resolves to that guest already, and then neither the database nor the cookies change; or
  one guest row is added, whose token in an \<open>HttpOnly\<close> cookie resolves to it until the
  token expires, and no other guest token is affected.
  The configured times to live are positive.
\<close>

theorem Guest_result:
  assumes stores: "redis_stores (env_redis env) H (env_uuid env)"
    and run: "serve (Guest env r) w = (resp, w')" and "resp_Status resp = 200"
    and ttls: "ttls_positive env"
  shows "\<exists>u. IsGuest u \<and> resp_Body resp = Some (guestResponse env (user_ID u)) \<and>
    ((\<exists>tok. cookie_value GuestCookieName r = Some tok \<and> u \<in> set (w_users w) \<and> db w' = db w
        \<and> guest_owner H (env_uuid env) (w_now w) w tok = Some (user_ID u) \<and> resp_Cookies resp = w_header w)
     \<or> (\<exists>tok. db w' = (w_users w @ [u], w_creds w) \<and> user_ID u \<notin> user_ID ` set (w_users w)
        \<and> resp_Cookies resp = w_header w @ [guest_cookie r tok (guestMaxAge env)]
        \<and> (\<forall>t \<ge> w_now w. guest_owner H (env_uuid env) t w' = (guest_owner H (env_uuid env) t w)
             (tok := if t < w_now w + env_guestTTL env then Some (user_ID u) else None))))"
  using run assms(3)
proof (cases rule: Guest_cases)
  case (reuse u)
  have "db w' = db w" "w_header w' = w_header w"
    by (rule keepsD [OF keeps_resolveGuest reuse(1)]; simp)+
  then show ?thesis
    using reuse resolveGuest_Some [OF stores reuse(1)] by metis
next
  case (new known w1 n w2 u w3 token w4)
  have s1: "db w1 = db w" "w_header w1 = w_header w" "w_now w1 = w_now w"
    by (rule keepsD [OF keeps_resolveGuest new(1)]; simp)+
  have v1: "guest_view H (env_uuid env) w1 = guest_view H (env_uuid env) w"
    using stores new(1) by (rule resolveGuest_same)
  have w2: "w2 = w1\<lparr>w_calls := Suc (w_calls w1)\<rparr>"
    using new(2) by (auto simp: next_call_def)
  have s3: "w_header w3 = w_header w2" "guest_view H (env_uuid env) w3 = guest_view H (env_uuid env) w2"
    using new(3) by (rule keepsD [rotated], intro keeps_rules; simp)+
  have s4: "w_header w4 = w_header w3" "db w4 = db w3"
    using new(4) by (rule keepsD [rotated], intro keeps_rules; simp)+
  note u = CreateGuest_Inr [OF new(3)]
  have now: "w_now w3 = w_now w"
    using s3(2) v1 by (simp add: guest_view_def w2)
  have view: "guest_view H (env_uuid env) w3 = guest_view H (env_uuid env) w"
    using s3(2) v1 by (simp add: w2)
  have owner: "guest_owner H (env_uuid env) t w' = (guest_owner H (env_uuid env) t w)
             (token := if t < w_now w + env_guestTTL env then Some (user_ID u) else None)" if "w_now w \<le> t" for t
    using redis_stores.guest_create [OF stores new(4) _ ttls_positiveD(3) [OF ttls], of t] guest_viewD [OF view that] that now
    by (simp add: new(5) guest_owner_def token_owner_def [abs_def])
  have "db w' = (w_users w @ [u], w_creds w)" "user_ID u \<notin> user_ID ` set (w_users w)"
    using u s1 s4 by (simp_all add: db_def new(5) w2)
  moreover have "resp_Cookies resp = w_header w @ [guest_cookie r token (guestMaxAge env)]"
    using new(5,6) s1 s3 s4 by (simp add: w2)
  ultimately show ?thesis
    using owner u(2) new(7) by blast
qed

theorem Guest_result_witness:
  "\<exists>tok u. resp_Body (fst (serve (Guest toy_env (request_with JNull)) toy_start)) = Some (guestResponse toy_env (user_ID u))
     \<and> IsGuest u \<and> db (snd (serve (Guest toy_env (request_with JNull)) toy_start)) = ([u], [])
     \<and> guest_owner rs_holds_at raw_uuid_lib 499 (snd (serve (Guest toy_env (request_with JNull)) toy_start)) tok
       = Some (user_ID u)"
proof -
  have run: "resp_Status (fst (serve (Guest toy_env (request_with JNull)) toy_start)) = 200"
    "cookie_value GuestCookieName (request_with JNull) = None" "w_now toy_start = 0" "env_guestTTL toy_env = 500"
    "w_users toy_start = []" "w_creds toy_start = []"
    by code_simp+
  have "env_uuid toy_env = raw_uuid_lib" by (simp add: toy_env_def)
  then show ?thesis
    using Guest_result [OF toy_stores surjective_pairing run(1)] run by fastforce
qed

text \<open>
  Repeated calls from one browser stay on one guest. If a call made a new guest and set
  its cookie, then a later call with that cookie, before the token expires and with both
  stores answering, returns the same user id, adds no row and sets no cookie.
  The configured times to live are positive.
\<close>

lemma Guest_idempotent:
  assumes stores: "redis_stores (env_redis env) H (env_uuid env)"
    and run1: "serve (Guest env r1) w = (resp1, w1)" and "resp_Status resp1 = 200"
    and cookie1: "resp_Cookies resp1 = w_header w @ [guest_cookie r1 tok (guestMaxAge env)]"
    and time: "w_now w \<le> w_now w2" "w_now w2 < w_now w + env_guestTTL env"
    and users: "w_users w2 = w_users w1"
    and owner: "guest_owner H (env_uuid env) (w_now w2) w2 tok = guest_owner H (env_uuid env) (w_now w2) w1 tok"
    and cookie2: "cookie_value GuestCookieName r2 = Some tok"
    and get: "GuestStore_Get (env_redis env) (env_uuid env) tok w2 = (Inr i, w3)" and up: "pg_up w3"
    and run2: "serve (Guest env r2) w2 = (resp2, w4)"
    and ttls: "ttls_positive env"
  shows "resp_Status resp2 = 200 \<and> resp_Body resp2 = resp_Body resp1 \<and> db w4 = db w2
    \<and> resp_Cookies resp2 = w_header w2"
proof -
  from Guest_result [OF stores run1 assms(3) ttls] obtain u where u: "IsGuest u"
    and body: "resp_Body resp1 = Some (guestResponse env (user_ID u))"
    and "db w1 = (w_users w @ [u], w_creds w)" and new: "user_ID u \<notin> user_ID ` set (w_users w)"
    and "guest_owner H (env_uuid env) (w_now w2) w1 tok = Some (user_ID u)"
    using cookie1 time by (auto simp: guest_cookie_def)
  then have us: "w_users w1 = w_users w @ [u]" and i: "i = user_ID u"
    using redis_stores.guest_get(1) [OF stores get] owner by (auto simp: db_def)
  have same: "w_users w3 = w_users w2" "db w3 = db w2" "w_header w3 = w_header w2"
    by (rule keepsD [OF keeps_redis_stores(3) get]; simp)+
  have "UserStore_GetByID i w3 = (Inr u, w3)"
    unfolding i by (rule GetByID_found [OF up]) (use same users us new in \<open>auto simp: image_iff\<close>)
  then have "resolveGuest env r2 w2 = (Inr (Some u) :: response + user option, w3)"
    using get cookie2 by (simp add: resolveGuest_def bindE_def tryE_def ret_def)
  then show ?thesis
    using run2 u body same
    by (auto simp: Guest_def serve_def bindE_def whenE_def writeJSON_def getE_def failE_def)
qed

lemma Guest_idempotent_example:
  "resp_Body (fst (serve (Guest toy_env (with_cookie GuestCookieName
       (ck_Value (hd (resp_Cookies (fst (serve (Guest toy_env (request_with JNull)) toy_start))))) (request_with JNull)))
       (snd (serve (Guest toy_env (request_with JNull)) toy_start))))
   = resp_Body (fst (serve (Guest toy_env (request_with JNull)) toy_start))"
proof -
  let ?x = "serve (Guest toy_env (request_with JNull)) toy_start"
  let ?tok = "ck_Value (hd (resp_Cookies (fst ?x)))"
  let ?r2 = "with_cookie GuestCookieName ?tok (request_with JNull)"
  let ?g = "GuestStore_Get (env_redis toy_env) (env_uuid toy_env) ?tok (snd ?x)"
  have run: "resp_Status (fst ?x) = 200"
    "resp_Cookies (fst ?x) = w_header toy_start @ [guest_cookie (request_with JNull) ?tok (guestMaxAge toy_env)]"
    "w_now toy_start \<le> w_now (snd ?x)" "w_now (snd ?x) < w_now toy_start + env_guestTTL toy_env"
    "cookie_value GuestCookieName ?r2 = Some ?tok" "isl (fst ?g) = False" "w_pg (snd ?g) = []"
    by code_simp+
  have get: "?g = (Inr (projr (fst ?g)), snd ?g)"
    using run(6) by (cases "fst ?g") (auto simp: prod_eq_iff)
  have "pg_up (snd ?g)" using run(7) by (simp add: pg_up_def)
  from Guest_idempotent [OF toy_stores surjective_pairing run(1-4) refl refl run(5) get this surjective_pairing toy_ttls]
  show ?thesis by blast
qed

section \<open>Promotion\<close>

text \<open>The rows that a promotion changes and adds, with the header and the sessions as they were.\<close>

lemma promoted_rows:
  assumes promote: "UserStore_PromoteGuest i n d w = (Inr promoted, w1)"
    and dc: "domainCredentialFromLib L (user_ID promoted) h cred = Some dc"
    and ins: "CredentialStore_Insert dc w1 = (Inr saved, w2)"
  obtains g row where "g \<in> set (w_users w)" and "user_ID g = i" and "IsGuest g" and "\<not> username_taken (w_users w) n"
    and "promoted = promote_row n d (w_now w) g"
    and "w_users w2 = update_where (\<lambda>u. user_ID u = user_ID g \<and> IsGuest u) (promote_row n d (w_now w)) (w_users w)"
    and "w_creds w2 = w_creds w @ [row]" and "user_id row = user_ID g" and "live row" and "Some (credential_id row) = lib_ID cred"
    and "w_header w2 = w_header w" and "sess_view H L' w2 = sess_view H L' w"
proof -
  obtain g where g: "g \<in> set (w_users w)" "user_ID g = i" "IsGuest g" "promoted = promote_row n d (w_now w) g"
    "\<not> username_taken (w_users w) n"
    "w_users w1 = update_where (\<lambda>u. user_ID u = i \<and> IsGuest u) (promote_row n d (w_now w)) (w_users w)" "w_creds w1 = w_creds w"
    using promote by (rule PromoteGuest_Inr)
  obtain row where row: "w_creds w2 = w_creds w1 @ [row]" "w_users w2 = w_users w1" "row = row_of (row_id row) (w_now w1) dc"
    and null: "not_null dc"
    using ins by (rule Insert_Inr)
  have fields: "user_id row = user_ID g" "live row" "Some (credential_id row) = lib_ID cred"
    by (subst row(3), use null in \<open>simp add: domainCredentialFromLib_Some [OF dc] g(4) not_null_def\<close>)+
  have "w_header w1 = w_header w" "sess_view H L' w1 = sess_view H L' w"
    using promote by (rule keepsD [rotated], intro keeps_rules; simp)+
  moreover have "w_header w2 = w_header w1" "sess_view H L' w2 = sess_view H L' w1"
    using ins by (rule keepsD [rotated], intro keeps_rules; simp)+
  ultimately show thesis
    by (intro that [of g row]) (use g row(1,2) fields in simp_all)
qed

lemma CompletePromote_result:
  fixes env :: "('rd, 'sess, 'pc, 'pa) auth_env"
  assumes stores: "redis_stores (env_redis env) H (env_uuid env)"
    and "serve (CompletePromote env r) w = (resp, w')" and "resp_Status resp = 200"
    and env: "complete_envelope r = Some (sid, body)"
    and ttls: "ttls_positive env"
  shows "\<exists>raw stored parsed cred g row token.
      challenge_at H (w_now w) w sid = Some raw
    \<and> unmarshal_registrationSession env raw = Some stored \<and> reg_Promote stored
    \<and> lib_ParseCreation (env_webauthn env) body = Some parsed
    \<and> lib_CreateCredential (env_webauthn env) (w_now w) (stored_user env stored) (reg_Session stored) parsed
        = Some cred
    \<and> IsAcceptedAttestation (lib_AttestationFormat cred) \<and> IsAcceptedAttestationType (lib_AttestationType cred)
    \<and> g \<in> set (w_users w) \<and> user_ID g = reg_PromoteUserID stored \<and> IsGuest g
    \<and> \<not> username_taken (w_users w) (reg_Username stored)
    \<and> w_users w' = update_where (\<lambda>u. user_ID u = user_ID g \<and> IsGuest u)
        (promote_row (reg_Username stored) (reg_DisplayName stored) (w_now w)) (w_users w)
    \<and> w_creds w' = w_creds w @ [row] \<and> user_id row = user_ID g \<and> live row \<and> Some (credential_id row) = lib_ID cred
    \<and> (\<forall>t \<ge> w_now w. session_owner H (env_uuid env) t w' =
         (session_owner H (env_uuid env) t w)(token :=
            if t < w_now w + env_sessionTTL env then Some (user_ID g) else None))
    \<and> resp_Body resp = Some (completeLoginResponse env
        (promote_row (reg_Username stored) (reg_DisplayName stored) (w_now w) g))
    \<and> resp_Cookies resp = w_header w @ dropped_guest r @ [session_cookie r token (sessionMaxAge env)]"
proof -
  have "CompletePromote env r w = (Inr resp, w')"
    by (rule serve_success [OF assms(2)]) (simp_all add: handlers_reject assms)
  then obtain raw w1 stored parsed cred promoted w2 dc saved w3 token w4 w5
    where take: "ChallengeStore_Take (env_redis env) sid w = (Inr raw, w1)"
      and stored: "unmarshal_registrationSession env raw = Some stored" "reg_Promote stored"
      and parsed: "lib_ParseCreation (env_webauthn env) body = Some parsed"
      and cred: "lib_CreateCredential (env_webauthn env) (w_now w1) (stored_user env stored) (reg_Session stored) parsed
          = Some cred" "checkAttestationPolicy cred = None"
      and promote: "UserStore_PromoteGuest (reg_PromoteUserID stored) (reg_Username stored) (reg_DisplayName stored) w1
          = (Inr promoted, w2)"
      and dc: "domainCredentialFromLib (env_uuid env) (user_ID promoted) (Handle (stored_user env stored)) cred = Some dc"
      and ins: "CredentialStore_Insert dc w2 = (Inr saved, w3)"
      and sess: "SessionStore_Create (env_redis env) (env_uuid env) (env_sessionTTL env) (user_ID promoted) w3
          = (Inr token, w4)"
      and drop: "dropGuest env ''promote complete: delete guest'' r w4 = (Inr (), w5)"
      and cook: "setSessionCookie r token (sessionMaxAge env) w5 = (Inr () :: response + unit, w')"
      and resp: "resp = \<lparr>resp_Status = 200, resp_JSON = True, resp_Cookies = w_header w',
          resp_Body = Some (completeLoginResponse env promoted), resp_Page = None\<rparr>"
    by (rule CompletePromote_on) (use env in simp)
  let ?V = "sess_view H (env_uuid env)"
  have s1: "w_users w1 = w_users w" "w_creds w1 = w_creds w" "w_header w1 = w_header w" "w_now w1 = w_now w" "?V w1 = ?V w"
    using keepsD [OF redis_stores.keeps_sess_view(1) [OF stores] take]
    by (simp_all add: keepsD [OF keeps_redis_stores(6) take])
  obtain g row where g: "g \<in> set (w_users w)" "user_ID g = reg_PromoteUserID stored" "IsGuest g"
      "\<not> username_taken (w_users w) (reg_Username stored)"
      "promoted = promote_row (reg_Username stored) (reg_DisplayName stored) (w_now w) g"
    and row: "w_users w3 = update_where (\<lambda>u. user_ID u = user_ID g \<and> IsGuest u)
        (promote_row (reg_Username stored) (reg_DisplayName stored) (w_now w)) (w_users w)"
      "w_creds w3 = w_creds w @ [row]" "user_id row = user_ID g" "live row" "Some (credential_id row) = lib_ID cred"
    and header3: "w_header w3 = w_header w" and view: "?V w3 = ?V w"
    by (rule promoted_rows [OF promote dc ins, where H = H and L' = "env_uuid env"]) (simp add: s1)
  then have now: "w_now w3 = w_now w"
    by (simp add: sess_view_def)
  have "dropGuest env ''promote complete: delete guest'' r (w4\<lparr>w_header := w_header w4\<rparr>) = (Inr (), w5)"
    using drop by simp
  note issued = session_issued [OF stores sess this ttls_positiveD(2) [OF ttls]]
  have w': "w' = w5\<lparr>w_header := w_header w5 @ [session_cookie r token (sessionMaxAge env)]\<rparr>"
    using cook by (simp add: exit_simps)
  have owner: "\<forall>t \<ge> w_now w. session_owner H (env_uuid env) t w' = (session_owner H (env_uuid env) t w)(token :=
            if t < w_now w + env_sessionTTL env then Some (user_ID g) else None)"
    using issued(1) sess_viewD [OF view] now g(5)
    by (simp add: w' session_owner_def token_owner_def [abs_def])
  have tables: "w_users w' = w_users w3" "w_creds w' = w_creds w3"
    using issued(2) by (simp_all add: w' db_def)
  have header: "w_header w' = w_header w @ dropped_guest r @ [session_cookie r token (sessionMaxAge env)]"
    using dropGuest_header [OF drop] issued(4) header3 by (simp add: w')
  show ?thesis
    using redis_stores.Take_Inr [OF stores take] stored parsed cred g row owner
    by (intro exI [of _ raw] exI [of _ stored] exI [of _ parsed] exI [of _ cred]
        exI [of _ g] exI [of _ row] exI [of _ token])
       (simp add: resp header tables s1(4) checkAttestationPolicy_None)
qed

text \<open>
  C14: a promotion that succeeds turns the guest of the stored session into a registered
  user and logs it in. The row keeps its id and gets the stored names, which were free, and
  no other user row changes; one passkey is added, the one that the library verified and
  both attestation policies accept, and it belongs to that id; the new session token
  resolves to that id until it expires; the guest cookie is dropped.
  The configured times to live are positive.
\<close>

theorem CompletePromote_promotes:
  fixes env :: "('rd, 'sess, 'pc, 'pa) auth_env"
  assumes stores: "redis_stores (env_redis env) H (env_uuid env)"
    and "serve (CompletePromote env r) w = (resp, w')" and "resp_Status resp = 200"
    and ttls: "ttls_positive env"
  shows "\<exists>sid body raw stored parsed cred g row token.
      complete_envelope r = Some (sid, body) \<and> challenge_at H (w_now w) w sid = Some raw
    \<and> unmarshal_registrationSession env raw = Some stored \<and> reg_Promote stored
    \<and> lib_ParseCreation (env_webauthn env) body = Some parsed
    \<and> lib_CreateCredential (env_webauthn env) (w_now w) (stored_user env stored) (reg_Session stored) parsed
        = Some cred
    \<and> IsAcceptedAttestation (lib_AttestationFormat cred) \<and> IsAcceptedAttestationType (lib_AttestationType cred)
    \<and> g \<in> set (w_users w) \<and> user_ID g = reg_PromoteUserID stored \<and> IsGuest g
    \<and> \<not> username_taken (w_users w) (reg_Username stored)
    \<and> w_users w' = update_where (\<lambda>u. user_ID u = user_ID g \<and> IsGuest u)
        (promote_row (reg_Username stored) (reg_DisplayName stored) (w_now w)) (w_users w)
    \<and> w_creds w' = w_creds w @ [row] \<and> user_id row = user_ID g \<and> live row \<and> Some (credential_id row) = lib_ID cred
    \<and> (\<forall>t \<ge> w_now w. session_owner H (env_uuid env) t w' =
         (session_owner H (env_uuid env) t w)(token :=
            if t < w_now w + env_sessionTTL env then Some (user_ID g) else None))
    \<and> resp_Body resp = Some (completeLoginResponse env
        (promote_row (reg_Username stored) (reg_DisplayName stored) (w_now w) g))
    \<and> resp_Cookies resp = w_header w @ dropped_guest r @ [session_cookie r token (sessionMaxAge env)]"
proof -
  have "CompletePromote env r w = (Inr resp, w')"
    by (rule serve_success [OF assms(2)]) (simp_all add: handlers_reject assms)
  then obtain sid body where "complete_envelope r = Some (sid, body)"
    by (rule CompletePromote_on)
  from this CompletePromote_result [OF assms(1-3) this ttls] show ?thesis by blast
qed

text \<open>A guest, and a challenge of \<open>/promote/begin\<close> for it that waits to be completed.\<close>

definition toy_guest :: user where
  "toy_guest = \<lparr>user_ID = UUID [5], Username = ''guest-1'', DisplayName = ''Guest'', IsGuest = True,
     user_CreatedAt = 0, PromotedAt = None\<rparr>"

definition toy_promoting :: "rserver world" where
  "toy_promoting = with_challenge (toy_payload ''carol'' (UUID [5]) True) (toy_start\<lparr>w_users := [toy_guest]\<rparr>)"

theorem CompletePromote_promotes_witness:
  "\<exists>row. w_users (snd (serve (CompletePromote toy_env toy_complete) toy_promoting))
       = [promote_row ''carol'' ''Shown'' 0 toy_guest]
     \<and> w_creds (snd (serve (CompletePromote toy_env toy_complete) toy_promoting)) = [row]
     \<and> user_id row = UUID [5]"
proof -
  have run: "resp_Status (fst (serve (CompletePromote toy_env toy_complete) toy_promoting)) = 200"
    "w_users toy_promoting = [toy_guest]" "w_creds toy_promoting = []" "user_ID toy_guest = UUID [5]"
    "w_users (snd (serve (CompletePromote toy_env toy_complete) toy_promoting))
       = [promote_row ''carol'' ''Shown'' 0 toy_guest]"
    by code_simp+
  show ?thesis
    using CompletePromote_promotes [OF toy_stores surjective_pairing run(1)] run by auto
qed

text \<open>
  C17: the guest that began a promotion is the one that is promoted. If \<open>/promote/begin\<close>
  answered 200 for the guest of the request's cookie and nothing else touched that
  challenge, then a \<open>/promote/complete\<close> with the session id that answers 200 leaves a
  registered user with the guest's id and the names of the \<open>begin\<close> request, and it came
  before the challenge expired.
  The configured times to live are positive.
\<close>

theorem promote_round_trip:
  assumes stores: "redis_stores (env_redis env) H (env_uuid env)" and "session_data_ok (env_webauthn env)"
    and "serve (BeginPromote env r1) w = (resp1, w1)" and "resp_Status resp1 = 200"
    and "resp_Body resp1 = Some (CreationOptions opts sid)"
    and "w_now w \<le> w_now w2" and "challenge_at H (w_now w2) w2 sid = challenge_at H (w_now w2) w1 sid"
    and "complete_envelope r2 = Some (sid, body)"
    and "serve (CompletePromote env r2) w2 = (resp2, w3)" and "resp_Status resp2 = 200"
    and ttls: "ttls_positive env"
  shows "\<exists>q tok g u. begin_envelope r1 = Some q \<and> cookie_value GuestCookieName r1 = Some tok
    \<and> guest_owner H (env_uuid env) (w_now w) w tok = Some (user_ID g) \<and> g \<in> set (w_users w) \<and> IsGuest g
    \<and> u \<in> set (w_users w3) \<and> user_ID u = user_ID g \<and> \<not> IsGuest u
    \<and> Username u = begin_Username q \<and> DisplayName u = begin_DisplayName q
    \<and> resp_Body resp2 = Some (completeLoginResponse env u) \<and> w_now w2 < w_now w + env_challengeTTL env"
proof -
  from BeginPromote_saves [OF stores assms(3,4,5) ttls] obtain q session payload wa and guest :: user
    where q: "begin_envelope r1 = Some q"
      and look: "resolveGuest env r1 w = (Inr (Some guest) :: response + user option, wa)" "IsGuest guest"
      and payload: "marshal_registrationSession env (register_payload session q (user_ID guest) True) = Some payload"
      and saved: "\<forall>t \<ge> w_now w. challenge_at H t w1 sid =
        (if t < w_now w + env_challengeTTL env then Some (RDoc payload) else None)"
    by auto
  from CompletePromote_result [OF stores assms(9,10,8) ttls] obtain raw stored g row where
      raw: "challenge_at H (w_now w2) w2 sid = Some raw"
    and stored: "unmarshal_registrationSession env raw = Some stored"
    and g: "g \<in> set (w_users w2)" "user_ID g = reg_PromoteUserID stored" "IsGuest g"
    and users: "w_users w3 = update_where (\<lambda>u. user_ID u = user_ID g \<and> IsGuest u)
        (promote_row (reg_Username stored) (reg_DisplayName stored) (w_now w2)) (w_users w2)"
    and body: "resp_Body resp2 = Some (completeLoginResponse env
        (promote_row (reg_Username stored) (reg_DisplayName stored) (w_now w2) g))"
    by blast
  have "raw = RDoc payload" and time: "w_now w2 < w_now w + env_challengeTTL env"
    using saved assms(6,7) raw by (auto split: if_splits)
  then have names: "reg_Username stored = begin_Username q" "reg_DisplayName stored = begin_DisplayName q"
    "reg_PromoteUserID stored = user_ID guest"
    using registrationSession_round_trip [OF assms(2) redis_stores.uuids [OF stores] payload] stored
    by (auto simp: register_payload_def)
  let ?u = "promote_row (reg_Username stored) (reg_DisplayName stored) (w_now w2) g"
  have "?u \<in> set (w_users w3)"
    using g users by (auto simp: set_update_where image_iff intro!: bexI [of _ g])
  moreover have "user_ID ?u = user_ID guest" "\<not> IsGuest ?u" "Username ?u = begin_Username q"
    "DisplayName ?u = begin_DisplayName q"
    using names g(2) by (simp_all add: promote_row_def)
  ultimately show ?thesis
    using q look(2) resolveGuest_Some [OF stores look(1)] body time by metis
qed

definition toy_promotion :: "response \<times> rserver world" where
  "toy_promotion = serve (BeginPromote toy_env (with_cookie GuestCookieName ''g'' (toy_begin ''carol'')))
     (toy_start\<lparr>w_users := [toy_guest],
        w_rd := rs_put (guestKeyPrefix @ ''g'') (RStr (uuid_String raw_uuid_lib (UUID [5]))) 500 empty_server\<rparr>)"

theorem promote_round_trip_witness:
  "\<exists>u. u \<in> set (w_users (snd (serve (CompletePromote toy_env (complete_with (body_sid (fst toy_promotion))))
      (snd toy_promotion)))) \<and> \<not> IsGuest u \<and> Username u = ''carol''"
proof -
  let ?r1 = "with_cookie GuestCookieName ''g'' (toy_begin ''carol'')"
  let ?w = "toy_start\<lparr>w_users := [toy_guest],
    w_rd := rs_put (guestKeyPrefix @ ''g'') (RStr (uuid_String raw_uuid_lib (UUID [5]))) 500 empty_server\<rparr>"
  let ?r2 = "complete_with (body_sid (fst toy_promotion))"
  have b: "serve (BeginPromote toy_env ?r1) ?w = (fst toy_promotion, snd toy_promotion)"
    by (simp add: toy_promotion_def)
  have run: "resp_Status (fst toy_promotion) = 200"
    "resp_Body (fst toy_promotion) = Some (CreationOptions JNull (body_sid (fst toy_promotion)))"
    "w_now ?w \<le> w_now (snd toy_promotion)"
    "complete_envelope ?r2 = Some (body_sid (fst toy_promotion), JStr ''k'')"
    "resp_Status (fst (serve (CompletePromote toy_env ?r2) (snd toy_promotion))) = 200"
    and name: "map_option begin_Username (begin_envelope ?r1) = Some ''carol''"
    by code_simp+
  from promote_round_trip [OF toy_stores toy_session_ok b run(1,2,3) refl run(4) surjective_pairing run(5) toy_ttls]
  show ?thesis using name by auto
qed

end
