(* ===== verification/Refusal_Properties.thy ===== *)
theory Refusal_Properties
  imports Session_Views
begin

text \<open>
  What a refused request leaves unchanged. A \<open>complete\<close> request that is answered with an
  error other than \<open>internal_error\<close> and \<open>credential_exists\<close> has touched neither the
  database nor any session, and sets no cookie.
\<close>

section \<open>Errors of the user store that change nothing\<close>

lemma CreateRegistered_taken:
  assumes "UserStore_CreateRegistered n d w = (Inl ErrUsernameTaken, w')"
  obtains p k where "w' = w\<lparr>w_pg := p, w_upos := k\<rparr>"
proof -
  have "pg_stmt (insert_user n d False) w = (Inl UniqueViolation, w')"
    using assms
    by (auto simp: UserStore_CreateRegistered_def scanUser_def act_defs
        split: prod.splits sum.splits if_splits elim!: is_unique_violationE)
  then obtain xs where "insert_user n d False (w\<lparr>w_pg := xs\<rparr>) = (Inl UniqueViolation, w')"
    by (cases rule: pg_stmt_cases) auto
  then have "w' = w\<lparr>w_pg := xs, w_upos := Suc (w_upos w)\<rparr>"
    by (auto simp: insert_user_def Let_def split: if_splits)
  then show thesis by (rule that)
qed

lemma PromoteGuest_refused:
  assumes "UserStore_PromoteGuest i n d w = (Inl e, w')" and "e = ErrUsernameTaken \<or> e = ErrUserNotFound"
  obtains p where "w' = w\<lparr>w_pg := p\<rparr>"
proof -
  have "pg_stmt (update_promote i n d) w = (Inl UniqueViolation, w') \<or> pg_stmt (update_promote i n d) w = (Inl NoRows, w')"
    using assms
    by (auto simp: UserStore_PromoteGuest_def scanUser_def act_defs
        split: prod.splits sum.splits if_splits elim!: is_unique_violationE)
  then obtain xs x where "update_promote i n d (w\<lparr>w_pg := xs\<rparr>) = (Inl x, w')"
    by (auto elim: pg_stmt_cases)
  then have "w' = w\<lparr>w_pg := xs\<rparr>"
    by (auto simp: update_promote_def split: option.splits if_splits)
  then show thesis by (rule that)
qed

section \<open>The three handlers\<close>

definition refusal :: "response \<Rightarrow> bool" where
  "refusal resp \<longleftrightarrow> \<not> has_code ''internal_error'' resp \<and> \<not> has_code ''credential_exists'' resp"

lemma refusal_answer [simp]: "refusal (answer s c h) \<longleftrightarrow> c \<noteq> ''internal_error'' \<and> c \<noteq> ''credential_exists''"
  by (simp add: refusal_def)

text \<open>
  A projection of the state that the challenge store and the bookkeeping leave alone is
  unchanged by a refusal.
\<close>

lemma complete_refuses_change:
  fixes env :: "('rd, 'sess, 'pc, 'pa) auth_env" and f :: "'rd world \<Rightarrow> 'x"
  assumes take: "\<And>i. keeps f (ChallengeStore_Take (env_redis env) i)"
    and log: "\<And>w k. f (w\<lparr>w_log := k\<rparr>) = f w" and pg: "\<And>w k. f (w\<lparr>w_pg := k\<rparr>) = f w"
    and upos: "\<And>w k. f (w\<lparr>w_upos := k\<rparr>) = f w"
  shows "refuses refusal f (CompleteRegister env r)" and "refuses refusal f (CompletePromote env r)"
    and "refuses refusal f (CompleteLogin env r)"
proof -
  have takes: "keeps f (takeChallenge env msg i)" for msg i
    unfolding takeChallenge_def by (intro keeps_rules take log)
  have new: "refuses refusal f (catchE (UserStore_CreateRegistered n d) (\<lambda>e.
      if e = ErrUsernameTaken then reject 409 ''username_taken'' else internal msg))" for n d msg
    by (rule refuses_catchE)
       (auto elim!: CreateRegistered_taken simp: pg upos codeMessages_def intro!: exits_internal keeps_responses log)
  have promote: "refuses refusal f (catchE (UserStore_PromoteGuest i n d) (\<lambda>e.
      if e = ErrUsernameTaken then reject 409 ''username_taken''
      else if e = ErrUserNotFound then reject 409 ''not_a_guest'' else internal msg))" for i n d msg
  proof (rule refuses_catchE)
    fix e and w w' :: "'rd world" assume run: "UserStore_PromoteGuest i n d w = (Inl e, w')"
    show "f w' = f w \<and> keeps f (if e = ErrUsernameTaken then reject 409 ''username_taken''
        else if e = ErrUserNotFound then reject 409 ''not_a_guest'' else internal msg)
      \<or> avoids refusal (if e = ErrUsernameTaken then reject 409 ''username_taken''
        else if e = ErrUserNotFound then reject 409 ''not_a_guest'' else internal msg)"
    proof (cases "e = ErrUsernameTaken \<or> e = ErrUserNotFound")
      case True
      with run show ?thesis
        by (auto elim!: PromoteGuest_refused simp: pg intro!: keeps_responses log)
    qed (auto intro!: exits_internal)
  qed
  note ends = exits_ret exits_bindE exits_catchE exits_cases exits_reject exits_internal exits_steps exits_total
  show "refuses refusal f (CompleteRegister env r)"
    unfolding CompleteRegister_def Let_def
    by (rule refuses_last [OF new] refuses_step refuses_cases takes
        refuses_keeps [OF keeps_responses(2)] keeps_fragments log
      | (unfold someOrInternal_def, rule ends)
      | rule ends | (simp add: codeMessages_def; fail))+
  show "refuses refusal f (CompletePromote env r)"
    unfolding CompletePromote_def Let_def
    by (rule refuses_last [OF promote] refuses_step refuses_cases takes
        refuses_keeps [OF keeps_responses(2)] keeps_fragments log
      | (unfold someOrInternal_def orInternal_def, rule ends)
      | rule ends | (simp add: codeMessages_def; fail))+
  have val: "keeps f (catchE (Service_ValidateLogin (env_webauthn env) (resolver (env_webauthn env) p) c d p)
      (\<lambda>_. warnReject m1 401 ''unauthorized''))"
    "keeps f (catchE (Service_ParseCredentialAssertion (env_webauthn env) b)
      (\<lambda>_. warnReject m2 400 ''invalid_request''))" for p c d m1 b m2
    by (intro keeps_rules log pg)+
  have tail: "refuses refusal f (case x of (cred, c) \<Rightarrow> case c of (Some u, Some cr) \<Rightarrow> g cred u cr | _ \<Rightarrow> internal msg)"
    if "\<And>cred u cr. avoids refusal (g cred u cr)" for x g msg
    by (rule refuses_avoids) (auto split: prod.split option.split intro!: that exits_internal)
  show "refuses refusal f (CompleteLogin env r)"
    unfolding CompleteLogin_def
    by (rule tail refuses_step refuses_cases takes val keeps_fragments log
      | (unfold orInternal_def, rule ends)
      | rule ends | (simp add: codeMessages_def; fail))+
qed

text \<open>Both exits of a handler, seen from outside.\<close>

lemma serve_refused:
  assumes "serve h w = (resp, w')" and "refuses P f h" and "P resp" and "resp_Status resp \<noteq> 200"
    and "\<And>w resp w'. h w = (Inr resp, w') \<Longrightarrow> resp_Status resp = 200"
  shows "f w' = f w"
  using assms by (auto simp: serve_def split: prod.splits sum.splits dest: refusesD)

lemma complete_Inr_200:
  assumes "h \<in> complete_handlers env" and "h r w = (Inr resp, w')"
  shows "resp_Status resp = 200"
  using assms by (auto simp: complete_handlers_def elim!: CompleteRegister_on CompletePromote_on CompleteLogin_on)

lemma complete_cookies:
  assumes "h \<in> complete_handlers env" and "serve (h r) w = (resp, w')"
  shows "resp_Cookies resp = w_header w'"
proof -
  have "exits (\<lambda>resp w'. resp_Cookies resp = w_header w') (h r)"
    using assms(1) by (auto simp: complete_handlers_def intro: handlers_exit)
  moreover have "resp_Cookies x = w_header w1" if "h r w = (Inr x, w1)" for x w1
    using assms(1) that
    by (auto simp: complete_handlers_def elim!: CompleteRegister_on CompletePromote_on CompleteLogin_on)
  ultimately show ?thesis
    using assms(2) by (auto simp: serve_def split: prod.splits sum.splits dest: exitsD)
qed

text \<open>
  C19: a \<open>complete\<close> request that is refused changes nothing. If one of the three
  \<open>complete\<close> endpoints answers with an error whose code is neither \<open>internal_error\<close> nor
  \<open>credential_exists\<close> (a malformed request, an unknown or foreign session id, an
  attestation or assertion that does not verify, a username that is taken, a guest that is
  none any more), then the database is as before, every session token resolves as before,
  and the response sets no cookie.
\<close>

theorem refused_complete_changes_nothing:
  fixes env :: "('rd, 'sess, 'pc, 'pa) auth_env"
  assumes stores: "redis_stores (env_redis env) H (env_uuid env)" and h: "h \<in> complete_handlers env"
    and run: "serve (h r) w = (resp, w')" and "resp_Status resp \<noteq> 200"
    and "\<not> has_code ''internal_error'' resp" and "\<not> has_code ''credential_exists'' resp"
  shows "db w' = db w \<and> resp_Cookies resp = w_header w
    \<and> (\<forall>t \<ge> w_now w. session_owner H (env_uuid env) t w' = session_owner H (env_uuid env) t w)"
proof -
  have same: "f w' = f w"
    if "\<And>i. keeps f (ChallengeStore_Take (env_redis env) i)" and "\<And>w k. f (w\<lparr>w_log := k\<rparr>) = f w"
      and "\<And>w k. f (w\<lparr>w_pg := k\<rparr>) = f w" and "\<And>w k. f (w\<lparr>w_upos := k\<rparr>) = f w"
    for f :: "'rd world \<Rightarrow> 'x"
  proof (rule serve_refused [OF run])
    show "refuses refusal f (h r)"
      using h complete_refuses_change [of f env, OF that] by (auto simp: complete_handlers_def)
  qed (use assms complete_Inr_200 [OF h] in \<open>auto simp: refusal_def\<close>)
  have "sess_view H (env_uuid env) w' = sess_view H (env_uuid env) w"
    by (rule same) (simp_all add: redis_stores.keeps_sess_view(1) [OF stores])
  moreover have "db w' = db w"
    by (rule same) (auto intro!: keeps_rules)
  moreover have "w_header w' = w_header w"
    by (rule same) (auto intro!: keeps_rules)
  moreover have "resp_Cookies resp = w_header w'"
    using complete_cookies [OF h run] .
  ultimately show ?thesis by (auto dest: sess_viewD)
qed

theorem refused_complete_changes_nothing_witness:
  "resp_Status (fst (serve (CompletePromote toy_env toy_complete)
       (with_challenge (toy_payload ''alice'' uuid_Nil False) toy_start))) = 401
   \<and> db (snd (serve (CompletePromote toy_env toy_complete)
       (with_challenge (toy_payload ''alice'' uuid_Nil False) toy_start))) = ([], [])"
proof -
  let ?w = "with_challenge (toy_payload ''alice'' uuid_Nil False) toy_start"
  let ?x = "serve (CompletePromote toy_env toy_complete) ?w"
  have run: "resp_Status (fst ?x) = 401" "db ?w = ([], [])"
    and body: "resp_Body (fst ?x) = Some (errorBody ''session_invalid''
      ''Registration session is invalid or has expired. Please start over.'')"
    by code_simp+
  have "CompletePromote toy_env \<in> complete_handlers toy_env" by (simp add: complete_handlers_def)
  from refused_complete_changes_nothing [OF toy_stores this surjective_pairing]
  have "db (snd ?x) = db ?w"
    using run(1) body by (auto simp: has_code_def errorBody_def)
  with run show ?thesis by simp
qed

end
