(* ===== verification/Request_Log.thy ===== *)
theory Request_Log
  imports Handler_Exits
begin

text \<open>
  The log as a trace that only grows. \<open>logged l w\<close>: the log of \<open>w\<close> is \<open>l\<close> followed by lines
  that are not request lines. Every handler keeps this, whatever it answers, so the request
  line that \<open>RequestLogger\<close> adds at the end is the only one of its request and no earlier
  line is lost.
\<close>

definition logged :: "log_entry list \<Rightarrow> 'rd world \<Rightarrow> bool" where
  "logged l w \<longleftrightarrow> (\<exists>more. w_log w = l @ more \<and> ''http request'' \<notin> log_msg ` set more)"

lemma logged_refl: "logged (w_log w) w"
  by (simp add: logged_def)

lemma logged_quiet: "keeps w_log m \<Longrightarrow> holds (logged l) m"
  by (rule specI) (auto simp: logged_def dest: keepsD)

lemma logged_logE: "msg \<noteq> ''http request'' \<Longrightarrow> holds (logged l) (logE lv msg)"
  by (auto simp: spec_def logE_def putE_def logged_def)

section \<open>Parts of the handlers\<close>

text \<open>What does not log at all.\<close>

lemma logged_stores:
  "holds (logged l) (UserStore_GetByUsername n)" "holds (logged l) (UserStore_GetByID i)"
  "holds (logged l) (UserStore_CreateRegistered n d)" "holds (logged l) (UserStore_CreateGuest n d)"
  "holds (logged l) (UserStore_PromoteGuest i n d)" "holds (logged l) (CredentialStore_Insert c)"
  "holds (logged l) (CredentialStore_ListByUserID i)" "holds (logged l) (CredentialStore_SoftDelete i)"
  "holds (logged l) (CredentialStore_UpdateAfterAssertion i k be bs)"
  "holds (logged l) (SessionStore_Create R L ttl i)" "holds (logged l) (SessionStore_Get R L t)"
  "holds (logged l) (SessionStore_Delete R t)" "holds (logged l) (GuestStore_Create R L ttl i)"
  "holds (logged l) (GuestStore_Delete R t)" "holds (logged l) (ChallengeStore_Save R ttl s p)"
  "holds (logged l) (ChallengeStore_Take R s)"
  by (intro logged_quiet keeps_rules; simp)+

lemma logged_parts:
  "holds (logged l) NewUserHandle" "holds (logged l) newSessionID" "holds (logged l) next_call"
  "holds (logged l) (Service_BeginRegistration W u s)" "holds (logged l) (Service_BeginLogin W s)"
  "holds (logged l) (Service_ParseCredentialCreation W b)" "holds (logged l) (Service_CreateCredential W u x p)"
  "holds (logged l) (Service_ParseCredentialAssertion W b)"
  "holds (logged l) (Service_ValidateLogin W (resolver W q) found x q)" "holds (logged l) (resolveGuest env r)"
  "holds (logged l) (setSessionCookie r t a)" "holds (logged l) (setGuestCookie r t a)"
  "holds (logged l) (clearSessionCookie r)" "holds (logged l) (clearGuestCookie r)"
  "holds (logged l) (writeJSON k v)" "holds (logged l) (writeStatus k)" "holds (logged l) (writePage pg)"
  by (intro logged_quiet keeps_rules; simp)+

lemma logged_reject: "holds (logged l) (reject k c)"
  unfolding reject_def writeError_def
  by (rule logged_parts logged_logE holds_bindE spec_option spec_failE | assumption | simp)+

lemma logged_pings: "holds (logged l) pgPing" "holds (logged l) (redisPinger_Ping R)"
  unfolding pgPing_def redisPinger_Ping_def by (intro logged_quiet keeps_rules; simp)+

lemma logged_internal: "msg \<noteq> ''http request'' \<Longrightarrow> holds (logged l) (internal msg)"
  unfolding internal_def by (intro holds_bindE logged_logE logged_reject)

lemmas logged_rules = logged_stores logged_parts logged_reject logged_pings logged_internal logged_logE holds_bindE holds_catchE spec_tryE
  spec_if spec_option spec_sum spec_prod spec_whenE spec_ret spec_failE

lemma logged_fragments:
  "holds (logged l) (decodeBegin r)" "holds (logged l) (decodeComplete r)" "holds (logged l) (requireUser r)"
  "msg \<noteq> ''http request'' \<Longrightarrow> holds (logged l) m \<Longrightarrow> holds (logged l) (orInternal msg m)"
  "msg \<noteq> ''http request'' \<Longrightarrow> holds (logged l) (someOrInternal msg x)"
  "msg \<noteq> ''http request'' \<Longrightarrow> holds (logged l) (takeChallenge env msg s)"
  "msg \<noteq> ''http request'' \<Longrightarrow> holds (logged l) (warnReject msg k c)"
  "m1 \<noteq> ''http request'' \<Longrightarrow> m2 \<noteq> ''http request'' \<Longrightarrow> holds (logged l) (verifyAttestation env m1 m2 u d b)"
  "msg \<noteq> ''http request'' \<Longrightarrow> holds (logged l) (dropGuest env msg r)"
  unfolding fragment_defs dropGuest_def by (rule logged_rules | assumption)+

lemma logged_anomalies: "holds (logged l) (recordCounterAnomalies L old new)"
  unfolding recordCounterAnomalies_def by (rule logged_rules | assumption | simp)+

section \<open>Handlers\<close>

lemmas logged_steps = logged_fragments logged_anomalies logged_rules

lemma logged_begin:
  "holds (logged l) (BeginRegister env r)" "holds (logged l) (BeginLogin env r)"
  "holds (logged l) (BeginPromote env r)" "holds (logged l) (Logout env r)" "holds (logged l) (Guest env r)"
  unfolding BeginRegister_def BeginLogin_def BeginPromote_def Logout_def Guest_def
  by (rule logged_steps | assumption | simp)+

lemma logged_complete:
  "holds (logged l) (CompleteRegister env r)" "holds (logged l) (CompleteLogin env r)"
  "holds (logged l) (CompletePromote env r)"
  unfolding CompleteRegister_def CompleteLogin_def CompletePromote_def Let_def
  by (rule logged_steps | assumption | simp)+

lemma logged_user:
  "holds (logged l) (Me L r)" "holds (logged l) (ListCredentials L T r)" "holds (logged l) (DeleteCredential L r)"
  unfolding Me_def ListCredentials_def DeleteCredential_def by (rule logged_steps | assumption | simp)+

lemma logged_RequireSession:
  "(\<And>r. holds (logged l) (h r)) \<Longrightarrow> holds (logged l) (RequireSession R L h r)"
  unfolding RequireSession_def writeUnauthorized_def writeInternalError_def
  by (assumption | rule logged_steps | simp)+

lemma logged_health: "holds (logged l) (Live r)" "holds (logged l) (Ready (newHealth R) r)"
  unfolding Live_def Ready_def newHealth_def probe_def pingStatusOf_def Let_def health_deps.select_convs option.case
  by (rule logged_steps | assumption)+

lemma logged_endpoint: "holds (logged l) (endpoint_handler s e r)"
  by (cases e)
     (simp_all add: requireSession_def logged_begin logged_complete logged_user logged_RequireSession logged_health
        logged_parts)

lemma logged_dispatch: "holds (logged l) (dispatch s r)"
  unfolding dispatch_def Let_def requireSession_def
  by (intro spec_option spec_prod spec_if spec_ret logged_RequireSession logged_endpoint)

lemma serve_logged: "logged (w_log w) (snd (serve (dispatch s r) w))"
  using holds_snd [OF logged_dispatch logged_refl, of w s r] by (auto simp: serve_def split: prod.splits sum.splits)

end
