(* ===== verification/Service_Properties.thy ===== *)
theory Service_Properties
  imports Account_Properties Guest_Properties Refusal_Properties Request_Log
begin

text \<open>
  Properties of the service as a whole, over the router and its state machine: what holds
  in every state that requests can reach, what every response looks like, what is logged.
\<close>

section \<open>Reachable states\<close>

text \<open>The state before the first request: empty tables, nothing in Redis.\<close>

definition pristine :: "(time \<Rightarrow> 'rd \<Rightarrow> string \<Rightarrow> rval option) \<Rightarrow> 'rd world \<Rightarrow> bool" where
  "pristine H w \<longleftrightarrow> w_users w = [] \<and> w_creds w = [] \<and> (\<forall>t k. H t (w_rd w) k = None)"

lemma pristine_ok: "pristine H w \<Longrightarrow> service_ok H L w"
  by (simp add: pristine_def service_ok_def db_ok_def schema_ok_def users_ok_def creds_ok_def
      owners_registered_def tokens_ok_def session_owner_def guest_owner_def token_owner_def)

text \<open>
  In every state that the service can reach from empty stores, by any sequence of
  requests to any endpoint, with time passing and PostgreSQL failing in any way: the
  constraints of the schema hold; every passkey, deleted or not, belongs to a registered
  user; every session token that resolves now or would resolve later belongs to a
  registered user; every guest token belongs to a user that exists.
\<close>

lemma service_reachable_ok:
  assumes stores: "redis_stores (env_redis (srv_auth s)) H (env_uuid (srv_auth s))"
    and "pristine H w0" and "reachable s w0 w"
  shows "schema_ok w \<and> (\<forall>row \<in> set (w_creds w). registered w (user_id row))
    \<and> (\<forall>t tok u. w_now w \<le> t \<longrightarrow> session_owner H (env_uuid (srv_auth s)) t w tok = Some u \<longrightarrow> registered w u)
    \<and> (\<forall>t tok u. w_now w \<le> t \<longrightarrow> guest_owner H (env_uuid (srv_auth s)) t w tok = Some u \<longrightarrow> known w u)"
  using redis_stores.service_reachable [OF stores assms(3) refl refl pristine_ok [OF assms(2)]]
  by (simp add: service_ok_def db_ok_def owners_registered_def tokens_ok_def)

definition toy_run :: "rserver world" where
  "toy_run = snd (serve_request toy_server ((request_with JNull)\<lparr>req_Path := ''/api/v1/auth/guest''\<rparr>) toy_start)"

lemma service_reachable_ok_example:
  "w_users toy_run \<noteq> [] \<and> schema_ok toy_run"
proof -
  have "pristine rs_holds_at toy_start"
    by (simp add: pristine_def toy_start_def rs_holds_at_def empty_server_def)
  moreover have "reachable toy_server toy_start toy_run"
    unfolding toy_run_def by (intro reachable.step [OF reachable.start] service_step.request)
  ultimately have "schema_ok toy_run"
    using service_reachable_ok [OF toy_server_stores] by blast
  moreover have "length (w_users toy_run) = 1" by code_simp
  ultimately show ?thesis by auto
qed

section \<open>Begin requests\<close>

text \<open>
  An abandoned ceremony leaves no trace in the database. None of the three \<open>begin\<close>
  endpoints, whatever it answers, adds or changes a row.
\<close>

lemma begin_leaves_no_row:
  "db (snd (serve (BeginRegister env r) w)) = db w \<and> db (snd (serve (BeginLogin env r) w)) = db w
   \<and> db (snd (serve (BeginPromote env r) w)) = db w"
proof -
  have "keeps db (BeginRegister env r)" "keeps db (BeginLogin env r)" "keeps db (BeginPromote env r)"
    by (intro keeps_rules; simp)+
  then show ?thesis by (simp add: keeps_serve)
qed

section \<open>The request log\<close>

text \<open>
  C32: a request that is not a health check adds exactly one request line to the log, as the
  last line. What was logged before stays; in between there are only lines of the handlers,
  none of them a request line. The level of the request line is error for a status from 500,
  warning from 400, information below; it carries method, path and status of the request and
  its response, the size, the duration, the address and the request id. It never names the
  user, whether or not the request had a session: the session middleware passes the user id
  to the inner handler only, in a request of its own, which the logger does not see.
\<close>

theorem request_logged_without_user:
  assumes "ctx_user (chi_RealIP (srv_chi s) (chi_RequestID (srv_chi s) (r\<lparr>ctx_user := None\<rparr>))) = None"
    and seen: "seen = chi_RealIP (srv_chi s) (chi_RequestID (srv_chi s) (r\<lparr>ctx_user := None\<rparr>))"
    and "req_Path seen \<notin> {''/health'', ''/health/ready''}"
    and "serve_request s r w = (resp, w')"
  shows "\<exists>more line. w_log w' = w_log w @ more @ [line]
    \<and> ''http request'' \<notin> log_msg ` set more \<and> log_msg line = ''http request''
    \<and> (500 \<le> resp_Status resp \<longrightarrow> log_level line = LevelError)
    \<and> (400 \<le> resp_Status resp \<and> resp_Status resp < 500 \<longrightarrow> log_level line = LevelWarn)
    \<and> (resp_Status resp < 400 \<longrightarrow> log_level line = LevelInfo)
    \<and> map fst (log_attrs line)
        = [''method'', ''path'', ''status'', ''bytes'', ''duration_ms'', ''remote_ip'', ''request_id'']
    \<and> map_of (log_attrs line) ''method'' = Some (AStr (req_Method seen))
    \<and> map_of (log_attrs line) ''path'' = Some (AStr (req_Path seen))
    \<and> map_of (log_attrs line) ''status'' = Some (AInt (int (resp_Status resp)))
    \<and> map_of (log_attrs line) ''user_id'' = None"
proof -
  obtain resp1 w1 where inner: "serve (dispatch s seen) (w\<lparr>w_header := []\<rparr>) = (resp1, w1)"
    by (cases "serve (dispatch s seen) (w\<lparr>w_header := []\<rparr>)")
  let ?line = "\<lparr>log_level = requestLevel (resp_Status resp1), log_msg = ''http request'',
      log_attrs = toAttrs (requestAttrs (chi_log.truncate (srv_chi s)) (env_uuid (srv_auth s)) seen resp1
        (w_now w1 - w_now w))\<rparr>"
  have "New s (r\<lparr>ctx_user := None\<rparr>) (w\<lparr>w_header := []\<rparr>) = (Inr resp1, w1\<lparr>w_log := w_log w1 @ [?line]\<rparr>)"
    using assms(3) inner by (simp add: New_def RequestLogger_def skipLogging_def flip: seen)
  then have run: "resp = resp1" "w_log w' = w_log w1 @ [?line]"
    using assms(4) by (auto simp: serve_request_def serve_def)
  obtain more where "w_log w1 = w_log w @ more" "''http request'' \<notin> log_msg ` set more"
    using serve_logged [of "w\<lparr>w_header := []\<rparr>" s seen] inner by (auto simp: logged_def)
  then show ?thesis
    using assms(1) run
    by (intro exI [of _ more] exI [of _ ?line])
       (simp add: requestAttrs_def UserIDFromContext_def requestLevel_def flip: seen)
qed

text \<open>A second guest after the first: the line of the first request stays.\<close>

theorem request_logged_without_user_witness:
  "length (w_log toy_run) = 1
   \<and> (\<exists>more line. w_log (snd (serve_request toy_server ((request_with JNull)\<lparr>req_Path := ''/api/v1/auth/guest''\<rparr>) toy_run))
       = w_log toy_run @ more @ [line] \<and> ''http request'' \<notin> log_msg ` set more
       \<and> log_level line = LevelInfo \<and> map_of (log_attrs line) ''user_id'' = None)"
proof -
  let ?r = "(request_with JNull)\<lparr>req_Path := ''/api/v1/auth/guest''\<rparr>"
  let ?seen = "chi_RealIP (srv_chi toy_server) (chi_RequestID (srv_chi toy_server) (?r\<lparr>ctx_user := None\<rparr>))"
  have env: "ctx_user ?seen = None" "req_Path ?seen \<notin> {''/health'', ''/health/ready''}"
    by code_simp+
  have "resp_Status (fst (serve_request toy_server ?r toy_run)) = 200" "length (w_log toy_run) = 1"
    by code_simp+
  then show ?thesis
    using request_logged_without_user [OF env(1) refl env(2) surjective_pairing, of toy_run] by auto
qed

end
