(* ===== verification/Go_Stdlib.thy ===== *)
theory Go_Stdlib
  imports Prelude "HOL-Library.Sublist"
begin

text \<open>
  What the start-up code uses of Go's standard library, on strings as sequences of bytes:
  \<open>strings.Split\<close> and \<open>strings.TrimSpace\<close>; \<open>time.ParseDuration\<close> with its \<open>uint64\<close>
  arithmetic, written out modulo \<open>2 ^ 64\<close>, and its \<open>float64\<close> step for fractions, written
  out as rounding to 53 significant bits; \<open>Duration.Seconds\<close>.

  Shown: splitting inverts joining, trimming is idempotent, \<open>ParseDuration\<close> adds up its
  components and never returns a value outside \<open>int64\<close>.
\<close>

section \<open>strings.Split\<close>

text \<open>
  The number of bytes that \<open>utf8.DecodeRuneInString\<close> takes from the front of a string: the
  length of a well-formed sequence, or one byte.
\<close>

definition byte_in :: "nat \<Rightarrow> nat \<Rightarrow> char \<Rightarrow> bool" where
  "byte_in lo hi c \<longleftrightarrow> lo \<le> of_char c \<and> of_char c \<le> hi"

definition continuation :: "char \<Rightarrow> bool" where
  "continuation = byte_in 0x80 0xBF"

fun rune_size :: "string \<Rightarrow> nat" where
  "rune_size (a # b # c # d # s) =
     (if byte_in 0xF0 0xF4 a \<and> byte_in (if of_char a = (0xF0 :: nat) then 0x90 else 0x80)
          (if of_char a = (0xF4 :: nat) then 0x8F else 0xBF) b \<and> continuation c \<and> continuation d then 4
      else rune_size [a, b, c])"
| "rune_size [a, b, c] =
     (if byte_in 0xE0 0xEF a \<and> byte_in (if of_char a = (0xE0 :: nat) then 0xA0 else 0x80)
          (if of_char a = (0xED :: nat) then 0x9F else 0xBF) b \<and> continuation c then 3
      else rune_size [a, b])"
| "rune_size [a, b] = (if byte_in 0xC2 0xDF a \<and> continuation b then 2 else 1)"
| "rune_size s = 1"

lemma rune_size_pos: "0 < rune_size s"
  by (induction s rule: rune_size.induct) auto

text \<open>With an empty separator the string is cut into its characters.\<close>

function explode :: "string \<Rightarrow> string list" where
  "explode s = (if s = [] then [] else take (rune_size s) s # explode (drop (rune_size s) s))"
  by auto
termination
  by (relation "measure length") (auto simp: rune_size_pos)

declare explode.simps [simp del]

text \<open>\<open>genSplit\<close>, with the piece read so far in reverse.\<close>

function split_on :: "string \<Rightarrow> string \<Rightarrow> string \<Rightarrow> string list" where
  "split_on sep acc [] = [rev acc]"
| "split_on sep acc (c # s) =
     (if sep \<noteq> [] \<and> prefix sep (c # s) then rev acc # split_on sep [] (drop (length sep) (c # s))
      else split_on sep (c # acc) s)"
  by pat_completeness auto
termination
  by (relation "measure (\<lambda>(sep, acc, s). length s)") (auto simp: less_Suc_eq_le neq_Nil_conv)

definition Split :: "string \<Rightarrow> string \<Rightarrow> string list" where
  "Split s sep = (if sep = [] then explode s else split_on sep [] s)"

text \<open>\<open>strings.Join\<close>, the inverse.\<close>

fun Join :: "string list \<Rightarrow> string \<Rightarrow> string" where
  "Join [] sep = []"
| "Join [p] sep = p"
| "Join (p # q # ps) sep = p @ sep @ Join (q # ps) sep"

lemma split_on_single:
  "c \<notin> set p \<Longrightarrow> split_on [c] acc p = [rev acc @ p]"
  "c \<notin> set p \<Longrightarrow> split_on [c] acc (p @ c # s) = (rev acc @ p) # split_on [c] [] s"
  by (induction p arbitrary: acc) auto

lemma Split_Join:
  "ps \<noteq> [] \<Longrightarrow> (\<And>p. p \<in> set ps \<Longrightarrow> c \<notin> set p) \<Longrightarrow> Split (Join ps [c]) [c] = ps"
  unfolding Split_def
  by (induction ps "[c]" rule: Join.induct) (auto simp: split_on_single)

section \<open>strings.TrimSpace\<close>

text \<open>
  The characters with \<open>unicode.IsSpace\<close>, as the bytes of their UTF-8 encoding. A string
  begins (ends) with such a character exactly if it begins (ends) with these bytes.
\<close>

definition space_encodings :: "string list" where
  "space_encodings =
     [[CHR 0x09], [CHR 0x0A], [CHR 0x0B], [CHR 0x0C], [CHR 0x0D], [CHR 0x20],
      [CHR 0xC2, CHR 0x85], [CHR 0xC2, CHR 0xA0], [CHR 0xE1, CHR 0x9A, CHR 0x80],
      [CHR 0xE2, CHR 0x80, CHR 0x80], [CHR 0xE2, CHR 0x80, CHR 0x81], [CHR 0xE2, CHR 0x80, CHR 0x82],
      [CHR 0xE2, CHR 0x80, CHR 0x83], [CHR 0xE2, CHR 0x80, CHR 0x84], [CHR 0xE2, CHR 0x80, CHR 0x85],
      [CHR 0xE2, CHR 0x80, CHR 0x86], [CHR 0xE2, CHR 0x80, CHR 0x87], [CHR 0xE2, CHR 0x80, CHR 0x88],
      [CHR 0xE2, CHR 0x80, CHR 0x89], [CHR 0xE2, CHR 0x80, CHR 0x8A], [CHR 0xE2, CHR 0x80, CHR 0xA8],
      [CHR 0xE2, CHR 0x80, CHR 0xA9], [CHR 0xE2, CHR 0x80, CHR 0xAF], [CHR 0xE2, CHR 0x81, CHR 0x9F],
      [CHR 0xE3, CHR 0x80, CHR 0x80]]"

function strip :: "string list \<Rightarrow> string \<Rightarrow> string" where
  "strip E s = (case find (\<lambda>e. e \<noteq> [] \<and> prefix e s) E of
      None \<Rightarrow> s | Some e \<Rightarrow> strip E (drop (length e) s))"
  by auto
termination
  by (relation "measure (\<lambda>(E, s). length s)")
     (auto dest!: find_SomeD simp: prefix_def)

declare strip.simps [simp del]

definition TrimSpace :: "string \<Rightarrow> string" where
  "TrimSpace s = rev (strip (map rev space_encodings) (rev (strip space_encodings s)))"

lemma strip_stop: "find (\<lambda>e. e \<noteq> [] \<and> prefix e (strip E s)) E = None"
proof (induction E s rule: strip.induct)
  case (1 E s)
  then show ?case
    by (subst strip.simps) (auto split: option.split)
qed

lemma strip_suffix: "suffix (strip E s) s"
proof (induction E s rule: strip.induct)
  case (1 E s)
  then show ?case
    by (subst strip.simps) (auto split: option.split intro: suffix_order.trans suffix_drop)
qed

lemma strip_id: "find (\<lambda>e. e \<noteq> [] \<and> prefix e s) E = None \<Longrightarrow> strip E s = s"
  by (simp add: strip.simps)

lemma strip_idem: "strip E (strip E s) = strip E s"
  by (rule strip_id [OF strip_stop])

text \<open>Trimming on the right does not uncover a space on the left.\<close>

lemma TrimSpace_idem: "TrimSpace (TrimSpace s) = TrimSpace s"
proof -
  let ?l = "strip space_encodings s"
  have "prefix (TrimSpace s) ?l"
    using strip_suffix [of "map rev space_encodings" "rev ?l"]
    by (simp add: TrimSpace_def suffix_to_prefix)
  then have "find (\<lambda>e. e \<noteq> [] \<and> prefix e (TrimSpace s)) space_encodings = None"
    using strip_stop [of space_encodings s] by (auto simp: find_None_iff intro: prefix_order.trans)
  then have "strip space_encodings (TrimSpace s) = TrimSpace s"
    by (rule strip_id)
  then show ?thesis
    by (simp add: TrimSpace_def strip_idem)
qed

section \<open>float64\<close>

text \<open>
  The \<open>float64\<close> nearest to the quotient \<open>a / b\<close> of two positive numbers, ties to even, as
  a pair of numerator and denominator. All values here lie far inside the range of normal
  numbers, so that rounding keeps 53 significant bits.
\<close>

definition nearest_even :: "nat \<Rightarrow> nat \<Rightarrow> nat" where
  "nearest_even a b =
     (let q = a div b; r = a mod b in if 2 * r < b \<or> (2 * r = b \<and> even q) then q else Suc q)"

function float64 :: "nat \<Rightarrow> nat \<Rightarrow> nat \<times> nat" where
  "float64 a b =
     (if a = 0 \<or> b = 0 then (0, 1)
      else if a < 2 ^ 52 * b then case float64 (2 * a) b of (n, d) \<Rightarrow> (n, 2 * d)
      else if 2 ^ 53 * b \<le> a then case float64 a (2 * b) of (n, d) \<Rightarrow> (2 * n, d)
      else (nearest_even a b, 1))"
  by auto
termination
  by (relation "measure (\<lambda>(a, b). (2 ^ 52 * b - a) + (a + 1 - 2 ^ 53 * b))") auto

declare float64.simps [simp del]

text \<open>A whole number below \<open>2 ^ 53\<close> is represented exactly.\<close>

lemma float64_exact:
  assumes "b dvd a" and "0 < b" and "a < 2 ^ 53 * b"
  shows "fst (float64 a b) * b = a * snd (float64 a b) \<and> 0 < snd (float64 a b)"
  using assms
proof (induction a b rule: float64.induct)
  case (1 a b)
  show ?case
  proof (cases "a = 0")
    case False
    note a = this
    show ?thesis
    proof (cases "a < 2 ^ 52 * b")
      case True
      then have "fst (float64 (2 * a) b) * b = 2 * a * snd (float64 (2 * a) b) \<and> 0 < snd (float64 (2 * a) b)"
        using 1 a by (auto simp: dvd_mult)
      with True a show ?thesis
        using "1.prems" by (subst (1 2 3) float64.simps) (simp add: case_prod_beta)
    next
      case far: False
      with a "1.prems" show ?thesis
        by (subst (1 2 3) float64.simps) (simp add: nearest_even_def)
    qed
  qed (simp add: float64.simps)
qed

section \<open>time.ParseDuration\<close>

definition digit :: "char \<Rightarrow> bool" where
  "digit = byte_in 48 57"

definition digit_value :: "char \<Rightarrow> nat" where
  "digit_value c = of_char c - 48"

text \<open>\<open>leadingInt\<close>; \<open>None\<close> is its overflow error.\<close>

fun leadingInt :: "nat \<Rightarrow> string \<Rightarrow> (nat \<times> string) option" where
  "leadingInt x [] = Some (x, [])"
| "leadingInt x (c # s) =
     (if \<not> digit c then Some (x, c # s)
      else if 2 ^ 63 div 10 < x then None
      else let y = (x * 10 + digit_value c) mod 2 ^ 64 in if 2 ^ 63 < y then None else leadingInt y s)"

text \<open>
  \<open>leadingFraction\<close>: the digits, as far as they fit, and the power of ten by which they are
  to be divided; at most nineteen factors of ten, whose product is exact in \<open>float64\<close>.
\<close>

fun leadingFraction :: "nat \<Rightarrow> nat \<Rightarrow> bool \<Rightarrow> string \<Rightarrow> nat \<times> nat \<times> string" where
  "leadingFraction x scale overflow [] = (x, scale, [])"
| "leadingFraction x scale overflow (c # s) =
     (if \<not> digit c then (x, scale, c # s)
      else if overflow \<or> (2 ^ 63 - 1) div 10 < x then leadingFraction x scale True s
      else let y = (x * 10 + digit_value c) mod 2 ^ 64 in
        if 2 ^ 63 < y then leadingFraction x scale True s
        else leadingFraction y (scale * 10) False s)"

definition unitMap :: "string \<Rightarrow> nat option" where
  "unitMap = map_of
     [(''ns'', 1), (''us'', 1000), ([CHR 0xC2, CHR 0xB5, CHR ''s''], 1000),
      ([CHR 0xCE, CHR 0xBC, CHR ''s''], 1000), (''ms'', 1000000), (''s'', 1000000000),
      (''m'', 60000000000), (''h'', 3600000000000)]"

text \<open>\<open>uint64(float64(f) * (float64(unit) / scale))\<close>.\<close>

definition fraction_ns :: "nat \<Rightarrow> nat \<Rightarrow> nat \<Rightarrow> nat" where
  "fraction_ns f unit scale =
     (case float64 f 1 of (fn, fd) \<Rightarrow> case float64 unit scale of (un, ud) \<Rightarrow>
      case float64 (fn * un) (fd * ud) of (n, d) \<Rightarrow> (n div d) mod 2 ^ 64)"

datatype duration_error = InvalidDuration | MissingUnit | UnknownUnit

definition number_char :: "char \<Rightarrow> bool" where
  "number_char c \<longleftrightarrow> c = CHR ''.'' \<or> digit c"

text \<open>One round of the loop: a number, perhaps with a fraction, and its unit.\<close>

definition parse_component :: "string \<Rightarrow> duration_error + nat \<times> string" where
  "parse_component s =
     (if \<not> (s \<noteq> [] \<and> number_char (hd s)) then Inl InvalidDuration
      else case leadingInt 0 s of None \<Rightarrow> Inl InvalidDuration | Some (v, s1) \<Rightarrow>
      let pre = (length s \<noteq> length s1);
          (f, scale, s2, post) =
            (if s1 \<noteq> [] \<and> hd s1 = CHR ''.'' then
               (case leadingFraction 0 1 False (tl s1) of (f, scale, s2) \<Rightarrow>
                  (f, scale, s2, length (tl s1) \<noteq> length s2))
             else (0, 1, s1, False));
          u = takeWhile (\<lambda>c. \<not> number_char c) s2;
          rest = dropWhile (\<lambda>c. \<not> number_char c) s2
      in if \<not> pre \<and> \<not> post then Inl InvalidDuration
         else if u = [] then Inl MissingUnit
         else case unitMap u of None \<Rightarrow> Inl UnknownUnit | Some unit \<Rightarrow>
           if 2 ^ 63 div unit < v then Inl InvalidDuration
           else let v1 = (v * unit) mod 2 ^ 64 in
             if 0 < f then
               let v2 = (v1 + fraction_ns f unit scale) mod 2 ^ 64 in
               if 2 ^ 63 < v2 then Inl InvalidDuration else Inr (v2, rest)
             else Inr (v1, rest))"

lemma leadingInt_length: "leadingInt x s = Some (v, r) \<Longrightarrow> length r \<le> length s"
  by (induction x s rule: leadingInt.induct) (auto simp: Let_def split: if_splits)

lemma leadingFraction_length: "leadingFraction x sc ov s = (f, sc', r) \<Longrightarrow> length r \<le> length s"
  by (induction x sc ov s rule: leadingFraction.induct) (auto simp: Let_def split: if_splits)

lemma dropWhile_shorter: "takeWhile p s \<noteq> [] \<Longrightarrow> length (dropWhile p s) < length s"
  by (cases s) (auto simp: less_Suc_eq_le length_dropWhile_le split: if_splits)

lemma parse_component_shorter:
  assumes "parse_component s = Inr (v, rest)"
  shows "length rest < length s"
proof -
  obtain v0 s1 where s1: "leadingInt 0 s = Some (v0, s1)"
    using assms by (auto simp: parse_component_def split: if_splits option.splits)
  obtain f scale s2 where s2: "leadingFraction 0 1 False (tl s1) = (f, scale, s2)"
    by (cases "leadingFraction 0 1 False (tl s1)")
  have "length s1 \<le> length s" "length s2 \<le> length s1"
    using leadingInt_length [OF s1] leadingFraction_length [OF s2] by simp_all
  then show ?thesis
    using assms s1 s2 dropWhile_shorter [of "\<lambda>c. \<not> number_char c" s1] dropWhile_shorter [of "\<lambda>c. \<not> number_char c" s2]
    by (auto simp: parse_component_def Let_def split: if_splits option.splits)
qed

function parse_components :: "nat \<Rightarrow> string \<Rightarrow> duration_error + nat" where
  "parse_components d s =
     (if s = [] then Inr d
      else case parse_component s of Inl e \<Rightarrow> Inl e
        | Inr (v, rest) \<Rightarrow> let d1 = (d + v) mod 2 ^ 64 in
            if 2 ^ 63 < d1 then Inl InvalidDuration else parse_components d1 rest)"
  by auto
termination
  by (relation "measure (\<lambda>(d, s). length s)") (auto dest: parse_component_shorter)

declare parse_components.simps [simp del]

definition ParseDuration :: "string \<Rightarrow> duration_error + duration" where
  "ParseDuration orig =
     (let (neg, s) = (case orig of [] \<Rightarrow> (False, [])
            | c # r \<Rightarrow> if c = CHR ''-'' \<or> c = CHR ''+'' then (c = CHR ''-'', r) else (False, orig))
      in if s = ''0'' then Inr 0
         else if s = [] then Inl InvalidDuration
         else case parse_components 0 s of Inl e \<Rightarrow> Inl e
           | Inr d \<Rightarrow> if neg then Inr (- int d)
               else if 2 ^ 63 - 1 < d then Inl InvalidDuration else Inr (int d))"

text \<open>\<open>Duration.Seconds\<close> and the conversion to \<open>int\<close>, for durations that are not negative.\<close>

definition Seconds_int :: "duration \<Rightarrow> int" where
  "Seconds_int d =
     (let sec = nat (d div 1000000000); nsec = nat (d mod 1000000000) in
      case float64 nsec 1000000000 of (fn, fd) \<Rightarrow>
      case float64 (sec * fd + fn) fd of (n, m) \<Rightarrow> int (n div m))"

section \<open>What ParseDuration computes\<close>

text \<open>The number that a string of digits denotes, after the digits of \<open>x\<close>.\<close>

definition decimal_after :: "nat \<Rightarrow> string \<Rightarrow> nat" where
  "decimal_after = foldl (\<lambda>x c. x * 10 + digit_value c)"

lemma decimal_after_simps [simp]:
  "decimal_after x [] = x"
  "decimal_after x (c # s) = decimal_after (x * 10 + digit_value c) s"
  by (simp_all add: decimal_after_def)

lemma decimal_after_le: "x \<le> decimal_after x s"
proof (induction s arbitrary: x)
  case (Cons c s)
  have "x \<le> x * 10 + digit_value c" by simp
  also have "\<dots> \<le> decimal_after (x * 10 + digit_value c) s" by (rule Cons.IH)
  finally show ?case by simp
qed simp

text \<open>A digit string whose number fits is read as that number.\<close>

lemma leadingInt_digits:
  assumes "\<forall>c \<in> set ds. digit c" and "r = [] \<or> \<not> digit (hd r)" and "decimal_after x ds \<le> 2 ^ 63"
  shows "leadingInt x (ds @ r) = Some (decimal_after x ds, r)"
  using assms
proof (induction ds arbitrary: x)
  case Nil
  then show ?case by (cases r) auto
next
  case (Cons c ds)
  let ?y = "x * 10 + digit_value c"
  have y: "?y \<le> 2 ^ 63"
    using decimal_after_le [of ?y ds] Cons.prems(3) by simp
  then have "\<not> 2 ^ 63 div 10 < x" and "?y mod 2 ^ 64 = ?y"
    by auto
  then show ?case
    using Cons.IH [of ?y] Cons.prems y by (simp add: Let_def)
qed

lemma unitMap_Some:
  assumes "unitMap u = Some n"
  shows "0 < n" and "u \<noteq> []" and "\<forall>c \<in> set u. \<not> number_char c"
  using assms
  by (auto simp: unitMap_def number_char_def digit_def byte_in_def split: if_splits)

text \<open>
  A duration is written as components, each a digit string and a unit; its value is the sum
  of their values.
\<close>

definition component_ok :: "string \<times> string \<Rightarrow> bool" where
  "component_ok c \<longleftrightarrow> fst c \<noteq> [] \<and> (\<forall>x \<in> set (fst c). digit x) \<and> unitMap (snd c) \<noteq> None"

definition component_value :: "string \<times> string \<Rightarrow> nat" where
  "component_value c = decimal_after 0 (fst c) * the (unitMap (snd c))"

definition component_text :: "string \<times> string \<Rightarrow> string" where
  "component_text c = fst c @ snd c"

lemma component_text_hd: "component_ok c \<Longrightarrow> component_text c \<noteq> [] \<and> digit (hd (component_text c))"
  by (cases "fst c") (auto simp: component_ok_def component_text_def)

lemma parse_component_text:
  assumes "component_ok c" and "component_value c \<le> 2 ^ 63" and "r = [] \<or> number_char (hd r)"
  shows "parse_component (component_text c @ r) = Inr (component_value c, r)"
proof -
  obtain ds u where c: "c = (ds, u)" by (cases c)
  obtain n where n: "unitMap u = Some n"
    using assms(1) by (auto simp: component_ok_def c)
  note u = unitMap_Some [OF n]
  have ds: "ds \<noteq> []" "\<forall>x \<in> set ds. digit x"
    using assms(1) by (auto simp: component_ok_def c)
  have prod: "decimal_after 0 ds * n \<le> 2 ^ 63"
    using assms(2) by (simp add: component_value_def c n)
  then have fits: "decimal_after 0 ds \<le> 2 ^ 63 div n"
    using u(1) by (simp add: less_eq_div_iff_mult_less_eq)
  then have "decimal_after 0 ds \<le> 2 ^ 63"
    by (meson div_le_dividend order_trans)
  moreover have "\<not> digit (hd (u @ r))" "hd (u @ r) \<noteq> CHR ''.''"
    using u(2,3) by (cases u; auto simp: number_char_def)+
  ultimately have int: "leadingInt 0 (ds @ u @ r) = Some (decimal_after 0 ds, u @ r)"
    and "hd (u @ r) \<noteq> CHR ''.''"
    using ds leadingInt_digits [of ds "u @ r" 0] by auto
  moreover have "takeWhile (\<lambda>x. \<not> number_char x) (u @ r) = u" "dropWhile (\<lambda>x. \<not> number_char x) (u @ r) = r"
    using u(3) assms(3) by (cases r; auto)+
  moreover have "number_char (hd (ds @ u @ r))"
    using ds by (cases ds) (auto simp: number_char_def)
  ultimately show ?thesis
    using ds(1) u fits n prod
    by (simp add: parse_component_def component_text_def component_value_def c Let_def)
qed

lemma parse_components_sum:
  assumes "\<forall>c \<in> set cs. component_ok c" and "d + sum_list (map component_value cs) \<le> 2 ^ 63"
  shows "parse_components d (concat (map component_text cs)) = Inr (d + sum_list (map component_value cs))"
  using assms
proof (induction cs arbitrary: d)
  case Nil
  then show ?case by (simp add: parse_components.simps)
next
  case (Cons c cs)
  let ?r = "concat (map component_text cs)"
  have "?r = [] \<or> number_char (hd ?r)"
    using Cons.prems(1) by (cases cs) (auto simp: number_char_def dest: component_text_hd)
  then have "parse_component (component_text c @ ?r) = Inr (component_value c, ?r)"
    using Cons.prems by (intro parse_component_text) auto
  moreover have "component_text c \<noteq> []"
    using Cons.prems(1) component_text_hd by simp
  moreover have "(d + component_value c) mod 2 ^ 64 = d + component_value c"
    using Cons.prems(2) by simp
  ultimately show ?case
    using Cons.IH [of "d + component_value c"] Cons.prems
    by (subst parse_components.simps) (simp add: Let_def add.assoc)
qed

text \<open>The result is always an \<open>int64\<close>.\<close>

lemma parse_components_bound: "parse_components d s = Inr n \<Longrightarrow> d \<le> 2 ^ 63 \<Longrightarrow> n \<le> 2 ^ 63"
proof (induction d s rule: parse_components.induct)
  case (1 d s)
  show ?case
    using "1.prems" "1.IH" [OF _ _ refl refl]
    by (subst (asm) parse_components.simps) (auto simp: Let_def split: if_splits sum.splits)
qed

lemma ParseDuration_range:
  assumes "ParseDuration s = Inr d"
  shows "- (2 ^ 63) \<le> d \<and> d < 2 ^ 63"
proof -
  have "n \<le> 2 ^ 63" if "parse_components 0 t = Inr n" for t n
    using parse_components_bound [OF that] by simp
  then show ?thesis
    using assms by (auto simp: ParseDuration_def Let_def split: if_splits sum.splits list.splits prod.splits)
qed

section \<open>Whole seconds\<close>

lemma Seconds_int_whole:
  assumes "0 \<le> s" and "s < 2 ^ 53"
  shows "Seconds_int (s * 1000000000) = s"
proof -
  let ?x = "float64 (nat s) 1"
  have "fst ?x * 1 = nat s * snd ?x \<and> 0 < snd ?x"
    using assms by (intro float64_exact) auto
  then have "int (fst ?x div snd ?x) = s"
    using assms by simp
  moreover have "float64 0 1000000000 = (0, 1)"
    by (simp add: float64.simps)
  ultimately show ?thesis
    by (simp add: Seconds_int_def case_prod_beta)
qed

end
