(* ===== verification/Config.thy ===== *)
theory Config
  imports Go_Stdlib
begin

text \<open>
  \<open>internal/config/config.go\<close>: the configuration is read from the environment and checked
  before the server uses it. The process environment is a map; \<open>godotenv.Load\<close>, which may
  add variables from a \<open>.env\<close> file and whose error is ignored, is a parameter, a function
  from environments to environments.

  Shown: a configuration that is accepted has every field set, a non-empty list of non-empty
  trimmed origins and positive times to live that fit an \<open>int64\<close>; one that is refused is
  refused with the error of its first defect; variables of the real environment win over the
  file; a duration is the sum of its components.
\<close>

section \<open>Types\<close>

datatype config_error =
    ErrMissingHTTPAddr
  | ErrMissingDatabaseURL
  | ErrMissingRedisURL
  | ErrMissingRPID
  | ErrMissingRPDisplayName
  | ErrMissingRPOrigins
  | ErrInvalidSessionTTL
  | ErrInvalidChallengeTTL
  | ErrInvalidGuestTTL

text \<open>What \<open>Load\<close> returns: a sentinel, or one wrapped together with the offending text.\<close>

datatype load_error = Sentinel config_error | Quoted config_error string

fun sentinel_of :: "load_error \<Rightarrow> config_error" where
  "sentinel_of (Sentinel e) = e"
| "sentinel_of (Quoted e raw) = e"

record Config =
  HTTPAddr :: string
  DatabaseURL :: string
  RedisURL :: string
  RPID :: string
  RPDisplayName :: string
  RPOrigins :: "string list"
  SessionTTL :: duration
  ChallengeTTL :: duration
  GuestTTL :: duration

type_synonym environ = "string \<Rightarrow> string option"

text \<open>\<open>os.Getenv\<close>: the empty string stands for an unset variable.\<close>

definition Getenv :: "environ \<Rightarrow> string \<Rightarrow> string" where
  "Getenv e k = (case e k of None \<Rightarrow> '''' | Some v \<Rightarrow> v)"

section \<open>Operations\<close>

definition splitAndTrim :: "string \<Rightarrow> string \<Rightarrow> string list" where
  "splitAndTrim s sep =
     (if s = '''' then [] else filter (\<lambda>t. t \<noteq> '''') (map TrimSpace (Split s sep)))"

definition parseDuration :: "string \<Rightarrow> config_error \<Rightarrow> load_error + duration" where
  "parseDuration raw sentinel =
     (if raw = '''' then Inl (Sentinel sentinel)
      else case ParseDuration raw of
        Inl _ \<Rightarrow> Inl (Quoted sentinel raw)
      | Inr d \<Rightarrow> if d \<le> 0 then Inl (Quoted sentinel raw) else Inr d)"

definition validate :: "Config \<Rightarrow> config_error option" where
  "validate c =
     (if HTTPAddr c = '''' then Some ErrMissingHTTPAddr
      else if DatabaseURL c = '''' then Some ErrMissingDatabaseURL
      else if RedisURL c = '''' then Some ErrMissingRedisURL
      else if RPID c = '''' then Some ErrMissingRPID
      else if RPDisplayName c = '''' then Some ErrMissingRPDisplayName
      else if length (RPOrigins c) = 0 then Some ErrMissingRPOrigins
      else None)"

definition Load :: "(environ \<Rightarrow> environ) \<Rightarrow> environ \<Rightarrow> (load_error + Config) \<times> environ" where
  "Load godotenv_Load env0 =
     (let env = godotenv_Load env0;
          cfg = \<lparr>HTTPAddr = Getenv env ''HTTP_ADDR'', DatabaseURL = Getenv env ''DATABASE_URL'',
                 RedisURL = Getenv env ''REDIS_URL'', RPID = Getenv env ''RP_ID'',
                 RPDisplayName = Getenv env ''RP_DISPLAY_NAME'',
                 RPOrigins = splitAndTrim (Getenv env ''RP_ORIGINS'') '','',
                 SessionTTL = 0, ChallengeTTL = 0, GuestTTL = 0\<rparr>
      in (case parseDuration (Getenv env ''SESSION_TTL'') ErrInvalidSessionTTL of
            Inl e \<Rightarrow> Inl e
          | Inr sessionTTL \<Rightarrow>
          case parseDuration (Getenv env ''CHALLENGE_TTL'') ErrInvalidChallengeTTL of
            Inl e \<Rightarrow> Inl e
          | Inr challengeTTL \<Rightarrow>
          case parseDuration (Getenv env ''GUEST_TTL'') ErrInvalidGuestTTL of
            Inl e \<Rightarrow> Inl e
          | Inr guestTTL \<Rightarrow>
          let cfg1 = cfg\<lparr>SessionTTL := sessionTTL, ChallengeTTL := challengeTTL, GuestTTL := guestTTL\<rparr>
          in case validate cfg1 of Some e \<Rightarrow> Inl (Sentinel e) | None \<Rightarrow> Inr cfg1, env))"

section \<open>Lemmas\<close>

text \<open>The documented behaviour of \<open>godotenv.Load\<close>: existing variables are not overridden.\<close>

definition godotenv_ok :: "(environ \<Rightarrow> environ) \<Rightarrow> bool" where
  "godotenv_ok load \<longleftrightarrow> (\<forall>env k v. env k = Some v \<longrightarrow> load env k = Some v)"

text \<open>A loader of that kind: the variables of a file fill the gaps.\<close>

definition dotenv_file :: "environ \<Rightarrow> environ \<Rightarrow> environ" where
  "dotenv_file file env k = (case env k of None \<Rightarrow> file k | Some v \<Rightarrow> Some v)"

lemma dotenv_file_ok: "godotenv_ok (dotenv_file file)"
  by (simp add: godotenv_ok_def dotenv_file_def)

lemma parseDuration_Inr: "parseDuration raw e = Inr d \<Longrightarrow> 0 < d \<and> d < 2 ^ 63 \<and> ParseDuration raw = Inr d"
  by (auto simp: parseDuration_def split: if_splits sum.splits dest: ParseDuration_range)

lemma parseDuration_Inl: "parseDuration raw e = Inl x \<Longrightarrow> sentinel_of x = e \<and> (\<forall>d > 0. ParseDuration raw \<noteq> Inr d)"
  by (auto simp: parseDuration_def ParseDuration_def split: if_splits sum.splits)

lemma validate_None:
  "validate c = None \<longleftrightarrow> HTTPAddr c \<noteq> '''' \<and> DatabaseURL c \<noteq> '''' \<and> RedisURL c \<noteq> '''' \<and> RPID c \<noteq> ''''
     \<and> RPDisplayName c \<noteq> '''' \<and> RPOrigins c \<noteq> []"
  by (simp add: validate_def)

lemma splitAndTrim_trimmed: "t \<in> set (splitAndTrim s sep) \<Longrightarrow> t \<noteq> '''' \<and> TrimSpace t = t"
  by (auto simp: splitAndTrim_def TrimSpace_idem split: if_splits)

lemma Load_cases:
  assumes "Load load env0 = (r, env)"
  obtains (session) e where "parseDuration (Getenv env ''SESSION_TTL'') ErrInvalidSessionTTL = Inl e" "r = Inl e"
  | (challenge) d e where "parseDuration (Getenv env ''SESSION_TTL'') ErrInvalidSessionTTL = Inr d"
      "parseDuration (Getenv env ''CHALLENGE_TTL'') ErrInvalidChallengeTTL = Inl e" "r = Inl e"
  | (guest) d d' e where "parseDuration (Getenv env ''SESSION_TTL'') ErrInvalidSessionTTL = Inr d"
      "parseDuration (Getenv env ''CHALLENGE_TTL'') ErrInvalidChallengeTTL = Inr d'"
      "parseDuration (Getenv env ''GUEST_TTL'') ErrInvalidGuestTTL = Inl e" "r = Inl e"
  | (validated) cfg where "parseDuration (Getenv env ''SESSION_TTL'') ErrInvalidSessionTTL = Inr (SessionTTL cfg)"
      "parseDuration (Getenv env ''CHALLENGE_TTL'') ErrInvalidChallengeTTL = Inr (ChallengeTTL cfg)"
      "parseDuration (Getenv env ''GUEST_TTL'') ErrInvalidGuestTTL = Inr (GuestTTL cfg)"
      "HTTPAddr cfg = Getenv env ''HTTP_ADDR''" "DatabaseURL cfg = Getenv env ''DATABASE_URL''"
      "RedisURL cfg = Getenv env ''REDIS_URL''" "RPID cfg = Getenv env ''RP_ID''"
      "RPDisplayName cfg = Getenv env ''RP_DISPLAY_NAME''"
      "RPOrigins cfg = splitAndTrim (Getenv env ''RP_ORIGINS'') '',''"
      "r = (case validate cfg of Some e \<Rightarrow> Inl (Sentinel e) | None \<Rightarrow> Inr cfg)"
proof -
  let ?cfg = "\<lambda>s c g. \<lparr>HTTPAddr = Getenv env ''HTTP_ADDR'', DatabaseURL = Getenv env ''DATABASE_URL'',
    RedisURL = Getenv env ''REDIS_URL'', RPID = Getenv env ''RP_ID'', RPDisplayName = Getenv env ''RP_DISPLAY_NAME'',
    RPOrigins = splitAndTrim (Getenv env ''RP_ORIGINS'') '','',
    SessionTTL = 0, ChallengeTTL = 0, GuestTTL = 0\<rparr>\<lparr>SessionTTL := s, ChallengeTTL := c, GuestTTL := g\<rparr>"
  show thesis
    using assms session challenge guest validated [of "?cfg s c g" for s c g]
    unfolding Load_def Let_def by (auto split: sum.splits)
qed

text \<open>
  The requirements in the order in which the code checks them, and the first one that an
  environment fails.
\<close>

definition good_duration :: "string \<Rightarrow> bool" where
  "good_duration raw \<longleftrightarrow> (case ParseDuration raw of Inl _ \<Rightarrow> False | Inr d \<Rightarrow> 0 < d)"

definition requirements :: "environ \<Rightarrow> (bool \<times> config_error) list" where
  "requirements env =
     [(good_duration (Getenv env ''SESSION_TTL''), ErrInvalidSessionTTL),
      (good_duration (Getenv env ''CHALLENGE_TTL''), ErrInvalidChallengeTTL),
      (good_duration (Getenv env ''GUEST_TTL''), ErrInvalidGuestTTL),
      (Getenv env ''HTTP_ADDR'' \<noteq> '''', ErrMissingHTTPAddr),
      (Getenv env ''DATABASE_URL'' \<noteq> '''', ErrMissingDatabaseURL),
      (Getenv env ''REDIS_URL'' \<noteq> '''', ErrMissingRedisURL),
      (Getenv env ''RP_ID'' \<noteq> '''', ErrMissingRPID),
      (Getenv env ''RP_DISPLAY_NAME'' \<noteq> '''', ErrMissingRPDisplayName),
      (\<exists>p \<in> set (Split (Getenv env ''RP_ORIGINS'') '',''). TrimSpace p \<noteq> '''', ErrMissingRPOrigins)]"

definition first_defect :: "environ \<Rightarrow> config_error option" where
  "first_defect env = map_option snd (find (\<lambda>(ok, e). \<not> ok) (requirements env))"

lemma parseDuration_good:
  "(case parseDuration raw e of Inl x \<Rightarrow> \<not> good_duration raw \<and> sentinel_of x = e | Inr d \<Rightarrow> good_duration raw)"
  by (auto simp: parseDuration_def good_duration_def ParseDuration_def split: sum.split)

lemma splitAndTrim_Nil: "splitAndTrim s '','' = [] \<longleftrightarrow> (\<forall>p \<in> set (Split s '',''). TrimSpace p = '''')"
proof -
  have "TrimSpace '''' = ''''" by code_simp
  then show ?thesis
    by (auto simp: splitAndTrim_def filter_empty_conv Split_def)
qed

text \<open>What an accepted configuration looks like.\<close>

lemma Load_Inr:
  assumes "Load load env0 = (Inr cfg, env)"
  shows "validate cfg = None" and "RPOrigins cfg = splitAndTrim (Getenv env ''RP_ORIGINS'') '',''"
    and "ttl \<in> {SessionTTL cfg, ChallengeTTL cfg, GuestTTL cfg} \<Longrightarrow> 0 < ttl \<and> ttl < 2 ^ 63"
proof -
  have "validate cfg = None \<and> RPOrigins cfg = splitAndTrim (Getenv env ''RP_ORIGINS'') '',''
    \<and> (\<forall>ttl \<in> {SessionTTL cfg, ChallengeTTL cfg, GuestTTL cfg}. 0 < ttl \<and> ttl < 2 ^ 63)"
    using assms
  proof (cases rule: Load_cases)
    case (validated c)
    then have "validate c = None" and "cfg = c"
      by (auto split: option.splits)
    then show ?thesis
      using validated(1-3,9) by (auto dest!: parseDuration_Inr)
  qed simp_all
  then show "validate cfg = None" and "RPOrigins cfg = splitAndTrim (Getenv env ''RP_ORIGINS'') '',''"
    and "ttl \<in> {SessionTTL cfg, ChallengeTTL cfg, GuestTTL cfg} \<Longrightarrow> 0 < ttl \<and> ttl < 2 ^ 63"
    by blast+
qed

section \<open>Properties\<close>

text \<open>
  C34: \<open>Load\<close> accepts only usable configurations: every required field is set, the origins
  are a non-empty list of non-empty strings without surrounding space, and the three times
  to live are positive and fit an \<open>int64\<close>.
\<close>

theorem Load_sound:
  assumes "Load load env0 = (Inr cfg, env)"
  shows "HTTPAddr cfg \<noteq> '''' \<and> DatabaseURL cfg \<noteq> '''' \<and> RedisURL cfg \<noteq> '''' \<and> RPID cfg \<noteq> ''''
    \<and> RPDisplayName cfg \<noteq> '''' \<and> RPOrigins cfg \<noteq> []
    \<and> (\<forall>origin \<in> set (RPOrigins cfg). origin \<noteq> '''' \<and> TrimSpace origin = origin)
    \<and> (\<forall>ttl \<in> {SessionTTL cfg, ChallengeTTL cfg, GuestTTL cfg}. 0 < ttl \<and> ttl < 2 ^ 63)"
  using Load_Inr [OF assms] splitAndTrim_trimmed by (auto simp: validate_None)

text \<open>An environment as the example configuration of the repository has it.\<close>

definition sample_environ :: environ where
  "sample_environ = map_of
     [(''HTTP_ADDR'', '':8080''), (''DATABASE_URL'', ''postgres://db''), (''REDIS_URL'', ''redis://r''),
      (''RP_ID'', ''localhost''), (''RP_DISPLAY_NAME'', ''Passkeys''), (''RP_ORIGINS'', ''http://a, http://b,''),
      (''SESSION_TTL'', ''24h''), (''CHALLENGE_TTL'', ''5m''), (''GUEST_TTL'', ''1h30m'')]"

lemmas duration_eval = parseDuration_def ParseDuration_def parse_components.simps parse_component_def
  number_char_def digit_def byte_in_def digit_value_def unitMap_def

lemma sample_Load:
  "Load id sample_environ = (Inr \<lparr>HTTPAddr = '':8080'', DatabaseURL = ''postgres://db'', RedisURL = ''redis://r'',
     RPID = ''localhost'', RPDisplayName = ''Passkeys'', RPOrigins = [''http://a'', ''http://b''],
     SessionTTL = 86400000000000, ChallengeTTL = 300000000000, GuestTTL = 5400000000000\<rparr>, sample_environ)"
proof -
  have origins: "splitAndTrim ''http://a, http://b,'' '','' = [''http://a'', ''http://b'']"
    by code_simp
  have "parseDuration ''24h'' e = Inr 86400000000000" "parseDuration ''5m'' e = Inr 300000000000"
    "parseDuration ''1h30m'' e = Inr 5400000000000" for e
    by (simp_all add: duration_eval)
  with origins show ?thesis
    by (simp add: Load_def sample_environ_def Getenv_def validate_def)
qed

theorem Load_sound_witness:
  "\<exists>cfg. Load id sample_environ = (Inr cfg, sample_environ) \<and> 0 < SessionTTL cfg \<and> RPOrigins cfg \<noteq> []"
  using Load_sound [OF sample_Load] sample_Load by blast

text \<open>
  C35: what \<open>Load\<close> refuses it refuses with the error of the first requirement that is not
  met, in the order session, challenge and guest time to live, address, database, Redis,
  relying party id, name and origins; and it refuses nothing else.
\<close>

theorem Load_first_error:
  "case fst (Load load env0) of
     Inl e \<Rightarrow> first_defect (load env0) = Some (sentinel_of e)
   | Inr cfg \<Rightarrow> first_defect (load env0) = None"
proof -
  obtain r where r: "Load load env0 = (r, load env0)"
    by (simp add: Load_def Let_def)
  note good = parseDuration_good [of "Getenv (load env0) ''SESSION_TTL''" ErrInvalidSessionTTL]
    parseDuration_good [of "Getenv (load env0) ''CHALLENGE_TTL''" ErrInvalidChallengeTTL]
    parseDuration_good [of "Getenv (load env0) ''GUEST_TTL''" ErrInvalidGuestTTL]
  from r show ?thesis
  proof (cases rule: Load_cases)
    case (validated cfg)
    then have "splitAndTrim (Getenv (load env0) ''RP_ORIGINS'') '','' = RPOrigins cfg" by simp
    with validated good r show ?thesis
      using splitAndTrim_Nil [of "Getenv (load env0) ''RP_ORIGINS''"]
      by (auto simp: first_defect_def requirements_def validate_def)
  qed (use good r in \<open>simp_all add: first_defect_def requirements_def\<close>)
qed

text \<open>The variables that \<open>Load\<close> reads.\<close>

definition config_vars :: "string list" where
  "config_vars = [''HTTP_ADDR'', ''DATABASE_URL'', ''REDIS_URL'', ''RP_ID'', ''RP_DISPLAY_NAME'',
     ''RP_ORIGINS'', ''SESSION_TTL'', ''CHALLENGE_TTL'', ''GUEST_TTL'']"

text \<open>
  The real environment wins over the \<open>.env\<close> file. If all nine variables are set in the
  environment of the process, the result does not depend on the file.
\<close>

lemma Load_ignores_file:
  assumes "godotenv_ok load" and "\<forall>k \<in> set config_vars. env0 k \<noteq> None"
  shows "fst (Load load env0) = fst (Load id env0)"
proof -
  have "Getenv (load env0) k = Getenv env0 k" if "k \<in> set config_vars" for k
    using assms that by (auto simp: godotenv_ok_def Getenv_def)
  then show ?thesis
    by (simp add: Load_def config_vars_def Let_def cong: sum.case_cong option.case_cong)
qed

lemma Load_ignores_file_example:
  "\<exists>cfg. fst (Load (dotenv_file [''SESSION_TTL'' \<mapsto> ''5s'']) sample_environ) = Inr cfg
     \<and> SessionTTL cfg = 86400000000000"
proof -
  have "\<forall>k \<in> set config_vars. sample_environ k \<noteq> None"
    by (simp add: config_vars_def sample_environ_def)
  then show ?thesis
    using Load_ignores_file [OF dotenv_file_ok, of sample_environ "[''SESSION_TTL'' \<mapsto> ''5s'']"]
    by (simp add: sample_Load)
qed

text \<open>
  A time to live is read as what it says. A text made of components, each a string of
  digits and a unit, whose values add up to less than \<open>2 ^ 63\<close> nanoseconds, is read as that
  sum; the configuration takes it exactly if the sum is positive.
\<close>

lemma parseDuration_sum:
  assumes "cs \<noteq> []" and "\<forall>c \<in> set cs. component_ok c" and "sum_list (map component_value cs) < 2 ^ 63"
  shows "parseDuration (concat (map component_text cs)) e =
    (if sum_list (map component_value cs) = 0 then Inl (Quoted e (concat (map component_text cs)))
     else Inr (int (sum_list (map component_value cs))))"
proof -
  let ?s = "concat (map component_text cs)"
  obtain c r where cs: "cs = c # r" using assms(1) by (cases cs) auto
  have hd: "component_text c \<noteq> []" "digit (hd (component_text c))"
    using assms(2) component_text_hd [of c] by (simp_all add: cs)
  then have s: "?s \<noteq> []" "digit (hd ?s)"
    by (simp_all add: cs)
  obtain u where "unitMap (snd c) = Some u"
    using assms(2) by (auto simp: cs component_ok_def)
  then have "snd c \<noteq> []" "fst c \<noteq> []"
    using assms(2) unitMap_Some(2) by (auto simp: cs component_ok_def)
  then have long: "?s \<noteq> ''0''"
    by (cases "fst c"; cases "snd c") (auto simp: cs component_text_def)
  have "hd ?s \<noteq> CHR ''-''" "hd ?s \<noteq> CHR ''+''"
    using s(2) by (auto simp: digit_def byte_in_def)
  then have "ParseDuration ?s = Inr (int (sum_list (map component_value cs)))"
    using parse_components_sum [OF assms(2), of 0] assms(3) s long
    by (cases ?s) (auto simp: ParseDuration_def Let_def)
  then show ?thesis
    using s(1) by (auto simp: parseDuration_def)
qed

lemma parseDuration_sum_example: "parseDuration ''1h30m'' ErrInvalidSessionTTL = Inr 5400000000000"
proof -
  have ok: "\<forall>c \<in> set [(''1'', ''h''), (''30'', ''m'')]. component_ok c"
    by (simp add: component_ok_def digit_def byte_in_def unitMap_def)
  have "sum_list (map component_value [(''1'', ''h''), (''30'', ''m'')]) = 5400000000000"
    by (simp add: component_value_def unitMap_def digit_value_def)
  then show ?thesis
    using parseDuration_sum [OF _ ok] by (simp add: component_text_def)
qed

text \<open>
  The list of origins is read as it was written. Joining pieces that contain no comma
  and splitting the result gives the pieces back, in their order, each without surrounding
  space and without those that were blank.
\<close>

lemma splitAndTrim_Join:
  assumes "\<forall>p \<in> set ps. CHR '','' \<notin> set p"
  shows "splitAndTrim (Join ps '','') '','' = filter (\<lambda>t. t \<noteq> '''') (map TrimSpace ps)"
proof (cases "ps = []")
  case False
  have "TrimSpace '''' = ''''" by code_simp
  moreover have "Split (Join ps '','') '','' = ps"
    using Split_Join [OF False, of "CHR '',''"] assms by simp
  ultimately show ?thesis
    by (cases "Join ps '','' = ''''") (auto simp: splitAndTrim_def Split_def)
qed (simp add: splitAndTrim_def)

lemma splitAndTrim_Join_example:
  "splitAndTrim ''a, b ,,c'' '','' = [''a'', ''b'', ''c'']"
proof -
  have "TrimSpace ''a'' = ''a''" "TrimSpace '' b '' = ''b''" "TrimSpace '''' = ''''" "TrimSpace ''c'' = ''c''"
    by code_simp+
  then show ?thesis
    using splitAndTrim_Join [of "[''a'', '' b '', '''', ''c'']"] by simp
qed

end
