(* ===== verification/Server_Main.thy ===== *)
theory Server_Main
  imports Router Config
begin

text \<open>
  \<open>cmd/server/main.go\<close> with \<open>NewPool\<close> (\<open>internal/store/postgres/postgres.go\<close>) and
  \<open>NewClient\<close> (\<open>internal/store/redis/redis.go\<close>): the start and the end of the process. The
  state is the list of the calls that were made to the libraries, in their order; which of
  them fail is a parameter, as is whether a signal or the end of \<open>ListenAndServe\<close> wakes
  the main goroutine. The address and the server that goes live are part of the call.

  Shown: whatever fails, everything that was opened is closed, exactly once and in the
  reverse order; the server listens only after configuration, migrations and both stores are
  in order, and then with positive times to live and cookie lifetimes that agree with them.
\<close>

section \<open>Calls to the libraries\<close>

datatype ext_error = ErrNoChange | ErrServerClosed | OtherError string

datatype 'srv boot_call =
    Iofs_New | Sql_Open string | Migrate_WithInstance | Migrate_New | Migrate_Up | Sql_Close
  | Pg_ParseConfig string | Pg_NewWithConfig | Pg_Ping | Pg_Close
  | Redis_ParseURL string | Redis_NewClient | Redis_Ping | Redis_Close
  | ListenAndServe string 'srv | Shutdown
  | LogInfo string | LogError string

datatype boot_error =
    BootConfig load_error
  | BootService wa_config_error
  | BootExt ext_error
  | BootWrapped string ext_error

record ('rd, 'sess, 'pc, 'pa) boot_lib =
  bl_godotenv :: "environ \<Rightarrow> environ"
  bl_New :: "lib_config \<Rightarrow> ('sess, 'pc, 'pa) webauthn_lib option"
  bl_redis :: "'rd redis_client"
  bl_uuid :: uuid_lib
  bl_chi :: chi
  bl_printTime :: "time \<Rightarrow> string"
  bl_indexHTML :: "string option"
  bl_result :: "('rd, 'sess, 'pc, 'pa) server boot_call \<Rightarrow> ext_error option"
  bl_stopped :: bool

type_synonym ('srv, 'a) boot_act = "('srv boot_call list, boot_error, 'a) act"

definition call ::
  "('srv boot_call \<Rightarrow> ext_error option) \<Rightarrow> (ext_error \<Rightarrow> boot_error) \<Rightarrow> 'srv boot_call \<Rightarrow> ('srv, unit) boot_act" where
  "call ext wrap c tr = (case ext c of None \<Rightarrow> Inr () | Some e \<Rightarrow> Inl (wrap e), tr @ [c])"

text \<open>A call whose result is not looked at.\<close>

definition note_call :: "'srv boot_call \<Rightarrow> ('srv, unit) boot_act" where
  "note_call c tr = (Inr (), tr @ [c])"

text \<open>\<open>defer\<close>: the clean-up runs when the rest of the function has returned, on every path.\<close>

definition deferE :: "('w, 'e, unit) act \<Rightarrow> ('w, 'e, 'a) act \<Rightarrow> ('w, 'e, 'a) act" where
  "deferE cleanup m w = (case m w of (r, w1) \<Rightarrow> (r, snd (cleanup w1)))"

section \<open>Opening the stores\<close>

definition NewPool :: "('srv boot_call \<Rightarrow> ext_error option) \<Rightarrow> string \<Rightarrow> ('srv, unit) boot_act" where
  "NewPool ext url =
     bindE (call ext (BootWrapped ''parse pg config'') (Pg_ParseConfig url)) (\<lambda>_.
     bindE (call ext (BootWrapped ''open pg pool'') Pg_NewWithConfig) (\<lambda>_.
     catchE (call ext (BootWrapped ''ping postgres'') Pg_Ping) (\<lambda>e.
       bindE (note_call Pg_Close) (\<lambda>_. failE e))))"

definition NewClient :: "('srv boot_call \<Rightarrow> ext_error option) \<Rightarrow> string \<Rightarrow> ('srv, unit) boot_act" where
  "NewClient ext url =
     bindE (call ext (BootWrapped ''parse redis url'') (Redis_ParseURL url)) (\<lambda>_.
     bindE (note_call Redis_NewClient) (\<lambda>_.
     catchE (call ext (BootWrapped ''ping redis'') Redis_Ping) (\<lambda>e.
       bindE (note_call Redis_Close) (\<lambda>_. failE e))))"

definition applyMigrations :: "('srv boot_call \<Rightarrow> ext_error option) \<Rightarrow> string \<Rightarrow> ('srv, unit) boot_act" where
  "applyMigrations ext dsn =
     bindE (call ext BootExt Iofs_New) (\<lambda>_.
     bindE (call ext BootExt (Sql_Open dsn)) (\<lambda>_.
     deferE (note_call Sql_Close)
       (bindE (call ext BootExt Migrate_WithInstance) (\<lambda>_.
        bindE (call ext BootExt Migrate_New) (\<lambda>_.
        catchE (call ext BootExt Migrate_Up) (\<lambda>e.
          if e = BootExt ErrNoChange then ret () else failE e))))))"

section \<open>run\<close>

text \<open>The service's own configuration record, and the handlers wired to their stores.\<close>

definition serviceConfig :: "Config \<Rightarrow> wa_config" where
  "serviceConfig cfg = \<lparr>cfg_RPID = RPID cfg, cfg_RPDisplayName = RPDisplayName cfg,
     cfg_RPOrigins = RPOrigins cfg, cfg_CeremonyTimeout = ChallengeTTL cfg\<rparr>"

definition wire ::
  "('rd, 'sess, 'pc, 'pa) boot_lib \<Rightarrow> Config \<Rightarrow> ('sess, 'pc, 'pa) webauthn_lib \<Rightarrow> ('rd, 'sess, 'pc, 'pa) server" where
  "wire B cfg wa =
     \<lparr>srv_auth = \<lparr>env_redis = bl_redis B, env_webauthn = wa, env_uuid = bl_uuid B,
        env_challengeTTL = ChallengeTTL cfg, env_sessionTTL = SessionTTL cfg, env_guestTTL = GuestTTL cfg,
        sessionMaxAge = Seconds_int (SessionTTL cfg), guestMaxAge = Seconds_int (GuestTTL cfg)\<rparr>,
      srv_chi = bl_chi B, srv_printTime = bl_printTime B,
      srv_indexHTML = bl_indexHTML B\<rparr>"

text \<open>
  Serving until a signal arrives or \<open>ListenAndServe\<close> ends; then the shutdown, unless the
  server ended with an error of its own.
\<close>

definition serveUntilStopped ::
  "('rd, 'sess, 'pc, 'pa) boot_lib \<Rightarrow> string \<Rightarrow> ('rd, 'sess, 'pc, 'pa) server
    \<Rightarrow> (('rd, 'sess, 'pc, 'pa) server, unit) boot_act" where
  "serveUntilStopped B addr srv =
     bindE (note_call (LogInfo ''server starting'')) (\<lambda>_.
     bindE (tryE (call (bl_result B) BootExt (ListenAndServe addr srv))) (\<lambda>served.
     bindE (if bl_stopped B then note_call (LogInfo ''server shutting down'')
            else case served of
                Inl e \<Rightarrow> if e = BootExt ErrServerClosed then ret () else failE e
              | Inr _ \<Rightarrow> ret ()) (\<lambda>_.
     call (bl_result B) BootExt Shutdown)))"

definition run :: "('rd, 'sess, 'pc, 'pa) boot_lib \<Rightarrow> environ \<Rightarrow> (('rd, 'sess, 'pc, 'pa) server, unit) boot_act" where
  "run B env =
     (case fst (Load (bl_godotenv B) env) of Inl e \<Rightarrow> failE (BootConfig e) | Inr cfg \<Rightarrow>
      bindE (applyMigrations (bl_result B) (DatabaseURL cfg)) (\<lambda>_.
      bindE (NewPool (bl_result B) (DatabaseURL cfg)) (\<lambda>_.
      deferE (note_call Pg_Close)
        (bindE (NewClient (bl_result B) (RedisURL cfg)) (\<lambda>_.
         deferE (note_call Redis_Close)
           (case NewService (bl_New B) (serviceConfig cfg) of
              Inl e \<Rightarrow> failE (BootService e)
            | Inr wa \<Rightarrow> serveUntilStopped B (HTTPAddr cfg) (wire B cfg wa)))))))"

text \<open>The exit status of the process.\<close>

definition main ::
  "('rd, 'sess, 'pc, 'pa) boot_lib \<Rightarrow> environ \<Rightarrow> nat \<times> ('rd, 'sess, 'pc, 'pa) server boot_call list" where
  "main B env =
     (case run B env [] of
        (Inl e, tr) \<Rightarrow> (1, tr @ [LogError ''server exited with error''])
      | (Inr _, tr) \<Rightarrow> (0, tr))"

section \<open>Traces\<close>

text \<open>
  Every part appends its calls to the trace. \<open>emits m P\<close>: whatever was called before, the
  result and the calls that \<open>m\<close> adds satisfy \<open>P\<close>.
\<close>

definition emits :: "('srv, 'a) boot_act \<Rightarrow> (boot_error + 'a \<Rightarrow> 'srv boot_call list \<Rightarrow> bool) \<Rightarrow> bool" where
  "emits m P \<longleftrightarrow> (\<forall>tr. \<exists>s. snd (m tr) = tr @ s \<and> P (fst (m tr)) s)"

lemma emitsE:
  assumes "emits m P"
  obtains r s where "m tr = (r, tr @ s)" and "P r s"
  using assms unfolding emits_def by (metis prod.collapse)

lemma emits_weaken: "emits m P \<Longrightarrow> (\<And>r s. P r s \<Longrightarrow> Q r s) \<Longrightarrow> emits m Q"
  unfolding emits_def by blast

lemma emits_failE: "P (Inl e) [] \<Longrightarrow> emits (failE e) P"
  by (simp add: emits_def failE_def)

lemma emits_bindE:
  assumes "emits m P" and "\<And>a. emits (f a) (Q a)"
    and "\<And>e s. P (Inl e) s \<Longrightarrow> R (Inl e) s" and "\<And>a r s t. P (Inr a) s \<Longrightarrow> Q a r t \<Longrightarrow> R r (s @ t)"
  shows "emits (bindE m f) R"
  unfolding emits_def
proof
  fix tr
  obtain r s where m: "m tr = (r, tr @ s)" "P r s" using assms(1) by (rule emitsE)
  show "\<exists>s. snd (bindE m f tr) = tr @ s \<and> R (fst (bindE m f tr)) s"
  proof (cases r)
    case (Inl e)
    then show ?thesis using m assms(3) by (simp add: bindE_def)
  next
    case (Inr a)
    obtain r' t where f: "f a (tr @ s) = (r', (tr @ s) @ t)" "Q a r' t" using assms(2) by (rule emitsE)
    then show ?thesis using m Inr assms(4) [of a s r' t] by (auto simp: bindE_def)
  qed
qed

lemma emits_deferE:
  assumes "emits m P" and "\<And>r s. P r s \<Longrightarrow> Q r (s @ [c])"
  shows "emits (deferE (note_call c) m) Q"
  unfolding emits_def
proof
  fix tr
  obtain r s where "m tr = (r, tr @ s)" "P r s" using assms(1) by (rule emitsE)
  with assms(2) show "\<exists>s. snd (deferE (note_call c) m tr) = tr @ s \<and> Q (fst (deferE (note_call c) m tr)) s"
    by (auto simp: deferE_def note_call_def)
qed

lemmas boot_defs = act_defs call_def note_call_def deferE_def emits_def

text \<open>The calls of the phases, without the closing ones.\<close>

definition migration_calls :: "Config \<Rightarrow> 'srv boot_call set" where
  "migration_calls cfg =
     {Iofs_New, Sql_Open (DatabaseURL cfg), Migrate_WithInstance, Migrate_New, Migrate_Up, Sql_Close}"

definition pool_calls :: "Config \<Rightarrow> 'srv boot_call set" where
  "pool_calls cfg = {Pg_ParseConfig (DatabaseURL cfg), Pg_NewWithConfig, Pg_Ping}"

definition redis_calls :: "Config \<Rightarrow> 'srv boot_call set" where
  "redis_calls cfg = {Redis_ParseURL (RedisURL cfg), Redis_NewClient, Redis_Ping}"

definition serve_calls :: "string \<Rightarrow> 'srv \<Rightarrow> 'srv boot_call set" where
  "serve_calls addr srv =
     {LogInfo ''server starting'', ListenAndServe addr srv, LogInfo ''server shutting down'', Shutdown}"

lemmas call_sets = migration_calls_def pool_calls_def redis_calls_def serve_calls_def

text \<open>What each of the three openers and the server add to the trace.\<close>

definition migrated :: "('srv boot_call \<Rightarrow> ext_error option) \<Rightarrow> Config \<Rightarrow> boot_error + unit \<Rightarrow> 'srv boot_call list \<Rightarrow> bool" where
  "migrated ext cfg r s \<longleftrightarrow> set s \<subseteq> migration_calls cfg
   \<and> count_list s Sql_Close = (if Sql_Open (DatabaseURL cfg) \<in> set s \<and> ext (Sql_Open (DatabaseURL cfg)) = None then 1 else 0)
   \<and> (r = Inr () \<longrightarrow> Migrate_Up \<in> set s \<and> ext Migrate_Up \<in> {None, Some ErrNoChange})"

definition pool_opened :: "('srv boot_call \<Rightarrow> ext_error option) \<Rightarrow> Config \<Rightarrow> boot_error + unit \<Rightarrow> 'srv boot_call list \<Rightarrow> bool" where
  "pool_opened ext cfg r s \<longleftrightarrow> (\<exists>p. set p \<subseteq> pool_calls cfg \<and> (case r of
      Inl e \<Rightarrow> (if Pg_NewWithConfig \<in> set p \<and> ext Pg_NewWithConfig = None then s = p @ [Pg_Close] else s = p)
    | Inr _ \<Rightarrow> s = p \<and> {Pg_NewWithConfig, Pg_Ping} \<subseteq> set p \<and> ext Pg_NewWithConfig = None \<and> ext Pg_Ping = None))"

definition client_opened :: "('srv boot_call \<Rightarrow> ext_error option) \<Rightarrow> Config \<Rightarrow> boot_error + unit \<Rightarrow> 'srv boot_call list \<Rightarrow> bool" where
  "client_opened ext cfg r s \<longleftrightarrow> (\<exists>p. set p \<subseteq> redis_calls cfg \<and> (case r of
      Inl e \<Rightarrow> (if Redis_NewClient \<in> set p then s = p @ [Redis_Close] else s = p)
    | Inr _ \<Rightarrow> s = p \<and> {Redis_NewClient, Redis_Ping} \<subseteq> set p \<and> ext Redis_Ping = None))"

definition served ::
  "('rd, 'sess, 'pc, 'pa) boot_lib \<Rightarrow> Config \<Rightarrow> boot_error + unit \<Rightarrow> ('rd, 'sess, 'pc, 'pa) server boot_call list \<Rightarrow> bool" where
  "served B cfg r s \<longleftrightarrow> (s = [] \<and> r \<noteq> Inr ()) \<or>
     (\<exists>wa. NewService (bl_New B) (serviceConfig cfg) = Inr wa \<and> set s \<subseteq> serve_calls (HTTPAddr cfg) (wire B cfg wa)
        \<and> (r = Inr () \<longleftrightarrow> Shutdown \<in> set s \<and> bl_result B Shutdown = None))"

lemma applyMigrations_emits: "emits (applyMigrations ext (DatabaseURL cfg)) (migrated ext cfg)"
  by (auto simp: applyMigrations_def boot_defs migrated_def call_sets split: option.splits)

lemma NewPool_emits: "emits (NewPool ext (DatabaseURL cfg)) (pool_opened ext cfg)"
  unfolding emits_def
proof
  fix tr :: "'a boot_call list"
  let ?u = "Pg_ParseConfig (DatabaseURL cfg)"
  consider "ext ?u \<noteq> None" | "ext ?u = None" "ext Pg_NewWithConfig \<noteq> None"
    | "ext ?u = None" "ext Pg_NewWithConfig = None"
    by blast
  then show "\<exists>s. snd (NewPool ext (DatabaseURL cfg) tr) = tr @ s
      \<and> pool_opened ext cfg (fst (NewPool ext (DatabaseURL cfg) tr)) s"
  proof cases
    case 1
    then show ?thesis
      by (auto simp: NewPool_def boot_defs pool_opened_def call_sets intro!: exI [of _ "[?u]"])
  next
    case 2
    then show ?thesis
      by (auto simp: NewPool_def boot_defs pool_opened_def call_sets intro!: exI [of _ "[?u, Pg_NewWithConfig]"])
  next
    case 3
    then show ?thesis
      by (auto simp: NewPool_def boot_defs pool_opened_def call_sets split: option.split
          intro!: exI [of _ "[?u, Pg_NewWithConfig, Pg_Ping]"])
  qed
qed

lemma NewClient_emits: "emits (NewClient ext (RedisURL cfg)) (client_opened ext cfg)"
  unfolding emits_def
proof
  fix tr :: "'a boot_call list"
  let ?u = "Redis_ParseURL (RedisURL cfg)"
  show "\<exists>s. snd (NewClient ext (RedisURL cfg) tr) = tr @ s
      \<and> client_opened ext cfg (fst (NewClient ext (RedisURL cfg) tr)) s"
  proof (cases "ext ?u")
    case None
    then show ?thesis
      by (auto simp: NewClient_def boot_defs client_opened_def call_sets split: option.split
          intro!: exI [of _ "[?u, Redis_NewClient, Redis_Ping]"])
  next
    case (Some e)
    then show ?thesis
      by (auto simp: NewClient_def boot_defs client_opened_def call_sets intro!: exI [of _ "[?u]"])
  qed
qed

lemma serve_emits:
  "emits (case NewService (bl_New B) (serviceConfig cfg) of Inl e \<Rightarrow> failE (BootService e)
     | Inr wa \<Rightarrow> serveUntilStopped B (HTTPAddr cfg) (wire B cfg wa)) (served B cfg)"
proof (cases "NewService (bl_New B) (serviceConfig cfg)")
  case (Inr wa)
  then show ?thesis
    by (auto simp: serveUntilStopped_def boot_defs served_def call_sets split: option.split)
qed (simp add: emits_failE served_def)

text \<open>
  The part between the deferred closings: from the Redis client to the end. It stops before
  the client exists, or it ends with the closing of the client.
\<close>

definition redis_part :: "('rd, 'sess, 'pc, 'pa) boot_lib \<Rightarrow> Config \<Rightarrow> (('rd, 'sess, 'pc, 'pa) server, unit) boot_act" where
  "redis_part B cfg = bindE (NewClient (bl_result B) (RedisURL cfg)) (\<lambda>_. deferE (note_call Redis_Close)
      (case NewService (bl_New B) (serviceConfig cfg) of Inl e \<Rightarrow> failE (BootService e)
        | Inr wa \<Rightarrow> serveUntilStopped B (HTTPAddr cfg) (wire B cfg wa)))"

definition redis_done ::
  "('rd, 'sess, 'pc, 'pa) boot_lib \<Rightarrow> Config \<Rightarrow> boot_error + unit \<Rightarrow> ('rd, 'sess, 'pc, 'pa) server boot_call list \<Rightarrow> bool" where
  "redis_done B cfg r s \<longleftrightarrow> (\<exists>p q. set p \<subseteq> redis_calls cfg
    \<and> (if Redis_NewClient \<in> set p then s = p @ q @ [Redis_Close] else s = p \<and> q = [])
    \<and> (q \<noteq> [] \<or> r = Inr () \<longrightarrow> Redis_Ping \<in> set p \<and> bl_result B Redis_Ping = None) \<and> served B cfg r q)"

lemma redis_part_emits: "emits (redis_part B cfg) (redis_done B cfg)"
  unfolding redis_part_def
proof (rule emits_bindE [OF NewClient_emits])
  show "emits (deferE (note_call Redis_Close) (case NewService (bl_New B) (serviceConfig cfg) of
        Inl e \<Rightarrow> failE (BootService e) | Inr wa \<Rightarrow> serveUntilStopped B (HTTPAddr cfg) (wire B cfg wa)))
      (\<lambda>r s. \<exists>q. s = q @ [Redis_Close] \<and> served B cfg r q)"
    by (rule emits_deferE [OF serve_emits]) blast
next
  show "redis_done B cfg (Inl e) s" if "client_opened (bl_result B) cfg (Inl e) s" for e s
    using that unfolding client_opened_def redis_done_def
    by (auto simp: served_def split: if_splits)
next
  show "redis_done B cfg r (s @ t)" if "client_opened (bl_result B) cfg (Inr a) s"
    and "\<exists>q. t = q @ [Redis_Close] \<and> served B cfg r q" for a :: unit and r s t
    using that unfolding client_opened_def redis_done_def by auto
qed

text \<open>All of \<open>run\<close>.\<close>

lemma run_cases:
  assumes "run B env [] = (r, tr)"
  obtains (config) e where "fst (Load (bl_godotenv B) env) = Inl e" and "tr = []" and "r \<noteq> Inr ()"
  | (migrations) cfg where "fst (Load (bl_godotenv B) env) = Inr cfg" and "migrated (bl_result B) cfg r tr" and "r \<noteq> Inr ()"
  | (pool) cfg m p where "fst (Load (bl_godotenv B) env) = Inr cfg" and "migrated (bl_result B) cfg (Inr ()) m"
      and "tr = m @ p" and "pool_opened (bl_result B) cfg r p" and "r \<noteq> Inr ()"
  | (opened) cfg m p s where "fst (Load (bl_godotenv B) env) = Inr cfg" and "migrated (bl_result B) cfg (Inr ()) m"
      and "pool_opened (bl_result B) cfg (Inr ()) p" and "redis_done B cfg r s" and "tr = m @ p @ s @ [Pg_Close]"
proof (cases "fst (Load (bl_godotenv B) env)")
  case (Inl e)
  then show thesis using assms config by (auto simp: run_def failE_def)
next
  case (Inr cfg)
  have run: "run B env = bindE (applyMigrations (bl_result B) (DatabaseURL cfg)) (\<lambda>_.
      bindE (NewPool (bl_result B) (DatabaseURL cfg)) (\<lambda>_. deferE (note_call Pg_Close) (redis_part B cfg)))"
    by (simp add: run_def Inr redis_part_def)
  obtain r1 m where m: "applyMigrations (bl_result B) (DatabaseURL cfg) [] = (r1, [] @ m)" "migrated (bl_result B) cfg r1 m"
    by (rule emitsE [OF applyMigrations_emits])
  obtain r2 p where p: "NewPool (bl_result B) (DatabaseURL cfg) m = (r2, m @ p)" "pool_opened (bl_result B) cfg r2 p"
    by (rule emitsE [OF NewPool_emits])
  obtain r3 s where s: "redis_part B cfg (m @ p) = (r3, (m @ p) @ s)" "redis_done B cfg r3 s"
    by (rule emitsE [OF redis_part_emits])
  show thesis
  proof (cases r1)
    case l: (Inl e)
    then show thesis using assms m migrations [OF Inr] by (auto simp: run bindE_def)
  next
    case i: (Inr x)
    show thesis
    proof (cases r2)
      case l: (Inl e)
      then show thesis using assms m p i pool [OF Inr] by (auto simp: run bindE_def)
    next
      case (Inr y)
      then show thesis
        using assms m p s i opened [OF \<open>fst (Load (bl_godotenv B) env) = _\<close>]
        by (simp add: run bindE_def deferE_def note_call_def)
    qed
  qed
qed

text \<open>The phases do not share calls.\<close>

lemma migration_calls_free:
  assumes "set s \<subseteq> migration_calls cfg"
  shows "count_list s Pg_Close = 0" "count_list s Redis_Close = 0" "Pg_NewWithConfig \<notin> set s"
    "Redis_NewClient \<notin> set s" "ListenAndServe a v \<notin> set s"
    "(\<exists>dsn. Sql_Open dsn \<in> set s \<and> ext (Sql_Open dsn) = None) \<longleftrightarrow>
       Sql_Open (DatabaseURL cfg) \<in> set s \<and> ext (Sql_Open (DatabaseURL cfg)) = None" "Shutdown \<notin> set s"
  using assms by (auto simp: count_list_0_iff migration_calls_def)

lemma pool_calls_free:
  assumes "set s \<subseteq> pool_calls cfg"
  shows "count_list s Sql_Close = 0" "count_list s Pg_Close = 0" "count_list s Redis_Close = 0"
    "Redis_NewClient \<notin> set s" "ListenAndServe a v \<notin> set s" "Sql_Open dsn \<notin> set s" "Shutdown \<notin> set s"
  using assms by (auto simp: count_list_0_iff pool_calls_def)

lemma redis_calls_free:
  assumes "set s \<subseteq> redis_calls cfg"
  shows "count_list s Sql_Close = 0" "count_list s Pg_Close = 0" "count_list s Redis_Close = 0"
    "Pg_NewWithConfig \<notin> set s" "ListenAndServe a v \<notin> set s" "Sql_Open dsn \<notin> set s" "Shutdown \<notin> set s"
  using assms by (auto simp: count_list_0_iff redis_calls_def)

lemma served_free:
  assumes "served B cfg r s"
  shows "count_list s Sql_Close = 0" "count_list s Pg_Close = 0" "count_list s Redis_Close = 0"
    "Pg_NewWithConfig \<notin> set s" "Redis_NewClient \<notin> set s" "Sql_Open dsn \<notin> set s"
  using assms by (auto simp: count_list_0_iff served_def serve_calls_def)

lemma redis_done_free:
  assumes "redis_done B cfg r s"
  shows "count_list s Sql_Close = 0" "count_list s Pg_Close = 0" "Pg_NewWithConfig \<notin> set s" "Sql_Open dsn \<notin> set s"
    "count_list s Redis_Close = (if Redis_NewClient \<in> set s then 1 else 0)"
    "Redis_NewClient \<in> set s \<Longrightarrow> \<exists>t. s = t @ [Redis_Close]"
proof -
  obtain p q where "set p \<subseteq> redis_calls cfg"
    and "if Redis_NewClient \<in> set p then s = p @ q @ [Redis_Close] else s = p \<and> q = []" and "served B cfg r q"
    using assms unfolding redis_done_def by blast
  then show "count_list s Sql_Close = 0" "count_list s Pg_Close = 0" "Pg_NewWithConfig \<notin> set s" "Sql_Open dsn \<notin> set s"
    "count_list s Redis_Close = (if Redis_NewClient \<in> set s then 1 else 0)"
    "Redis_NewClient \<in> set s \<Longrightarrow> \<exists>t. s = t @ [Redis_Close]"
    by (auto simp: redis_calls_free served_free split: if_splits)
qed

end
