(* ===== verification/Startup_Properties.thy ===== *)
theory Startup_Properties
  imports Server_Main Account_Properties
begin

text \<open>
  From the environment to the listening server: \<open>run\<close> of \<open>cmd/server/main.go\<close> on top of
  \<open>config.Load\<close>. What the other properties assume of the server (positive times to live)
  is what the start-up establishes.
\<close>

section \<open>Properties\<close>

text \<open>
  C36: nothing is leaked. Whatever call fails and however the process ends, \<open>run\<close> closes the
  migration connection, the pool and the Redis client exactly once if it has opened it, and
  not otherwise; the Redis client and then the pool are closed last.
\<close>

theorem run_releases:
  assumes "run B env [] = (r, tr)"
  shows "count_list tr Sql_Close = (if \<exists>dsn. Sql_Open dsn \<in> set tr \<and> bl_result B (Sql_Open dsn) = None then 1 else 0)
    \<and> count_list tr Pg_Close = (if Pg_NewWithConfig \<in> set tr \<and> bl_result B Pg_NewWithConfig = None then 1 else 0)
    \<and> count_list tr Redis_Close = (if Redis_NewClient \<in> set tr then 1 else 0)
    \<and> (Redis_NewClient \<in> set tr \<longrightarrow> (\<exists>s. tr = s @ [Redis_Close, Pg_Close]))"
  using assms
proof (cases rule: run_cases)
  case config
  then show ?thesis by simp
next
  case (migrations cfg)
  then have m: "set tr \<subseteq> migration_calls cfg" by (simp add: migrated_def)
  show ?thesis
    using migrations(2) by (simp add: migrated_def migration_calls_free [OF m])
next
  case (pool cfg m p)
  then have m: "set m \<subseteq> migration_calls cfg" by (simp add: migrated_def)
  obtain q where q: "set q \<subseteq> pool_calls cfg"
    and "p = (if Pg_NewWithConfig \<in> set q \<and> bl_result B Pg_NewWithConfig = None then q @ [Pg_Close] else q)"
    using pool(4,5) by (cases r) (auto simp: pool_opened_def split: if_splits)
  then show ?thesis
    using pool(2,3) by (simp add: migrated_def migration_calls_free [OF m] pool_calls_free [OF q])
next
  case (opened cfg m p s)
  then have m: "set m \<subseteq> migration_calls cfg" by (simp add: migrated_def)
  have p: "set p \<subseteq> pool_calls cfg" "Pg_NewWithConfig \<in> set p" "bl_result B Pg_NewWithConfig = None"
    using opened(3) by (auto simp: pool_opened_def)
  have "\<exists>t. tr = t @ [Redis_Close, Pg_Close]" if "Redis_NewClient \<in> set s"
    using redis_done_free(6) [OF opened(4) that] opened(5) by auto
  then show ?thesis
    using opened(2,5) p
    by (simp add: migrated_def migration_calls_free [OF m] pool_calls_free [OF p(1)] redis_done_free(1-5) [OF opened(4)])
qed

text \<open>A start with the sample environment in which one call of choice fails.\<close>

definition sample_boot :: "(rserver, toy_session, nat \<times> bytes, bytes) server boot_call list
    \<Rightarrow> (rserver, toy_session, nat \<times> bytes, bytes) boot_lib" where
  "sample_boot broken = \<lparr>bl_godotenv = id, bl_New = (\<lambda>_. Some toy_webauthn), bl_redis = map_server,
     bl_uuid = raw_uuid_lib, bl_chi = toy_chi, bl_printTime = (\<lambda>_. ''now''), bl_indexHTML = None,
     bl_result = (\<lambda>c. case c of ListenAndServe _ _ \<Rightarrow> Some ErrServerClosed
       | Redis_Ping \<Rightarrow> if broken = [Redis_Ping] then Some (OtherError ''refused'') else None
       | _ \<Rightarrow> None),
     bl_stopped = True\<rparr>"

lemmas sample_run = run_def sample_boot_def sample_Load applyMigrations_def NewPool_def NewClient_def
  serveUntilStopped_def NewService_def serviceConfig_def wire_def act_defs call_def note_call_def deferE_def

theorem run_releases_witness:
  "\<exists>s. snd (run (sample_boot [Redis_Ping]) sample_environ []) = s @ [Redis_Close, Pg_Close]
     \<and> count_list (snd (run (sample_boot [Redis_Ping]) sample_environ [])) Pg_Close = 1"
proof -
  have "Redis_NewClient \<in> set (snd (run (sample_boot [Redis_Ping]) sample_environ []))"
    "Pg_NewWithConfig \<in> set (snd (run (sample_boot [Redis_Ping]) sample_environ []))"
    "bl_result (sample_boot [Redis_Ping]) Pg_NewWithConfig = None"
    by (simp_all add: sample_run)
  then show ?thesis
    using run_releases [OF surjective_pairing, of "sample_boot [Redis_Ping]" sample_environ] by auto
qed

text \<open>
  C37: the server goes live only when everything is in order. If \<open>ListenAndServe\<close> is called,
  the configuration was accepted, the migrations ran (or there was nothing to do), and both
  stores answered a ping, all before; the address is the configured one and not empty; and
  the server is the one wired from that configuration, with positive times to live, and with
  cookie lifetimes equal to the times to live when these are whole seconds.
\<close>

theorem run_listens_ready:
  assumes "run B env [] = (r, tr)" and "ListenAndServe addr srv \<in> set tr"
  shows "\<exists>cfg wa pre post. fst (Load (bl_godotenv B) env) = Inr cfg \<and> tr = pre @ ListenAndServe addr srv # post
    \<and> {Migrate_Up, Pg_Ping, Redis_Ping} \<subseteq> set pre
    \<and> bl_result B Migrate_Up \<in> {None, Some ErrNoChange} \<and> bl_result B Pg_Ping = None \<and> bl_result B Redis_Ping = None
    \<and> addr = HTTPAddr cfg \<and> addr \<noteq> '''' \<and> srv = wire B cfg wa
    \<and> NewService (bl_New B) (serviceConfig cfg) = Inr wa \<and> ttls_positive (srv_auth srv)
    \<and> (\<forall>s. SessionTTL cfg = s * 1000000000 \<longrightarrow> sessionMaxAge (srv_auth srv) = s)
    \<and> (\<forall>s. GuestTTL cfg = s * 1000000000 \<longrightarrow> guestMaxAge (srv_auth srv) = s)"
  using assms(1)
proof (cases rule: run_cases)
  case (opened cfg m p s)
  obtain p1 q where p1: "set p1 \<subseteq> redis_calls cfg"
    and s: "if Redis_NewClient \<in> set p1 then s = p1 @ q @ [Redis_Close] else s = p1 \<and> q = []"
    and ping: "q \<noteq> [] \<Longrightarrow> Redis_Ping \<in> set p1 \<and> bl_result B Redis_Ping = None" and q: "served B cfg r q"
    using opened(4) unfolding redis_done_def by blast
  have m: "set m \<subseteq> migration_calls cfg" "Migrate_Up \<in> set m" "bl_result B Migrate_Up \<in> {None, Some ErrNoChange}"
    using opened(2) by (auto simp: migrated_def)
  have p: "set p \<subseteq> pool_calls cfg" "Pg_Ping \<in> set p" "bl_result B Pg_Ping = None"
    using opened(3) by (auto simp: pool_opened_def)
  have "ListenAndServe addr srv \<in> set q"
    using assms(2) opened(5) s
    by (auto simp: migration_calls_free [OF m(1)] pool_calls_free [OF p(1)] redis_calls_free [OF p1] split: if_splits)
  then obtain q1 q2 where split: "q = q1 @ ListenAndServe addr srv # q2"
    by (meson split_list)
  then have tr: "tr = (m @ p @ p1 @ q1) @ ListenAndServe addr srv # (q2 @ [Redis_Close, Pg_Close])"
    using opened(5) s by (auto split: if_splits)
  obtain wa where wa: "NewService (bl_New B) (serviceConfig cfg) = Inr wa" "addr = HTTPAddr cfg" "srv = wire B cfg wa"
    using q split by (auto simp: served_def serve_calls_def)
  obtain env' where load: "Load (bl_godotenv B) env = (Inr cfg, env')"
    using opened(1) by (cases "Load (bl_godotenv B) env") auto
  have ttl: "0 < t \<and> t < 2 ^ 63" if "t \<in> {SessionTTL cfg, ChallengeTTL cfg, GuestTTL cfg}" for t
    using Load_Inr(3) [OF load that] .
  have age: "Seconds_int t = s" if "t \<in> {SessionTTL cfg, GuestTTL cfg}" "t = s * 1000000000" for t s
    using Seconds_int_whole [of s] ttl [of t] that by auto
  show ?thesis
    using opened(1) tr m p ping split wa Load_Inr(1) [OF load] ttl age
    by (intro exI [of _ cfg] exI [of _ wa] exI [of _ "m @ p @ p1 @ q1"] exI [of _ "q2 @ [Redis_Close, Pg_Close]"])
       (auto simp: wire_def ttls_positive_def validate_None)
next
  case (migrations cfg)
  then have "set tr \<subseteq> migration_calls cfg" by (simp add: migrated_def)
  with assms(2) show ?thesis by (simp add: migration_calls_free)
next
  case (pool cfg m p)
  then have m: "set m \<subseteq> migration_calls cfg" by (simp add: migrated_def)
  have "set p \<subseteq> insert Pg_Close (pool_calls cfg)"
    using pool(4) by (cases r) (auto simp: pool_opened_def split: if_splits)
  then have "ListenAndServe addr srv \<notin> set p" by (auto simp: pool_calls_def)
  with assms(2) show ?thesis
    using migration_calls_free(5) [OF m] by (simp add: pool(3))
qed (use assms(2) in simp)

theorem run_listens_ready_witness:
  "\<exists>srv. ListenAndServe '':8080'' srv \<in> set (snd (run (sample_boot []) sample_environ []))
     \<and> ttls_positive (srv_auth srv) \<and> sessionMaxAge (srv_auth srv) = 86400"
proof -
  let ?tr = "snd (run (sample_boot []) sample_environ [])"
  obtain srv where srv: "ListenAndServe '':8080'' srv \<in> set ?tr"
    by (simp add: sample_run)
  have "fst (Load (bl_godotenv (sample_boot [])) sample_environ) = fst (Load id sample_environ)"
    by (simp add: sample_boot_def)
  then show ?thesis
    using run_listens_ready [OF surjective_pairing srv] srv by (auto simp: sample_Load)
qed

end
