(* ===== verification/Availability_Properties.thy ===== *)
theory Availability_Properties
  imports Register_Properties
begin

text \<open>
  That the service does serve: a registration whose every precondition holds is completed.
  The counterpart of \<open>CompleteRegister_creates\<close>, which says what a completed registration
  did. And how far a session id of the login flow gets in \<open>/register/complete\<close>.
\<close>

lemma verifyAttestation_succeeds:
  assumes "lib_ParseCreation (env_webauthn env) body = Some parsed"
    and "lib_CreateCredential (env_webauthn env) (w_now w) u sess parsed = Some cred"
    and "checkAttestationPolicy cred = None"
  shows "verifyAttestation env m1 m2 u sess body w = (Inr cred, w)"
  using assms
  by (simp add: verifyAttestation_def Service_ParseCredentialCreation_def Service_CreateCredential_def act_defs)

lemma Insert_succeeds:
  assumes "pg_up w" and "w_genuuid w (w_upos w) \<notin> row_id ` set (w_creds w)"
    and "\<forall>row \<in> set (w_creds w). live row \<longrightarrow> Some (credential_id row) \<noteq> CredentialID c"
    and "cred_UserID c \<in> user_ID ` set (w_users w)" and "not_null c"
  shows "\<exists>saved w'. CredentialStore_Insert c w = (Inr saved, w')"
  using assms
  by (auto simp: CredentialStore_Insert_def scanCredential_def act_defs pg_stmt_up insert_credential_def Let_def)


lemma domainCredentialFromLib_succeeds:
  assumes "uuid_lib_ok L" and "length (au_AAGUID (lib_Authenticator cred)) \<in> {0, 16}"
  shows "\<exists>dc. domainCredentialFromLib L i h cred = Some dc"
  using assms by (auto simp: domainCredentialFromLib_def uuid_lib_ok_def Let_def)

context redis_stores begin

lemma Take_succeeds:
  assumes "challenge_at holds_at (w_now w) w i = Some raw"
    and "fst (rc_GetDel R (w_now w) (challengeKeyPrefix @ i) (w_rd w)) \<noteq> RErr"
  shows "\<exists>s. ChallengeStore_Take R i w = (Inr raw, w\<lparr>w_rd := s\<rparr>)"
proof -
  obtain x s where x: "rc_GetDel R (w_now w) (challengeKeyPrefix @ i) (w_rd w) = (x, s)"
    by (cases "rc_GetDel R (w_now w) (challengeKeyPrefix @ i) (w_rd w)")
  then have "x = ROk raw"
    using assms getdel_ok [of "w_now w"] getdel_nil [of "w_now w"]
    by (cases x) (auto simp: challenge_at_def)
  with x show ?thesis
    by (auto simp: ChallengeStore_Take_def redisFetch_Inr)
qed

end

section \<open>Up to the insertion of the passkey\<close>

text \<open>
  The preconditions of a registration up to the point where its user row has been written:
  PostgreSQL is up and hands out an unused id, Redis answers, the challenge under \<open>sid\<close> is a
  pending one that decodes as \<open>stored\<close>, which is not a promotion, the library and both
  policies accept the attestation as \<open>cred\<close>, and the username is free.
\<close>

definition register_ready ::
  "('rd, 'sess, 'pc, 'pa) auth_env \<Rightarrow> (time \<Rightarrow> 'rd \<Rightarrow> string \<Rightarrow> rval option) \<Rightarrow> 'rd world
    \<Rightarrow> string \<Rightarrow> json \<Rightarrow> 'sess registrationSession \<Rightarrow> lib_credential \<Rightarrow> bool" where
  "register_ready env H w sid body stored cred \<longleftrightarrow>
     pg_up w \<and> w_genuuid w (w_upos w) \<notin> user_ID ` set (w_users w)
   \<and> fst (rc_GetDel (env_redis env) (w_now w) (challengeKeyPrefix @ sid) (w_rd w)) \<noteq> RErr
   \<and> (\<exists>raw. challenge_at H (w_now w) w sid = Some raw \<and> unmarshal_registrationSession env raw = Some stored)
   \<and> \<not> reg_Promote stored
   \<and> (\<exists>parsed. lib_ParseCreation (env_webauthn env) body = Some parsed
       \<and> lib_CreateCredential (env_webauthn env) (w_now w) (stored_user env stored) (reg_Session stored) parsed
           = Some cred)
   \<and> IsAcceptedAttestation (lib_AttestationFormat cred) \<and> IsAcceptedAttestationType (lib_AttestationType cred)
   \<and> length (au_AAGUID (lib_Authenticator cred)) \<in> {0, 16}
   \<and> \<not> username_taken (w_users w) (reg_Username stored)"

lemma register_until_insert:
  assumes stores: "redis_stores (env_redis env) H (env_uuid env)"
    and env: "complete_envelope r = Some (sid, body)" and ready: "register_ready env H w sid body stored cred"
  obtains user w2 dc
  where "w_users w2 = w_users w @ [user]" and "w_creds w2 = w_creds w" and "pg_up w2"
    and "w_genuuid w2 = w_genuuid w" and "w_upos w2 = Suc (w_upos w)"
    and "\<not> IsGuest user" and "Username user = reg_Username stored" and "DisplayName user = reg_DisplayName stored"
    and "domainCredentialFromLib (env_uuid env) (user_ID user) (Handle (stored_user env stored)) cred = Some dc"
    and "serve (CompleteRegister env r) w = serve (bindE (catchE (CredentialStore_Insert dc) (\<lambda>e.
           if e = ErrCredentialExists then reject 409 ''credential_exists''
           else internal ''register complete: insert credential''))
         (\<lambda>saved. writeJSON 200 (completeRegisterResponse env (user_ID user) (cred_ID saved)))) w2"
proof -
  from ready obtain raw parsed where chal: "challenge_at H (w_now w) w sid = Some raw"
      "unmarshal_registrationSession env raw = Some stored"
    and lib: "lib_ParseCreation (env_webauthn env) body = Some parsed"
      "lib_CreateCredential (env_webauthn env) (w_now w) (stored_user env stored) (reg_Session stored) parsed = Some cred"
    and aaguid: "length (au_AAGUID (lib_Authenticator cred)) \<in> {0, 16}"
    by (auto simp: register_ready_def)
  obtain s where take: "ChallengeStore_Take (env_redis env) sid w = (Inr raw, w\<lparr>w_rd := s\<rparr>)"
    using redis_stores.Take_succeeds [OF stores chal(1)] ready by (auto simp: register_ready_def)
  let ?w1 = "w\<lparr>w_rd := s\<rparr>"
  have up1: "pg_up ?w1" "fresh_user_uuid ?w1" "\<not> username_taken (w_users ?w1) (reg_Username stored)"
    using ready by (simp_all add: register_ready_def fresh_user_uuid_def)
  obtain user w2 where user: "UserStore_CreateRegistered (reg_Username stored) (reg_DisplayName stored) ?w1 = (Inr user, w2)"
    and w2: "pg_up w2" "w_genuuid w2 = w_genuuid w" "w_upos w2 = Suc (w_upos w)"
    using CreateRegistered_functional [OF up1(1,2)] up1(1,3) by (simp add: pg_up_def Let_def)
  obtain dc where dc: "domainCredentialFromLib (env_uuid env) (user_ID user) (Handle (stored_user env stored)) cred = Some dc"
    using domainCredentialFromLib_succeeds [OF redis_stores.uuids [OF stores] aaguid] by blast
  have "verifyAttestation env m1 m2 (stored_user env stored) (reg_Session stored) body ?w1 = (Inr cred, ?w1)" for m1 m2
    using lib ready by (intro verifyAttestation_succeeds) (simp_all add: checkAttestationPolicy_def register_ready_def)
  moreover have "decodeComplete r w = (Inr (sid, body), w)"
    using env by (simp add: decodeComplete_on)
  ultimately have "serve (CompleteRegister env r) w = serve (bindE (catchE (CredentialStore_Insert dc) (\<lambda>e.
           if e = ErrCredentialExists then reject 409 ''credential_exists''
           else internal ''register complete: insert credential''))
         (\<lambda>saved. writeJSON 200 (completeRegisterResponse env (user_ID user) (cred_ID saved)))) w2"
    using take chal(2) user dc ready
    unfolding CompleteRegister_def stored_user_def [symmetric]
    by (simp add: serve_bindE takeChallenge_def someOrInternal_def catchE_def ret_def Let_def register_ready_def)
  then show thesis
    using that [of w2 user dc] CreateRegistered_Inr [OF user] w2 dc by simp
qed

section \<open>Properties\<close>

text \<open>
  C10: a good registration is not refused. If PostgreSQL is up and hands out unused ids, Redis
  answers, the challenge is a pending one of the registration flow, the library accepts the
  attestation and both policies do, the username and the credential id are not taken, and
  handle, credential id and public key are there (not nil), then \<open>/register/complete\<close>
  answers 200.
\<close>

theorem CompleteRegister_available:
  assumes stores: "redis_stores (env_redis env) H (env_uuid env)"
    and "complete_envelope r = Some (sid, body)" and chal: "challenge_at H (w_now w) w sid = Some raw"
    and "fst (rc_GetDel (env_redis env) (w_now w) (challengeKeyPrefix @ sid) (w_rd w)) \<noteq> RErr"
    and stored: "unmarshal_registrationSession env raw = Some stored" "\<not> reg_Promote stored"
    and lib: "lib_ParseCreation (env_webauthn env) body = Some parsed"
      "lib_CreateCredential (env_webauthn env) (w_now w) (stored_user env stored) (reg_Session stored) parsed = Some cred"
    and policy: "IsAcceptedAttestation (lib_AttestationFormat cred)" "IsAcceptedAttestationType (lib_AttestationType cred)"
    and aaguid: "length (au_AAGUID (lib_Authenticator cred)) \<in> {0, 16}"
    and nonnil: "lib_ID cred \<noteq> None" "lib_PublicKey cred \<noteq> None"
      "sess_UserID (env_webauthn env) (reg_Session stored) \<noteq> None"
    and "pg_up w" and "\<not> username_taken (w_users w) (reg_Username stored)"
    and "\<forall>row \<in> set (w_creds w). live row \<longrightarrow> Some (credential_id row) \<noteq> lib_ID cred"
    and "w_genuuid w (w_upos w) \<notin> user_ID ` set (w_users w)"
    and "w_genuuid w (Suc (w_upos w)) \<notin> row_id ` set (w_creds w)"
  shows "resp_Status (fst (serve (CompleteRegister env r) w)) = 200"
proof -
  have "register_ready env H w sid body stored cred"
    using assms by (auto simp: register_ready_def)
  then obtain user w2 dc where w2: "w_users w2 = w_users w @ [user]" "w_creds w2 = w_creds w" "pg_up w2"
      "w_genuuid w2 = w_genuuid w" "w_upos w2 = Suc (w_upos w)"
    and dc: "domainCredentialFromLib (env_uuid env) (user_ID user) (Handle (stored_user env stored)) cred = Some dc"
    and run: "serve (CompleteRegister env r) w = serve (bindE (catchE (CredentialStore_Insert dc) (\<lambda>e.
           if e = ErrCredentialExists then reject 409 ''credential_exists''
           else internal ''register complete: insert credential''))
         (\<lambda>saved. writeJSON 200 (completeRegisterResponse env (user_ID user) (cred_ID saved)))) w2"
    by (rule register_until_insert [OF stores assms(2)])
  have "not_null dc"
    using nonnil domainCredentialFromLib_Some [OF dc] by (simp add: not_null_def stored_user_def)
  then obtain saved w3 where ins: "CredentialStore_Insert dc w2 = (Inr saved, w3)"
    using Insert_succeeds [OF w2(3), of dc] assms w2 domainCredentialFromLib_Some [OF dc] by auto
  show ?thesis
    unfolding run by (simp add: serve_def act_defs ins writeJSON_def)
qed

theorem CompleteRegister_available_witness:
  "resp_Status (fst (serve (CompleteRegister toy_env toy_complete)
     (with_challenge (toy_payload ''alice'' uuid_Nil False) toy_start))) = 200"
proof -
  let ?w = "with_challenge (toy_payload ''alice'' uuid_Nil False) toy_start"
  let ?raw = "RDoc (toy_payload ''alice'' uuid_Nil False)"
  let ?stored = "the (unmarshal_registrationSession toy_env ?raw)"
  have run: "complete_envelope toy_complete = Some (''sid'', JStr ''k'')"
    "challenge_at rs_holds_at (w_now ?w) ?w ''sid'' = Some ?raw"
    "unmarshal_registrationSession toy_env ?raw = Some ?stored" "\<not> reg_Promote ?stored"
    "lib_ParseCreation (env_webauthn toy_env) (JStr ''k'') = Some (0, [107])"
    "lib_CreateCredential (env_webauthn toy_env) (w_now ?w) (stored_user toy_env ?stored) (reg_Session ?stored) (0, [107])
       = Some (toy_credential [107])"
    "w_users ?w = []" "w_creds ?w = []" "w_pg ?w = []"
    by code_simp+
  have ok: "fst (rc_GetDel (env_redis toy_env) (w_now ?w) (challengeKeyPrefix @ ''sid'') (w_rd ?w)) \<noteq> RErr"
    using toy_take [OF _ run(2)] by (simp add: with_challenge_def toy_start_def)
  have "IsAcceptedAttestation ''none''" "IsAcceptedAttestationType ''none''" by code_simp+
  then have cred: "IsAcceptedAttestation (lib_AttestationFormat (toy_credential [107]))"
    "IsAcceptedAttestationType (lib_AttestationType (toy_credential [107]))"
    "length (au_AAGUID (lib_Authenticator (toy_credential [107]))) \<in> {0, 16}"
    "lib_ID (toy_credential [107]) \<noteq> None" "lib_PublicKey (toy_credential [107]) \<noteq> None"
    by (simp_all add: toy_credential_def)
  have handle: "sess_UserID (env_webauthn toy_env) (reg_Session ?stored) \<noteq> None" by code_simp
  have "pg_up ?w" "\<not> username_taken (w_users ?w) (reg_Username ?stored)"
    using run(7-9) by (simp_all add: pg_up_def username_taken_def)
  then show ?thesis
    using run(7,8)
    by (intro CompleteRegister_available [OF toy_stores run(1,2) ok run(3-6) cred handle]) simp_all
qed




end
