(* ===== verification/Session_Lifecycle.thy ===== *)
theory Session_Lifecycle
  imports Availability_Properties Account_Properties
begin

text \<open>
  That sessions work: a login whose every precondition holds is completed, and the cookie it
  hands out opens \<open>/users/me\<close> to the user who logged in for as long as the session lives.
\<close>

section \<open>Stores that answer\<close>

lemma GetByID_succeeds:
  "pg_up w \<Longrightarrow> users_ok (w_users w) \<Longrightarrow> v \<in> set (w_users w) \<Longrightarrow> UserStore_GetByID (user_ID v) w = (Inr v, w)"
  by (rule GetByID_found) (auto simp: users_ok_def dest: distinct_keyD)

lemma GetByCredentialID_succeeds:
  assumes "pg_up w" and "creds_ok (w_users w) (w_creds w)" and "row \<in> set (w_creds w)" and "live row"
  shows "CredentialStore_GetByCredentialID (Some (credential_id row)) w = (Inr (scan_row row), w)"
proof -
  have "select_live_by_credential_id (Some (credential_id row)) w = Some row"
    unfolding select_live_by_credential_id_def
    by (rule find_only) (use assms(2-4) in \<open>auto simp: creds_ok_def dest: distinct_map_filterD\<close>)
  then show ?thesis
    using assms(1)
    by (simp add: CredentialStore_GetByCredentialID_def scanCredential_def act_defs pg_stmt_up pg_query_def)
qed

lemma UpdateAfterAssertion_succeeds:
  assumes "pg_up w" and "row \<in> set (w_creds w)" and "live row"
  shows "\<exists>w'. CredentialStore_UpdateAfterAssertion (row_id row) k be bs w = (Inr (), w') \<and> w_rd w' = w_rd w
    \<and> w_now w' = w_now w \<and> w_entropy w' = w_entropy w"
proof -
  have "count_where (\<lambda>r. row_id r = row_id row \<and> live r) (w_creds w) \<noteq> 0"
    using assms(2,3) by (auto simp: count_where_eq_0)
  then show ?thesis
    using assms(1)
    by (simp add: CredentialStore_UpdateAfterAssertion_def wrapPg_def act_defs pg_stmt_up update_live_def)
qed

lemma dropGuest_succeeds: "\<exists>w'. dropGuest env msg r w = (Inr (), w')"
  by (auto simp: dropGuest_def act_defs logE_def clearGuestCookie_def SetCookie_def
      split: option.split prod.split sum.split)

context redis_stores begin

lemma session_Get_succeeds:
  assumes "session_owner holds_at L (w_now w) w tok = Some u"
    and "fst (rc_Get R (w_now w) (sessionKeyPrefix @ tok) (w_rd w)) \<noteq> RErr"
  shows "\<exists>s. SessionStore_Get R L tok w = (Inr u, w\<lparr>w_rd := s\<rparr>)"
proof -
  obtain x s where x: "rc_Get R (w_now w) (sessionKeyPrefix @ tok) (w_rd w) = (x, s)"
    by (cases "rc_Get R (w_now w) (sessionKeyPrefix @ tok) (w_rd w)")
  with assms obtain v where "x = ROk v" "parse_owner L v = Some u"
    using get_ok [of "w_now w"] get_nil [of "w_now w"]
    by (cases x) (auto simp: session_owner_def token_owner_def bind_eq_Some_conv)
  with x show ?thesis
    by (intro exI [of _ s]) (simp add: SessionStore_Get_def redisFetch_def redisE_def act_defs)
qed

end

lemma session_Create_succeeds:
  assumes "entropy_ok w"
    and "\<forall>tok. \<exists>x s. rc_Set R (w_now w) (sessionKeyPrefix @ tok) (RStr (uuid_String L u)) ttl (w_rd w) = (ROk x, s)"
  shows "\<exists>tok w'. SessionStore_Create R L ttl u w = (Inr tok, w')"
proof -
  obtain tok where "newToken w = (Inr tok, w\<lparr>w_epos := w_epos w + 32\<rparr>)"
    using assms(1) by (rule newToken_ok)
  moreover obtain x s where "rc_Set R (w_now w) (sessionKeyPrefix @ tok) (RStr (uuid_String L u)) ttl (w_rd w) = (ROk x, s)"
    using assms(2) by blast
  ultimately show ?thesis
    by (simp add: SessionStore_Create_def redisDo_def redisE_def act_defs)
qed

lemma recordCounterAnomalies_succeeds:
  "\<exists>l. recordCounterAnomalies L old new w = (Inr () :: 'e + unit, w\<lparr>w_log := l\<rparr>)"
proof -
  obtain x :: "'e + unit" and w' where run: "recordCounterAnomalies L old new w = (x, w')"
    by fastforce
  have "w'\<lparr>w_log := []\<rparr> = w\<lparr>w_log := []\<rparr>"
    using run by (rule keepsD [where f = "\<lambda>w. w\<lparr>w_log := []\<rparr>", rotated]) (intro keeps_rules, simp)
  then have "w' = w\<lparr>w_log := w_log w'\<rparr>"
    by (cases w; cases w') simp
  moreover have "x = Inr ()"
    using run by (auto simp: recordCounterAnomalies_def act_defs logE_def split: prod.splits option.splits if_splits)
  ultimately show ?thesis
    using run by metis
qed

section \<open>Login\<close>

text \<open>The user that the resolver hands to the library for a passkey and its owner.\<close>

definition passkey_user :: "user \<Rightarrow> credential \<Rightarrow> wa_user" where
  "passkey_user u c = \<lparr>Handle = WebAuthnUserHandle c, wa_Name = Username u, wa_DisplayName = DisplayName u,
     wa_Credentials = Some [libCredentialFromDomain c]\<rparr>"

lemma ValidateLogin_succeeds:
  assumes "pg_up w" and "schema_ok w" and "row \<in> set (w_creds w)" "live row"
    and "Some (credential_id row) = pa_RawID W parsed" and "user \<in> set (w_users w)" and "user_ID user = user_id row"
    and "lib_ValidateDiscoverableLogin W (w_now w) session parsed = CallHandler rawID userHandle k"
    and "k (Some (passkey_user user (scan_row row))) = LoginDone (Some cred)"
  shows "Service_ValidateLogin W (resolver W parsed) (None, None) session parsed w
    = (Inr (cred, (Some user, Some (scan_row row))), w)"
proof -
  have "CredentialStore_GetByCredentialID (pa_RawID W parsed) w = (Inr (scan_row row), w)"
    using GetByCredentialID_succeeds [OF assms(1) _ assms(3,4)] assms(2,5) by (simp add: schema_ok_def)
  moreover have "UserStore_GetByID (cred_UserID (scan_row row)) w = (Inr user, w)"
    using GetByID_succeeds [OF assms(1) _ assms(6)] assms(2,7) by (simp add: schema_ok_def)
  ultimately show ?thesis
    using assms(8,9)
    by (simp add: Service_ValidateLogin_def resolver_def act_defs passkey_user_def)
qed

lemma login_succeeds:
  assumes stores: "redis_stores (env_redis env) H (env_uuid env)" and "schema_ok w" and "pg_up w" and "entropy_ok w"
    and "complete_envelope r = Some (sid, body)" and chal: "challenge_at H (w_now w) w sid = Some raw"
    and "rc_GetDel (env_redis env) (w_now w) (challengeKeyPrefix @ sid) (w_rd w) = (reply, rd)" and "reply \<noteq> RErr"
    and stored: "unmarshal_loginSession env raw = Some stored"
    and parsed: "lib_ParseAssertion (env_webauthn env) body = Some parsed"
    and row: "row \<in> set (w_creds w)" "live row" "Some (credential_id row) = pa_RawID (env_webauthn env) parsed"
      "user \<in> set (w_users w)" "user_ID user = user_id row"
    and lib: "lib_ValidateDiscoverableLogin (env_webauthn env) (w_now w) (login_Session stored) parsed
        = CallHandler rawID userHandle k"
      "k (Some (passkey_user user (scan_row row))) = LoginDone (Some cred)"
    and put: "\<forall>tok. \<exists>x s. rc_Set (env_redis env) (w_now w) (sessionKeyPrefix @ tok)
        (RStr (uuid_String (env_uuid env) (user_ID user))) (env_sessionTTL env) rd = (ROk x, s)"
  shows "resp_Status (fst (serve (CompleteLogin env r) w)) = 200
    \<and> resp_Body (fst (serve (CompleteLogin env r) w)) = Some (completeLoginResponse env user)"
proof -
  let ?w1 = "w\<lparr>w_rd := rd\<rparr>"
  have take: "ChallengeStore_Take (env_redis env) sid w = (Inr raw, ?w1)"
    using redis_stores.Take_succeeds [OF stores chal] assms(7,8)
    by (auto simp: ChallengeStore_Take_def redisFetch_Inr)
  have val: "Service_ValidateLogin (env_webauthn env) (resolver (env_webauthn env) parsed) (None, None)
      (login_Session stored) parsed ?w1 = (Inr (cred, (Some user, Some (scan_row row))), ?w1)"
    by (rule ValidateLogin_succeeds [where k = k and rawID = rawID and userHandle = userHandle])
       (use assms(2,3) row lib in \<open>simp_all add: schema_ok_def\<close>)
  obtain l where log: "recordCounterAnomalies (env_uuid env) (scan_row row) cred ?w1
      = (Inr () :: response + unit, ?w1\<lparr>w_log := l\<rparr>)"
    using recordCounterAnomalies_succeeds by blast
  obtain w4 where upd: "CredentialStore_UpdateAfterAssertion (cred_ID (scan_row row)) (au_SignCount (lib_Authenticator cred))
      (fl_BackupEligible (lib_Flags cred)) (fl_BackupState (lib_Flags cred)) (?w1\<lparr>w_log := l\<rparr>) = (Inr (), w4)"
    and w4: "w_rd w4 = rd" "w_now w4 = w_now w" "w_entropy w4 = w_entropy w"
    using UpdateAfterAssertion_succeeds [of "?w1\<lparr>w_log := l\<rparr>" row "au_SignCount (lib_Authenticator cred)"
        "fl_BackupEligible (lib_Flags cred)" "fl_BackupState (lib_Flags cred)"] assms(3) row by auto
  obtain token w5 where create: "SessionStore_Create (env_redis env) (env_uuid env) (env_sessionTTL env) (user_ID user) w4
      = (Inr token, w5)"
    using session_Create_succeeds [of w4 "env_redis env" "env_uuid env" "user_ID user" "env_sessionTTL env"] assms(4) put w4
    by (auto simp: entropy_ok_def)
  let ?w6 = "w5\<lparr>w_header := w_header w5 @ [session_cookie r token (sessionMaxAge env)]\<rparr>"
  obtain w7 where "dropGuest env ''login complete: delete guest'' r ?w6 = (Inr (), w7)"
    using dropGuest_succeeds by blast
  then have "CompleteLogin env r w = (Inr \<lparr>resp_Status = 200, resp_JSON = True, resp_Cookies = w_header w7,
      resp_Body = Some (completeLoginResponse env user), resp_Page = None\<rparr>, w7)"
    using assms(5) take stored parsed val log upd create
    by (simp add: CompleteLogin_def bindE_on exit_simps Service_ParseCredentialAssertion_def)
  then show ?thesis by (simp add: serve_def)
qed

text \<open>
  C11: a good login is not refused. If PostgreSQL is up, Redis answers and there is entropy,
  the challenge is a pending one of the login flow, and the library, asked about the owner of
  the live passkey with the asserted raw id, accepts the assertion, then
  \<open>/login/complete\<close> answers 200 with the profile of that owner.
\<close>

theorem CompleteLogin_available:
  assumes stores: "redis_stores (env_redis env) H (env_uuid env)" and "schema_ok w" and "pg_up w" and "entropy_ok w"
    and "complete_envelope r = Some (sid, body)" and chal: "challenge_at H (w_now w) w sid = Some raw"
    and "rc_GetDel (env_redis env) (w_now w) (challengeKeyPrefix @ sid) (w_rd w) = (reply, rd)" and "reply \<noteq> RErr"
    and stored: "unmarshal_loginSession env raw = Some stored"
    and parsed: "lib_ParseAssertion (env_webauthn env) body = Some parsed"
    and row: "row \<in> set (w_creds w)" "live row" "Some (credential_id row) = pa_RawID (env_webauthn env) parsed"
      "user \<in> set (w_users w)" "user_ID user = user_id row"
    and lib: "lib_ValidateDiscoverableLogin (env_webauthn env) (w_now w) (login_Session stored) parsed
        = CallHandler rawID userHandle k"
      "k (Some (passkey_user user (scan_row row))) = LoginDone (Some cred)"
    and put: "\<forall>tok. \<exists>x s. rc_Set (env_redis env) (w_now w) (sessionKeyPrefix @ tok)
        (RStr (uuid_String (env_uuid env) (user_ID user))) (env_sessionTTL env) rd = (ROk x, s)"
  shows "resp_Status (fst (serve (CompleteLogin env r) w)) = 200
    \<and> resp_Body (fst (serve (CompleteLogin env r) w)) = Some (completeLoginResponse env user)"
  using assms by (rule login_succeeds)

theorem CompleteLogin_available_witness:
  "resp_Status (fst (serve (CompleteLogin toy_env toy_complete) toy_passkey)) = 200"
proof -
  let ?raw = "RDoc (JObj [(''session'', JArr [JNull, JNum ''''])])"
  let ?row = "row_of (UUID [1]) 0 (sample_credential (UUID [9]) [107])"
  let ?stored = "the (unmarshal_loginSession toy_env ?raw)"
  let ?k = "\<lambda>u. LoginDone (case u of None \<Rightarrow> None | Some u \<Rightarrow> (case WebAuthnCredentials u of [] \<Rightarrow> None
      | c # _ \<Rightarrow> Some (c\<lparr>lib_Authenticator := (lib_Authenticator c)\<lparr>au_SignCount :=
          au_SignCount (lib_Authenticator c) + 1\<rparr>\<rparr>)))"
  let ?rd = "rs_remove (challengeKeyPrefix @ ''sid'') (w_rd toy_passkey)"
  have run: "complete_envelope toy_complete = Some (''sid'', JStr ''k'')"
    "challenge_at rs_holds_at (w_now toy_passkey) toy_passkey ''sid'' = Some ?raw"
    "unmarshal_loginSession toy_env ?raw = Some ?stored"
    "lib_ParseAssertion (env_webauthn toy_env) (JStr ''k'') = Some [107]"
    by code_simp+
  have world: "pg_up toy_passkey" "entropy_ok toy_passkey" "rs_script (w_rd toy_passkey) = []"
    by (simp_all add: toy_passkey_def with_challenge_def toy_start_def start_world_def pg_up_def entropy_ok_def)
  have rows: "?row \<in> set (w_creds toy_passkey)" "live ?row" "Some (credential_id ?row) = pa_RawID (env_webauthn toy_env) [107]"
    "sample_user \<in> set (w_users toy_passkey)" "user_ID sample_user = user_id ?row" "schema_ok toy_passkey"
    by (simp_all add: toy_passkey_def with_challenge_def toy_env_def toy_webauthn_def sample_credential_def
        sample_user_def schema_ok_def users_ok_def creds_ok_def)
  have redis: "rc_GetDel (env_redis toy_env) (w_now toy_passkey) (challengeKeyPrefix @ ''sid'') (w_rd toy_passkey) = (ROk ?raw, ?rd)"
    using world(3) run(2) by (rule toy_take)
  have put: "\<forall>tok. \<exists>x s. rc_Set (env_redis toy_env) (w_now toy_passkey) (sessionKeyPrefix @ tok)
        (RStr (uuid_String (env_uuid toy_env) (user_ID sample_user))) (env_sessionTTL toy_env) ?rd = (ROk x, s)"
    using world(3) by (simp add: toy_redis)
  have lib: "lib_ValidateDiscoverableLogin (env_webauthn toy_env) (w_now toy_passkey) (login_Session ?stored) [107]
        = CallHandler (Some [107]) None ?k"
    "?k (Some (passkey_user sample_user (scan_row ?row))) = LoginDone (Some (the (case
        ?k (Some (passkey_user sample_user (scan_row ?row))) of LoginDone c \<Rightarrow> c | _ \<Rightarrow> None)))"
    by (simp_all add: toy_env_def toy_webauthn_def toy_login_def passkey_user_def WebAuthnCredentials_def)
  show ?thesis
    by (rule CompleteLogin_available [OF toy_stores rows(6) world(1,2) run(1,2) redis _ run(3,4) rows(1-5) lib put, THEN conjunct1]) simp
qed

section \<open>From login to use\<close>

lemma Me_available:
  assumes stores: "redis_stores (env_redis (srv_auth s)) H (env_uuid (srv_auth s))"
    and "cookie_value SessionCookieName r = Some tok"
    and owner: "session_owner H (env_uuid (srv_auth s)) (w_now w) w tok = Some (user_ID v)"
    and "fst (rc_Get (env_redis (srv_auth s)) (w_now w) (sessionKeyPrefix @ tok) (w_rd w)) \<noteq> RErr"
    and "pg_up w" and "users_ok (w_users w)" and "v \<in> set (w_users w)"
  shows "fst (serve (endpoint_handler s EpMe r) w)
    = \<lparr>resp_Status = 200, resp_JSON = True, resp_Cookies = w_header w,
       resp_Body = Some (meResponse (env_uuid (srv_auth s)) v), resp_Page = None\<rparr>"
proof -
  obtain rd where "SessionStore_Get (env_redis (srv_auth s)) (env_uuid (srv_auth s)) tok w = (Inr (user_ID v), w\<lparr>w_rd := rd\<rparr>)"
    using redis_stores.session_Get_succeeds [OF stores owner assms(4)] by blast
  moreover have "UserStore_GetByID (user_ID v) (w\<lparr>w_rd := rd\<rparr>) = (Inr v, w\<lparr>w_rd := rd\<rparr>)"
    by (rule GetByID_succeeds) (use assms(5-7) in simp_all)
  ultimately show ?thesis
    using assms(2)
    by (simp add: requireSession_def RequireSession_eq Me_def requireUser_ctx serve_def bindE_def catchE_def ret_def
        writeJSON_def getE_def)
qed

text \<open>
  C12: a session works as long as it lives. After a login that answered 200, in every state
  before the session's time to live has passed in which the key of this very token is as the
  login left it (nobody logged out with it) and the user's row is there, and whatever else
  has happened to Redis and to the tables: with PostgreSQL up and Redis answering, a request
  to \<open>/users/me\<close> with the token of the cookie that the login set answers 200 with the profile
  that the user who logged in has at that moment.
\<close>

theorem login_then_me:
  assumes stores: "redis_stores (env_redis (srv_auth s)) H (env_uuid (srv_auth s))"
    and ttls: "ttls_positive (srv_auth s)"
    and login: "serve (endpoint_handler s EpCompleteLogin r) w = (resp, w1)" "resp_Status resp = 200"
  shows "\<exists>user token. session_cookie r token (sessionMaxAge (srv_auth s)) \<in> set (resp_Cookies resp)
    \<and> resp_Body resp = Some (completeLoginResponse (srv_auth s) user) \<and> user \<in> set (w_users w)
    \<and> (\<forall>w2 v r'. w_now w \<le> w_now w2 \<and> w_now w2 < w_now w + env_sessionTTL (srv_auth s)
       \<and> session_owner H (env_uuid (srv_auth s)) (w_now w2) w2 token
           = session_owner H (env_uuid (srv_auth s)) (w_now w2) w1 token
       \<and> users_ok (w_users w2) \<and> v \<in> set (w_users w2) \<and> user_ID v = user_ID user \<and> pg_up w2
       \<and> fst (rc_Get (env_redis (srv_auth s)) (w_now w2) (sessionKeyPrefix @ token) (w_rd w2)) \<noteq> RErr
       \<and> cookie_value SessionCookieName r' = Some token
       \<longrightarrow> resp_Status (fst (serve (endpoint_handler s EpMe r') w2)) = 200
         \<and> resp_Body (fst (serve (endpoint_handler s EpMe r') w2)) = Some (meResponse (env_uuid (srv_auth s)) v))"
proof -
  have "serve (CompleteLogin (srv_auth s) r) w = (resp, w1)" using login(1) by simp
  then obtain user and row :: cred_row and token where user: "user \<in> set (w_users w)" "user_ID user = user_id row"
    and owner: "\<forall>t \<ge> w_now w. session_owner H (env_uuid (srv_auth s)) t w1 =
         (session_owner H (env_uuid (srv_auth s)) t w)(token :=
            if t < w_now w + env_sessionTTL (srv_auth s) then Some (user_id row) else None)"
    and out: "resp_Body resp = Some (completeLoginResponse (srv_auth s) user)"
      "resp_Cookies resp = w_header w @ [session_cookie r token (sessionMaxAge (srv_auth s))] @ dropped_guest r"
    by (rule login_run [OF stores _ login(2) ttls]) blast
  have me: "fst (serve (endpoint_handler s EpMe r') w2) = \<lparr>resp_Status = 200, resp_JSON = True, resp_Cookies = w_header w2,
       resp_Body = Some (meResponse (env_uuid (srv_auth s)) v), resp_Page = None\<rparr>"
    if "w_now w \<le> w_now w2" "w_now w2 < w_now w + env_sessionTTL (srv_auth s)"
      "session_owner H (env_uuid (srv_auth s)) (w_now w2) w2 token
         = session_owner H (env_uuid (srv_auth s)) (w_now w2) w1 token"
      "users_ok (w_users w2)" "v \<in> set (w_users w2)" "user_ID v = user_ID user" "pg_up w2"
      "fst (rc_Get (env_redis (srv_auth s)) (w_now w2) (sessionKeyPrefix @ token) (w_rd w2)) \<noteq> RErr"
      "cookie_value SessionCookieName r' = Some token" for w2 v r'
    by (rule Me_available [OF stores that(9) _ that(8,7,4,5)]) (use owner that(1-3,6) user(2) in simp)
  show ?thesis
    by (rule exI [of _ user], rule exI [of _ token]) (use out user(1) me in auto)
qed

text \<open>
  One second before the session ends, after another user has come and another challenge has
  been stored.
\<close>

definition toy_much_later :: "rserver world" where
  "toy_much_later = (with_challenge JNull (snd (serve (endpoint_handler toy_server EpCompleteLogin toy_complete) toy_passkey)))
     \<lparr>w_now := 999, w_users := [sample_user\<lparr>user_ID := UUID [8], Username := ''bob''\<rparr>, sample_user]\<rparr>"

theorem login_then_me_witness:
  "\<exists>token. session_cookie toy_complete token 86400
        \<in> set (resp_Cookies (fst (serve (endpoint_handler toy_server EpCompleteLogin toy_complete) toy_passkey)))
    \<and> (\<forall>r'. cookie_value SessionCookieName r' = Some token \<longrightarrow>
         resp_Status (fst (serve (endpoint_handler toy_server EpMe r') toy_much_later)) = 200)"
proof -
  let ?w1 = "snd (serve (endpoint_handler toy_server EpCompleteLogin toy_complete) toy_passkey)"
  have run: "resp_Status (fst (serve (endpoint_handler toy_server EpCompleteLogin toy_complete) toy_passkey)) = 200"
    "w_pg ?w1 = []" "rs_script (w_rd ?w1) = []" "w_now toy_passkey = 0" "w_users toy_passkey = [sample_user]"
    "env_sessionTTL (srv_auth toy_server) = 1000" "sessionMaxAge (srv_auth toy_server) = 86400"
    by code_simp+
  have ttls: "ttls_positive (srv_auth toy_server)" by (simp add: toy_server_def)
  have later: "w_now toy_much_later = 999" "pg_up toy_much_later" "rs_script (w_rd toy_much_later) = []"
    "users_ok (w_users toy_much_later)" "sample_user \<in> set (w_users toy_much_later)"
    using run(2,3) by (simp_all add: toy_much_later_def with_challenge_def pg_up_def users_ok_def)
  have get: "fst (rc_Get (env_redis (srv_auth toy_server)) 999 k (w_rd toy_much_later)) \<noteq> RErr" for k
    using later(3) by (simp add: toy_server_def toy_redis rs_lookup_def split: option.split)
  have owner: "session_owner rs_holds_at L 999 toy_much_later tok = session_owner rs_holds_at L 999 ?w1 tok" for L tok
    by (simp add: toy_much_later_def with_challenge_def session_owner_def token_owner_def rs_holds_at_def rs_put_def
        sessionKeyPrefix_def challengeKeyPrefix_def)
  obtain user token where cookie: "session_cookie toy_complete token 86400
        \<in> set (resp_Cookies (fst (serve (endpoint_handler toy_server EpCompleteLogin toy_complete) toy_passkey)))"
    and user: "user \<in> set (w_users toy_passkey)"
    and served: "\<And>w2 v r'. w_now toy_passkey \<le> w_now w2 \<and> w_now w2 < w_now toy_passkey + env_sessionTTL (srv_auth toy_server)
       \<and> session_owner rs_holds_at (env_uuid (srv_auth toy_server)) (w_now w2) w2 token
           = session_owner rs_holds_at (env_uuid (srv_auth toy_server)) (w_now w2) ?w1 token
       \<and> users_ok (w_users w2) \<and> v \<in> set (w_users w2) \<and> user_ID v = user_ID user \<and> pg_up w2
       \<and> fst (rc_Get (env_redis (srv_auth toy_server)) (w_now w2) (sessionKeyPrefix @ token) (w_rd w2)) \<noteq> RErr
       \<and> cookie_value SessionCookieName r' = Some token
       \<Longrightarrow> resp_Status (fst (serve (endpoint_handler toy_server EpMe r') w2)) = 200"
    using login_then_me [OF toy_server_stores ttls surjective_pairing run(1)] run(7) by metis
  have "resp_Status (fst (serve (endpoint_handler toy_server EpMe r') toy_much_later)) = 200"
    if "cookie_value SessionCookieName r' = Some token" for r'
    by (rule served [of toy_much_later sample_user]) (use that later get owner run user in simp)
  with cookie show ?thesis by blast
qed

end
