(* ===== verification/Account_Lifecycle.thy ===== *)
theory Account_Lifecycle
  imports Session_Lifecycle Guest_Properties
begin

text \<open>
  Whole lives of an account: a guest whose promotion meets every precondition is promoted, and
  a passkey that was registered is presented to the library, at a login, as the credential
  that the library verified at its registration, so that its owner gets in.
\<close>

section \<open>Promotion\<close>

lemma PromoteGuest_succeeds:
  assumes "pg_up w" and "users_ok (w_users w)" and "g \<in> set (w_users w)" "IsGuest g"
    and "\<not> username_taken (w_users w) n"
  shows "UserStore_PromoteGuest (user_ID g) n d w = (Inr (promote_row n d (w_now w) g),
    w\<lparr>w_users := update_where (\<lambda>u. user_ID u = user_ID g \<and> IsGuest u) (promote_row n d (w_now w)) (w_users w)\<rparr>)"
proof -
  have "find (\<lambda>u. user_ID u = user_ID g \<and> IsGuest u) (w_users w) = Some g"
    by (rule find_only) (use assms(2-4) in \<open>auto simp: users_ok_def dest: distinct_keyD\<close>)
  then show ?thesis
    using assms(1,5)
    by (simp add: UserStore_PromoteGuest_def scanUser_def act_defs pg_stmt_up update_promote_def)
qed

text \<open>
  C15: a good promotion is not refused. If PostgreSQL is up and hands out an unused id, Redis
  answers and there is entropy, the challenge is a pending one of the promotion flow, its guest is
  still a guest, the library accepts the attestation and both policies do, the username and
  the credential id are not taken, and handle, credential id and public key are there (not
  nil), then \<open>/promote/complete\<close> answers 200 with the profile of the guest's row under its
  new names.
\<close>

theorem CompletePromote_available:
  assumes stores: "redis_stores (env_redis env) H (env_uuid env)" and users: "users_ok (w_users w)" and "pg_up w"
    and "entropy_ok w"
    and "complete_envelope r = Some (sid, body)" and chal: "challenge_at H (w_now w) w sid = Some raw"
    and "rc_GetDel (env_redis env) (w_now w) (challengeKeyPrefix @ sid) (w_rd w) = (reply, rd)" and "reply \<noteq> RErr"
    and stored: "unmarshal_registrationSession env raw = Some stored" "reg_Promote stored"
    and lib: "lib_ParseCreation (env_webauthn env) body = Some parsed"
      "lib_CreateCredential (env_webauthn env) (w_now w) (stored_user env stored) (reg_Session stored) parsed = Some cred"
    and policy: "IsAcceptedAttestation (lib_AttestationFormat cred)" "IsAcceptedAttestationType (lib_AttestationType cred)"
    and aaguid: "length (au_AAGUID (lib_Authenticator cred)) \<in> {0, 16}"
    and nonnil: "lib_ID cred \<noteq> None" "lib_PublicKey cred \<noteq> None"
      "sess_UserID (env_webauthn env) (reg_Session stored) \<noteq> None"
    and guest: "g \<in> set (w_users w)" "IsGuest g" "user_ID g = reg_PromoteUserID stored"
      "\<not> username_taken (w_users w) (reg_Username stored)"
    and new: "\<forall>row \<in> set (w_creds w). live row \<longrightarrow> Some (credential_id row) \<noteq> lib_ID cred"
      "w_genuuid w (w_upos w) \<notin> row_id ` set (w_creds w)"
    and put: "\<forall>tok. \<exists>x s. rc_Set (env_redis env) (w_now w) (sessionKeyPrefix @ tok)
        (RStr (uuid_String (env_uuid env) (user_ID g))) (env_sessionTTL env) rd = (ROk x, s)"
  shows "resp_Status (fst (serve (CompletePromote env r) w)) = 200
    \<and> resp_Body (fst (serve (CompletePromote env r) w)) = Some (completeLoginResponse env
        (promote_row (reg_Username stored) (reg_DisplayName stored) (w_now w) g))"
proof -
  let ?w1 = "w\<lparr>w_rd := rd\<rparr>"
  let ?promoted = "promote_row (reg_Username stored) (reg_DisplayName stored) (w_now w) g"
  have take: "ChallengeStore_Take (env_redis env) sid w = (Inr raw, ?w1)"
    using redis_stores.Take_succeeds [OF stores chal] assms(7,8)
    by (auto simp: ChallengeStore_Take_def redisFetch_Inr)
  have ver: "verifyAttestation env m1 m2 (stored_user env stored) (reg_Session stored) body ?w1 = (Inr cred, ?w1)" for m1 m2
    using lib policy by (intro verifyAttestation_succeeds) (simp_all add: checkAttestationPolicy_def)
  let ?w2 = "?w1\<lparr>w_users := update_where (\<lambda>u. user_ID u = user_ID g \<and> IsGuest u)
      (promote_row (reg_Username stored) (reg_DisplayName stored) (w_now w)) (w_users w)\<rparr>"
  have promote: "UserStore_PromoteGuest (reg_PromoteUserID stored) (reg_Username stored) (reg_DisplayName stored) ?w1
      = (Inr ?promoted, ?w2)"
    using PromoteGuest_succeeds [of ?w1 g "reg_Username stored" "reg_DisplayName stored"] users \<open>pg_up w\<close> guest
    by (simp add: pg_up_def)
  have up2: "pg_up ?w2" and known: "user_ID g \<in> user_ID ` set (w_users ?w2)"
    using \<open>pg_up w\<close> guest(1) by (simp_all add: pg_up_def promote_ids)
  obtain dc where dc: "domainCredentialFromLib (env_uuid env) (user_ID ?promoted) (Handle (stored_user env stored)) cred = Some dc"
    using domainCredentialFromLib_succeeds [OF redis_stores.uuids [OF stores] aaguid] by blast
  have "not_null dc"
    using nonnil domainCredentialFromLib_Some [OF dc] by (simp add: not_null_def stored_user_def)
  then obtain saved w3 where ins: "CredentialStore_Insert dc ?w2 = (Inr saved, w3)"
    using Insert_succeeds [OF up2, of dc] new known domainCredentialFromLib_Some [OF dc] by auto
  have w3: "w_rd w3 = w_rd ?w2" "w_now w3 = w_now ?w2" "w_entropy w3 = w_entropy ?w2"
    using ins by (rule keepsD [rotated], intro keeps_rules; simp)+
  obtain token w4 where create: "SessionStore_Create (env_redis env) (env_uuid env) (env_sessionTTL env) (user_ID ?promoted) w3
      = (Inr token, w4)"
    using session_Create_succeeds [of w3 "env_redis env" "env_uuid env" "user_ID ?promoted" "env_sessionTTL env"]
      \<open>entropy_ok w\<close> put w3 by (auto simp: entropy_ok_def)
  obtain w5 where drop: "dropGuest env ''promote complete: delete guest'' r w4 = (Inr (), w5)"
    using dropGuest_succeeds by blast
  have "CompletePromote env r w = (Inr \<lparr>resp_Status = 200, resp_JSON = True,
      resp_Cookies = w_header w5 @ [session_cookie r token (sessionMaxAge env)],
      resp_Body = Some (completeLoginResponse env ?promoted), resp_Page = None\<rparr>,
      w5\<lparr>w_header := w_header w5 @ [session_cookie r token (sessionMaxAge env)]\<rparr>)"
    using assms(5) take stored ver promote dc ins create drop
    by (simp add: CompletePromote_def bindE_on exit_simps stored_user_def [symmetric] Let_def)
  then show ?thesis by (simp add: serve_def)
qed

theorem CompletePromote_available_witness:
  "resp_Status (fst (serve (CompletePromote toy_env toy_complete) toy_promoting)) = 200
   \<and> resp_Body (fst (serve (CompletePromote toy_env toy_complete) toy_promoting))
       = Some (completeLoginResponse toy_env (promote_row ''carol'' ''Shown'' 0 toy_guest))"
proof -
  let ?raw = "RDoc (toy_payload ''carol'' (UUID [5]) True)"
  let ?stored = "the (unmarshal_registrationSession toy_env ?raw)"
  let ?rd = "rs_remove (challengeKeyPrefix @ ''sid'') (w_rd toy_promoting)"
  have run: "complete_envelope toy_complete = Some (''sid'', JStr ''k'')"
    "challenge_at rs_holds_at (w_now toy_promoting) toy_promoting ''sid'' = Some ?raw"
    "unmarshal_registrationSession toy_env ?raw = Some ?stored" "reg_Promote ?stored"
    "lib_ParseCreation (env_webauthn toy_env) (JStr ''k'') = Some (0, [107])"
    "lib_CreateCredential (env_webauthn toy_env) (w_now toy_promoting) (stored_user toy_env ?stored) (reg_Session ?stored) (0, [107])
       = Some (toy_credential [107])"
    and names: "reg_Username ?stored = ''carol''" "reg_DisplayName ?stored = ''Shown''"
      "user_ID toy_guest = reg_PromoteUserID ?stored" "w_now toy_promoting = 0"
    and policy: "IsAcceptedAttestation (lib_AttestationFormat (toy_credential [107]))"
      "IsAcceptedAttestationType (lib_AttestationType (toy_credential [107]))"
    by code_simp+
  have world: "users_ok (w_users toy_promoting)" "pg_up toy_promoting" "entropy_ok toy_promoting"
    and guest: "toy_guest \<in> set (w_users toy_promoting)" "IsGuest toy_guest"
      "\<not> username_taken (w_users toy_promoting) (reg_Username ?stored)" "w_creds toy_promoting = []"
    and ok: "rs_script (w_rd toy_promoting) = []"
    by (simp_all add: toy_promoting_def with_challenge_def toy_start_def start_world_def pg_up_def entropy_ok_def
        users_ok_def toy_guest_def username_taken_def)
  have redis: "rc_GetDel (env_redis toy_env) (w_now toy_promoting) (challengeKeyPrefix @ ''sid'') (w_rd toy_promoting) = (ROk ?raw, ?rd)"
    using ok run(2) by (rule toy_take)
  have put: "\<forall>tok. \<exists>x s. rc_Set (env_redis toy_env) (w_now toy_promoting) (sessionKeyPrefix @ tok)
        (RStr (uuid_String (env_uuid toy_env) (user_ID toy_guest))) (env_sessionTTL toy_env) ?rd = (ROk x, s)"
    using ok by (simp add: toy_redis)
  have cred: "length (au_AAGUID (lib_Authenticator (toy_credential [107]))) \<in> {0, 16}"
    "lib_ID (toy_credential [107]) \<noteq> None" "lib_PublicKey (toy_credential [107]) \<noteq> None"
    by (simp_all add: toy_credential_def)
  have handle: "sess_UserID (env_webauthn toy_env) (reg_Session ?stored) \<noteq> None" by code_simp
  from CompletePromote_available [OF toy_stores world run(1,2) redis _ run(3-6) policy cred handle guest(1,2) names(3) guest(3) _ _ put]
  show ?thesis
    using guest(4) names by simp
qed

section \<open>From registration to login\<close>

text \<open>
  What the resolver of a login hands to the library for a passkey row is what the library
  verified when the row was made, without the attestation type and format.
\<close>

lemma FromBytes_bytes: "uuid_lib_ok L \<Longrightarrow> uuid_FromBytes L bs = Some i \<Longrightarrow> uuid_bytes i = bs"
  by (auto simp: uuid_lib_ok_def split: if_splits)

lemma domainCredential_round_trip:
  assumes "uuid_lib_ok L" and "domainCredentialFromLib L u h cred = Some dc" and "not_null dc"
  shows "libCredentialFromDomain (scan_row (row_of i now dc))
    = cred\<lparr>lib_AttestationType := '''', lib_AttestationFormat := ''''\<rparr>"
  using assms(2,3)
  by (auto simp: domainCredentialFromLib_def libCredentialFromDomain_def scan_row_of Let_def
      intro!: lib_credential.equality credential_flags.equality authenticator.equality
      dest: FromBytes_bytes [OF assms(1)] split: if_splits)

text \<open>The two rows that a registration made.\<close>

lemma registered_rows:
  assumes stores: "redis_stores (env_redis env) H (env_uuid env)"
    and reg: "serve (CompleteRegister env r) w = (resp, w')" "resp_Status resp = 200"
    and lib: "complete_envelope r = Some (sid, body)" "challenge_at H (w_now w) w sid = Some raw"
      "unmarshal_registrationSession env raw = Some stored" "lib_ParseCreation (env_webauthn env) body = Some parsed"
      "lib_CreateCredential (env_webauthn env) (w_now w) (stored_user env stored) (reg_Session stored) parsed = Some cred"
  obtains user row where "w_users w' = w_users w @ [user]" and "user_ID user \<notin> user_ID ` set (w_users w)"
    and "Username user = reg_Username stored" and "DisplayName user = reg_DisplayName stored"
    and "w_creds w' = w_creds w @ [row]" and "live row" and "Some (credential_id row) = lib_ID cred" and "user_ID user = user_id row"
    and "row_id row \<notin> row_id ` set (w_creds w)"
    and "sign_count row = ucast (au_SignCount (lib_Authenticator cred))"
    and "backup_eligible row = fl_BackupEligible (lib_Flags cred)" and "backup_state row = fl_BackupState (lib_Flags cred)"
    and "passkey_user user (scan_row row) = (stored_user env stored)\<lparr>wa_Credentials :=
          Some [cred\<lparr>lib_AttestationType := '''', lib_AttestationFormat := ''''\<rparr>]\<rparr>"
proof -
  have "CompleteRegister env r w = (Inr resp, w')"
    by (rule serve_success [OF reg(1)]) (simp_all add: handlers_reject reg)
  then show thesis
  proof (rule CompleteRegister_on)
    fix sid' body' raw' w1 stored' parsed' c user w2 dc saved
    assume h: "complete_envelope r = Some (sid', body')" "ChallengeStore_Take (env_redis env) sid' w = (Inr raw', w1)"
      "unmarshal_registrationSession env raw' = Some stored'" "lib_ParseCreation (env_webauthn env) body' = Some parsed'"
      "lib_CreateCredential (env_webauthn env) (w_now w1) (stored_user env stored') (reg_Session stored') parsed' = Some c"
      "UserStore_CreateRegistered (reg_Username stored') (reg_DisplayName stored') w1 = (Inr user, w2)"
      "domainCredentialFromLib (env_uuid env) (user_ID user) (Handle (stored_user env stored')) c = Some dc"
      "CredentialStore_Insert dc w2 = (Inr saved, w')"
    have now: "w_now w1 = w_now w" "w_users w1 = w_users w" "w_creds w1 = w_creds w"
      by (rule keepsD [OF keeps_redis_stores(6) h(2)]; simp)+
    moreover have "raw' = raw"
      using redis_stores.Take_Inr [OF stores h(2)] h(1) lib(1,2) by auto
    ultimately have same: "stored' = stored" "c = cred"
      using h lib by simp_all
    note user = CreateRegistered_Inr [OF h(6)] and dc = domainCredentialFromLib_Some [OF h(7)]
    obtain row where row: "w_creds w' = w_creds w2 @ [row]" "w_users w' = w_users w2" "row = row_of (row_id row) (w_now w2) dc"
      and null: "not_null dc" and new: "row_id row \<notin> row_id ` set (w_creds w2)"
      using h(8) by (rule Insert_Inr)
    have row_facts: "live row" "Some (credential_id row) = lib_ID cred" "user_id row = user_ID user"
      "WebAuthnUserHandle (scan_row row) = Handle (stored_user env stored)"
      by (subst row(3), use null in \<open>simp add: dc same scan_row_of; simp add: not_null_def dc same\<close>)+
    have used_facts: "sign_count row = ucast (au_SignCount (lib_Authenticator cred))"
      "backup_eligible row = fl_BackupEligible (lib_Flags cred)" "backup_state row = fl_BackupState (lib_Flags cred)"
      by (subst row(3), simp add: row_of_def dc same)+
    have "libCredentialFromDomain (scan_row row) = cred\<lparr>lib_AttestationType := '''', lib_AttestationFormat := ''''\<rparr>"
      using domainCredential_round_trip [OF redis_stores.uuids [OF stores] h(7) null] row(3) same by metis
    then have offered: "passkey_user user (scan_row row) = (stored_user env stored)\<lparr>wa_Credentials :=
          Some [cred\<lparr>lib_AttestationType := '''', lib_AttestationFormat := ''''\<rparr>]\<rparr>"
      using row_facts user same by (simp add: passkey_user_def stored_user_def)
    show thesis
      by (rule that [OF _ _ _ _ _ row_facts(1,2) row_facts(3) [symmetric] _ used_facts offered])
         (use user row(1,2) same now new in auto)
  qed
qed

text \<open>What a login leaves of a passkey row is offered to the library with the new counter and flags.\<close>

lemma libCredential_used:
  "libCredentialFromDomain (scan_row (row\<lparr>sign_count := ucast (n :: 32 word), backup_eligible := be,
      backup_state := bs, row_name := nm, last_used_at := t\<rparr>))
   = (libCredentialFromDomain (scan_row row))\<lparr>lib_Flags := \<lparr>fl_BackupEligible = be, fl_BackupState = bs\<rparr>,
      lib_Authenticator := (lib_Authenticator (libCredentialFromDomain (scan_row row)))\<lparr>au_SignCount := n\<rparr>\<rparr>"
  by (simp add: libCredentialFromDomain_def scan_row_def unsigned_ucast_eq take_bit_word_eq_self)

text \<open>
  A moment at which a login can be completed: the stores and the random source work, and the
  request names a pending challenge of the login flow and carries an assertion that parses.
\<close>

definition login_ready ::
  "('rd, 'sess, 'pc, 'pa) auth_env \<Rightarrow> (time \<Rightarrow> 'rd \<Rightarrow> string \<Rightarrow> rval option) \<Rightarrow> 'rd world
    \<Rightarrow> request \<Rightarrow> 'sess loginSession \<Rightarrow> 'pa \<Rightarrow> bool" where
  "login_ready env H w r login parsed \<longleftrightarrow>
     schema_ok w \<and> pg_up w \<and> entropy_ok w
   \<and> (\<exists>sid body raw reply rd. complete_envelope r = Some (sid, body)
       \<and> challenge_at H (w_now w) w sid = Some raw
       \<and> rc_GetDel (env_redis env) (w_now w) (challengeKeyPrefix @ sid) (w_rd w) = (reply, rd) \<and> reply \<noteq> RErr
       \<and> unmarshal_loginSession env raw = Some login
       \<and> lib_ParseAssertion (env_webauthn env) body = Some parsed
       \<and> (\<forall>u tok. \<exists>x s. rc_Set (env_redis env) (w_now w) (sessionKeyPrefix @ tok)
            (RStr (uuid_String (env_uuid env) u)) (env_sessionTTL env) rd = (ROk x, s)))"

text \<open>
  C13: who registers can log in. Let \<open>/register/complete\<close> have answered 200 for a credential
  \<open>cred\<close> that the library verified: it made one user and one passkey row, with the counter
  and the flags of \<open>cred\<close>. Then in every later state in which that user row is unchanged and
  that passkey row is unchanged but for what logins and renaming write (counter, flags, time
  of last use, name), and whatever else happened to the other rows and to Redis, a login
  with a pending challenge and an assertion for the id of \<open>cred\<close> answers 200 with the
  identity that registered, provided that the library accepts the assertion for that very
  credential, with its id, public key, transports and AAGUID and the row's present counter
  and flags, under the handle and the names of the registration, and that PostgreSQL, Redis
  and the random source work.
\<close>

theorem register_then_login:
  assumes stores: "redis_stores (env_redis env) H (env_uuid env)"
    and reg: "serve (CompleteRegister env r1) w = (resp1, w1)" "resp_Status resp1 = 200"
    and reg_lib: "complete_envelope r1 = Some (sid1, body1)" "challenge_at H (w_now w) w sid1 = Some raw1"
      "unmarshal_registrationSession env raw1 = Some reg" "lib_ParseCreation (env_webauthn env) body1 = Some created"
      "lib_CreateCredential (env_webauthn env) (w_now w) (stored_user env reg) (reg_Session reg) created = Some cred"
  shows "\<exists>user row. w_users w1 = w_users w @ [user] \<and> user_ID user \<notin> user_ID ` set (w_users w)
    \<and> Username user = reg_Username reg \<and> DisplayName user = reg_DisplayName reg
    \<and> w_creds w1 = w_creds w @ [row] \<and> row_id row \<notin> row_id ` set (w_creds w)
    \<and> sign_count row = ucast (au_SignCount (lib_Authenticator cred))
    \<and> backup_eligible row = fl_BackupEligible (lib_Flags cred) \<and> backup_state row = fl_BackupState (lib_Flags cred)
    \<and> (\<forall>w2 r2 login parsed n be bs nm t rawID userHandle k cred2.
         login_ready env H w2 r2 login parsed \<and> pa_RawID (env_webauthn env) parsed = lib_ID cred
       \<and> user \<in> set (w_users w2)
       \<and> row\<lparr>sign_count := ucast (n :: 32 word), backup_eligible := be, backup_state := bs, row_name := nm, last_used_at := t\<rparr>
           \<in> set (w_creds w2)
       \<and> lib_ValidateDiscoverableLogin (env_webauthn env) (w_now w2) (login_Session login) parsed = CallHandler rawID userHandle k
       \<and> k (Some ((stored_user env reg)\<lparr>wa_Credentials := Some [cred\<lparr>lib_AttestationType := '''', lib_AttestationFormat := '''',
             lib_Flags := \<lparr>fl_BackupEligible = be, fl_BackupState = bs\<rparr>,
             lib_Authenticator := (lib_Authenticator cred)\<lparr>au_SignCount := n\<rparr>\<rparr>]\<rparr>)) = LoginDone (Some cred2)
       \<longrightarrow> resp_Status (fst (serve (CompleteLogin env r2) w2)) = 200
         \<and> resp_Body (fst (serve (CompleteLogin env r2) w2)) = Some (completeLoginResponse env user))"
proof -
  obtain user row where user: "w_users w1 = w_users w @ [user]" "user_ID user \<notin> user_ID ` set (w_users w)"
      "Username user = reg_Username reg" "DisplayName user = reg_DisplayName reg"
    and row: "w_creds w1 = w_creds w @ [row]" "live row" "Some (credential_id row) = lib_ID cred" "user_ID user = user_id row"
      "row_id row \<notin> row_id ` set (w_creds w)" "sign_count row = ucast (au_SignCount (lib_Authenticator cred))"
      "backup_eligible row = fl_BackupEligible (lib_Flags cred)" "backup_state row = fl_BackupState (lib_Flags cred)"
    and offered: "passkey_user user (scan_row row) = (stored_user env reg)\<lparr>wa_Credentials :=
          Some [cred\<lparr>lib_AttestationType := '''', lib_AttestationFormat := ''''\<rparr>]\<rparr>"
    using stores reg reg_lib by (rule registered_rows)
  let ?used = "\<lambda>n be bs nm t. row\<lparr>sign_count := ucast (n :: 32 word), backup_eligible := be, backup_state := bs,
      row_name := nm, last_used_at := t\<rparr>"
  have used: "passkey_user user (scan_row (?used n be bs nm t)) = (stored_user env reg)\<lparr>wa_Credentials :=
      Some [cred\<lparr>lib_AttestationType := '''', lib_AttestationFormat := '''',
        lib_Flags := \<lparr>fl_BackupEligible = be, fl_BackupState = bs\<rparr>,
        lib_Authenticator := (lib_Authenticator cred)\<lparr>au_SignCount := n\<rparr>\<rparr>]\<rparr>" for n be bs nm t
  proof -
    have lib: "libCredentialFromDomain (scan_row row) = cred\<lparr>lib_AttestationType := '''', lib_AttestationFormat := ''''\<rparr>"
      using offered by (simp add: passkey_user_def stored_user_def)
    have handle: "WebAuthnUserHandle (scan_row (?used n be bs nm t)) = WebAuthnUserHandle (scan_row row)"
      by (simp add: scan_row_def)
    show ?thesis
      using offered by (simp add: passkey_user_def stored_user_def libCredential_used lib handle)
  qed
  have served: "resp_Status (fst (serve (CompleteLogin env r2) w2)) = 200
      \<and> resp_Body (fst (serve (CompleteLogin env r2) w2)) = Some (completeLoginResponse env user)"
    if ready: "login_ready env H w2 r2 login parsed" and raw: "pa_RawID (env_webauthn env) parsed = lib_ID cred"
      and rows: "user \<in> set (w_users w2)" "?used n be bs nm t \<in> set (w_creds w2)"
      and val: "lib_ValidateDiscoverableLogin (env_webauthn env) (w_now w2) (login_Session login) parsed = CallHandler rawID userHandle k"
        "k (Some (passkey_user user (scan_row (?used n be bs nm t)))) = LoginDone (Some cred2)"
    for w2 r2 login parsed n be bs nm t rawID userHandle k cred2
  proof -
    have facts: "live (?used n be bs nm t)" "Some (credential_id (?used n be bs nm t)) = pa_RawID (env_webauthn env) parsed"
      "user_ID user = user_id (?used n be bs nm t)"
      using row raw by (simp_all add: live_def)
    from ready obtain sid body raw2 reply rd where chal: "complete_envelope r2 = Some (sid, body)"
        "challenge_at H (w_now w2) w2 sid = Some raw2"
        "rc_GetDel (env_redis env) (w_now w2) (challengeKeyPrefix @ sid) (w_rd w2) = (reply, rd)" "reply \<noteq> RErr"
        "unmarshal_loginSession env raw2 = Some login" "lib_ParseAssertion (env_webauthn env) body = Some parsed"
      and put: "\<forall>u tok. \<exists>x s. rc_Set (env_redis env) (w_now w2) (sessionKeyPrefix @ tok)
            (RStr (uuid_String (env_uuid env) u)) (env_sessionTTL env) rd = (ROk x, s)"
      and up: "schema_ok w2" "pg_up w2" "entropy_ok w2"
      by (auto simp: login_ready_def)
    show ?thesis
      by (rule login_succeeds [OF stores up chal rows(2) facts(1,2) rows(1) facts(3) val spec [OF put]])
  qed
  show ?thesis
    by (intro exI [of _ user] exI [of _ row] conjI user row allI, rule impI, elim conjE,
        rule served [unfolded used]) assumption+
qed

text \<open>A registration, and a challenge of \<open>/login/begin\<close> after it.\<close>

definition toy_registering :: "rserver world" where
  "toy_registering = with_challenge (toy_payload ''alice'' uuid_Nil False) toy_start"

definition toy_returning :: "rserver world" where
  "toy_returning = with_challenge (JObj [(''session'', JArr [JNull, JNum ''''])])
     (snd (serve (CompleteRegister toy_env toy_complete) toy_registering))"

text \<open>
  Later: another user has come, with a passkey, and the passkey of the first has been used
  and named.
\<close>

definition toy_used_row :: "cred_row \<Rightarrow> cred_row" where
  "toy_used_row row = row\<lparr>sign_count := ucast (7 :: 32 word), backup_eligible := True, backup_state := False,
     row_name := Some ''phone'', last_used_at := Some 3\<rparr>"

definition toy_later :: "rserver world" where
  "toy_later = toy_returning\<lparr>w_users := w_users toy_returning @ [sample_user\<lparr>Username := ''bob''\<rparr>],
     w_creds := map toy_used_row (w_creds toy_returning) @ [row_of (UUID [1]) 0 (sample_credential (UUID [9]) [1])]\<rparr>"

theorem register_then_login_witness:
  "\<exists>user. Username user = ''alice''
    \<and> resp_Status (fst (serve (CompleteLogin toy_env toy_complete) toy_later)) = 200
    \<and> resp_Body (fst (serve (CompleteLogin toy_env toy_complete) toy_later)) = Some (completeLoginResponse toy_env user)"
proof -
  let ?raw = "RDoc (toy_payload ''alice'' uuid_Nil False)"
  let ?reg = "the (unmarshal_registrationSession toy_env ?raw)"
  let ?raw2 = "RDoc (JObj [(''session'', JArr [JNull, JNum ''''])])"
  let ?login = "the (unmarshal_loginSession toy_env ?raw2)"
  let ?rd = "rs_remove (challengeKeyPrefix @ ''sid'') (w_rd toy_later)"
  let ?k = "\<lambda>u. LoginDone (case u of None \<Rightarrow> None | Some u \<Rightarrow> (case WebAuthnCredentials u of [] \<Rightarrow> None
      | c # _ \<Rightarrow> Some (c\<lparr>lib_Authenticator := (lib_Authenticator c)\<lparr>au_SignCount :=
          au_SignCount (lib_Authenticator c) + 1\<rparr>\<rparr>)))"
  have reg: "resp_Status (fst (serve (CompleteRegister toy_env toy_complete) toy_registering)) = 200"
    "complete_envelope toy_complete = Some (''sid'', JStr ''k'')"
    "challenge_at rs_holds_at (w_now toy_registering) toy_registering ''sid'' = Some ?raw"
    "unmarshal_registrationSession toy_env ?raw = Some ?reg" "lib_ParseCreation (env_webauthn toy_env) (JStr ''k'') = Some (0, [107])"
    "lib_CreateCredential (env_webauthn toy_env) (w_now toy_registering) (stored_user toy_env ?reg) (reg_Session ?reg) (0, [107])
       = Some (toy_credential [107])" "reg_Username ?reg = ''alice''"
    and chal: "challenge_at rs_holds_at (w_now toy_later) toy_later ''sid'' = Some ?raw2"
      "unmarshal_loginSession toy_env ?raw2 = Some ?login" "lib_ParseAssertion (env_webauthn toy_env) (JStr ''k'') = Some [107]"
      "rs_script (w_rd toy_later) = []" "w_pg toy_later = []"
    by code_simp+
  have kept: "w_users toy_later = w_users (snd (serve (CompleteRegister toy_env toy_complete) toy_registering)) @ [sample_user\<lparr>Username := ''bob''\<rparr>]"
    "w_creds toy_later = map toy_used_row (w_creds (snd (serve (CompleteRegister toy_env toy_complete) toy_registering)))
       @ [row_of (UUID [1]) 0 (sample_credential (UUID [9]) [1])]"
    by (simp_all add: toy_later_def toy_returning_def with_challenge_def)
  have "keeps w_entropy (CompleteRegister toy_env toy_complete)"
    unfolding CompleteRegister_def Let_def by (intro keeps_rules; simp)
  then have "w_entropy toy_later = w_entropy toy_start"
    by (simp add: toy_later_def toy_returning_def with_challenge_def toy_registering_def keeps_serve)
  then have ent: "entropy_ok toy_later"
    by (simp add: entropy_ok_def toy_start_def)
  have schema: "schema_ok toy_later"
    by code_simp
  have redis: "rc_GetDel (env_redis toy_env) (w_now toy_later) (challengeKeyPrefix @ ''sid'') (w_rd toy_later) = (ROk ?raw2, ?rd)"
    using chal(4,1) by (rule toy_take)
  have "\<forall>u tok. \<exists>x s. rc_Set (env_redis toy_env) (w_now toy_later) (sessionKeyPrefix @ tok)
        (RStr (uuid_String (env_uuid toy_env) u)) (env_sessionTTL toy_env) ?rd = (ROk x, s)"
    using chal(4) by (simp add: toy_redis)
  then have ready: "login_ready toy_env rs_holds_at toy_later toy_complete ?login [107]"
    using schema ent chal reg(2) redis by (auto simp: login_ready_def pg_up_def)
  have lib: "pa_RawID (env_webauthn toy_env) [107] = lib_ID (toy_credential [107])"
    "lib_ValidateDiscoverableLogin (env_webauthn toy_env) (w_now toy_later) (login_Session ?login) [107] = CallHandler (Some [107]) None ?k"
    by (simp_all add: toy_env_def toy_webauthn_def toy_login_def toy_credential_def)
  obtain user row where made: "w_users (snd (serve (CompleteRegister toy_env toy_complete) toy_registering)) = w_users toy_registering @ [user]"
      "Username user = ''alice''" "w_creds (snd (serve (CompleteRegister toy_env toy_complete) toy_registering)) = w_creds toy_registering @ [row]"
    and served: "\<And>w2 r2 login parsed n be bs nm t rawID userHandle k cred2.
         login_ready toy_env rs_holds_at w2 r2 login parsed \<and> pa_RawID (env_webauthn toy_env) parsed = lib_ID (toy_credential [107])
       \<and> user \<in> set (w_users w2)
       \<and> row\<lparr>sign_count := ucast (n :: 32 word), backup_eligible := be, backup_state := bs, row_name := nm, last_used_at := t\<rparr>
           \<in> set (w_creds w2)
       \<and> lib_ValidateDiscoverableLogin (env_webauthn toy_env) (w_now w2) (login_Session login) parsed = CallHandler rawID userHandle k
       \<and> k (Some ((stored_user toy_env ?reg)\<lparr>wa_Credentials := Some [(toy_credential [107])\<lparr>lib_AttestationType := '''',
             lib_AttestationFormat := '''', lib_Flags := \<lparr>fl_BackupEligible = be, fl_BackupState = bs\<rparr>,
             lib_Authenticator := (lib_Authenticator (toy_credential [107]))\<lparr>au_SignCount := n\<rparr>\<rparr>]\<rparr>)) = LoginDone (Some cred2)
       \<Longrightarrow> resp_Status (fst (serve (CompleteLogin toy_env r2) w2)) = 200
         \<and> resp_Body (fst (serve (CompleteLogin toy_env r2) w2)) = Some (completeLoginResponse toy_env user)"
    using register_then_login [OF toy_stores surjective_pairing reg(1-6)] reg(7) by metis
  have rows: "user \<in> set (w_users toy_later)" "row\<lparr>sign_count := ucast (7 :: 32 word), backup_eligible := True, backup_state := False,
      row_name := Some ''phone'', last_used_at := Some 3\<rparr> \<in> set (w_creds toy_later)"
    using kept made by (simp_all add: toy_used_row_def)
  show ?thesis
    using served [OF conjI [OF ready conjI [OF lib(1) conjI [OF rows(1) conjI [OF rows(2) conjI [OF lib(2)]]]]]] made(2)
    by (auto simp: WebAuthnCredentials_def)
qed

end
