(* ===== verification/Response_Types.thy ===== *)
theory Response_Types
  imports Service_Properties
begin

text \<open>
  The wire format as types. A schema says which members a JSON object has, in which order,
  which of them may be left out (\<open>omitempty\<close>), and of which type their values are; the
  schemas below are the response structs of the source with their \<open>json\<close> tags. Shown:
  every response of every endpoint, in every state, has the type that its endpoint promises.
\<close>

section \<open>Schemas\<close>

datatype schema =
    TString
  | TBool
  | TAny
  | TArray schema
  | TStruct "(string \<times> bool \<times> schema) list"

text \<open>
  \<open>conforms t j\<close>. The members of a struct are encoded in the order of its fields; the flag
  of a field is true if the field is always there.
\<close>

fun conforms :: "schema \<Rightarrow> json \<Rightarrow> bool" and conform_members :: "(string \<times> bool \<times> schema) list \<Rightarrow> (string \<times> json) list \<Rightarrow> bool" where
  "conforms TString j = (case j of JStr _ \<Rightarrow> True | _ \<Rightarrow> False)"
| "conforms TBool j = (case j of JBool _ \<Rightarrow> True | _ \<Rightarrow> False)"
| "conforms TAny j = True"
| "conforms (TArray t) j = (case j of JArr js \<Rightarrow> \<forall>x \<in> set js. conforms t x | _ \<Rightarrow> False)"
| "conforms (TStruct fs) j = (case j of JObj ms \<Rightarrow> conform_members fs ms | _ \<Rightarrow> False)"
| "conform_members [] ms = (ms = [])"
| "conform_members ((k, always, t) # fs) [] = (\<not> always \<and> conform_members fs [])"
| "conform_members ((k, always, t) # fs) ((k', j) # ms) =
     (if k' = k then conforms t j \<and> conform_members fs ms
      else \<not> always \<and> conform_members fs ((k', j) # ms))"

section \<open>The response structs\<close>

definition errorSchema :: schema where
  "errorSchema = TStruct [(''code'', True, TString), (''message'', True, TString)]"

definition readySchema :: schema where
  "readySchema = TStruct [(''status'', True, TString), (''postgres'', False, TString), (''redis'', False, TString)]"

definition optionsSchema :: schema where
  "optionsSchema = TStruct [(''options'', True, TAny), (''session_id'', True, TString)]"

definition guestSchema :: schema where
  "guestSchema = TStruct [(''user_id'', True, TString)]"

definition completeRegisterSchema :: schema where
  "completeRegisterSchema = TStruct [(''user_id'', True, TString), (''credential_id'', True, TString)]"

definition completeLoginSchema :: schema where
  "completeLoginSchema =
     TStruct [(''user_id'', True, TString), (''username'', True, TString), (''display_name'', True, TString)]"

definition meSchema :: schema where
  "meSchema = TStruct [(''user_id'', True, TString), (''username'', True, TString),
     (''display_name'', True, TString), (''is_guest'', True, TBool)]"

definition credentialSchema :: schema where
  "credentialSchema = TStruct [(''id'', True, TString), (''name'', False, TString), (''aaguid'', False, TString),
     (''transports'', True, TArray TString), (''backup_eligible'', True, TBool), (''backup_state'', True, TBool),
     (''created_at'', True, TString), (''last_used_at'', False, TString)]"

lemmas schema_defs = errorSchema_def readySchema_def optionsSchema_def guestSchema_def completeRegisterSchema_def
  completeLoginSchema_def meSchema_def credentialSchema_def

text \<open>What an endpoint promises when it succeeds.\<close>

datatype promise = NoContent | Page | Json schema

fun endpoint_promise :: "endpoint \<Rightarrow> promise" where
  "endpoint_promise EpLive = Json (TStruct [(''status'', True, TString)])"
| "endpoint_promise EpReady = Json readySchema"
| "endpoint_promise (EpIndex _) = Page"
| "endpoint_promise EpBeginRegister = Json optionsSchema"
| "endpoint_promise EpCompleteRegister = Json completeRegisterSchema"
| "endpoint_promise EpBeginLogin = Json optionsSchema"
| "endpoint_promise EpCompleteLogin = Json completeLoginSchema"
| "endpoint_promise EpLogout = NoContent"
| "endpoint_promise EpGuest = Json guestSchema"
| "endpoint_promise EpBeginPromote = Json optionsSchema"
| "endpoint_promise EpCompletePromote = Json completeLoginSchema"
| "endpoint_promise EpMe = Json meSchema"
| "endpoint_promise EpListCredentials = Json (TArray credentialSchema)"
| "endpoint_promise EpDeleteCredential = NoContent"

fun keeps_promise :: "promise \<Rightarrow> response \<Rightarrow> bool" where
  "keeps_promise NoContent resp \<longleftrightarrow> resp_Status resp = 204 \<and> resp_Body resp = None \<and> resp_Page resp = None"
| "keeps_promise Page resp \<longleftrightarrow> resp_Status resp = 200 \<and> \<not> resp_JSON resp \<and> resp_Page resp \<noteq> None"
| "keeps_promise (Json t) resp \<longleftrightarrow> resp_Status resp \<in> {200, 503} \<and> resp_JSON resp \<and> resp_Page resp = None
     \<and> (\<exists>j. resp_Body resp = Some j \<and> conforms t j)"

lemma error_conforms: "conforms errorSchema (errorBody c m)"
  by (simp add: errorBody_def errorSchema_def)

section \<open>Bodies have their types\<close>

lemma bodies_conform:
  "conforms guestSchema (guestResponse env u)"
  "conforms completeRegisterSchema (completeRegisterResponse env u c)"
  "conforms completeLoginSchema (completeLoginResponse env user)"
  "conforms meSchema (meResponse L user)"
  "conforms optionsSchema (CreationOptions j i)" "conforms optionsSchema (AssertionOptions j i)"
  "conforms readySchema (readyResponse st pg rd)"
  by (auto simp: schema_defs guestResponse_def completeRegisterResponse_def completeLoginResponse_def meResponse_def
      CreationOptions_def AssertionOptions_def readyResponse_def split: option.split)

lemma credential_conforms: "conforms credentialSchema (credentialResponse L T c)"
  by (auto simp: credentialSchema_def credentialResponse_def omit_empty_def split: option.split)

lemma credentials_conform: "conforms (TArray credentialSchema) (JArr (map (credentialResponse L T) cs))"
  by (simp add: credential_conforms)

text \<open>An error: a code and its message from the table of \<open>response.go\<close>, with one of its statuses.\<close>

definition typed_error :: "response \<Rightarrow> bool" where
  "typed_error resp \<longleftrightarrow> error_response resp \<and> (\<exists>j. resp_Body resp = Some j \<and> conforms errorSchema j)"

lemma error_typed: "error_response resp \<Longrightarrow> typed_error resp"
  by (auto simp: error_response_def typed_error_def error_conforms)

lemma success_typed:
  "BeginRegister env r w = (Inr resp, w') \<Longrightarrow> keeps_promise (Json optionsSchema) resp"
  "CompleteRegister env r w = (Inr resp, w') \<Longrightarrow> keeps_promise (Json completeRegisterSchema) resp"
  "BeginLogin env r w = (Inr resp, w') \<Longrightarrow> keeps_promise (Json optionsSchema) resp"
  "CompleteLogin env r w = (Inr resp, w') \<Longrightarrow> keeps_promise (Json completeLoginSchema) resp"
  "Logout env r w = (Inr resp, w') \<Longrightarrow> keeps_promise NoContent resp"
  "BeginPromote env r w = (Inr resp, w') \<Longrightarrow> keeps_promise (Json optionsSchema) resp"
  "CompletePromote env r w = (Inr resp, w') \<Longrightarrow> keeps_promise (Json completeLoginSchema) resp"
  "Me L r w = (Inr resp, w') \<Longrightarrow> keeps_promise (Json meSchema) resp"
  "ListCredentials L T r w = (Inr resp, w') \<Longrightarrow> keeps_promise (Json (TArray credentialSchema)) resp"
  "DeleteCredential L r w = (Inr resp, w') \<Longrightarrow> keeps_promise NoContent resp"
  by (auto simp: Logout_def Me_def ListCredentials_def DeleteCredential_def exit_simps bodies_conform credential_conforms
      simp del: conforms.simps(5)
      elim!: BeginRegister_on BeginLogin_on BeginPromote_on CompleteRegister_on CompleteLogin_on CompletePromote_on
        BeginRegistration_on BeginLogin_service_on bindE_InrE split: if_splits)

definition typed :: "endpoint \<Rightarrow> response \<Rightarrow> bool" where
  "typed e resp \<longleftrightarrow> keeps_promise (endpoint_promise e) resp \<or> typed_error resp"

lemma serve_typed:
  assumes "rejects h" and "\<And>resp w'. h w = (Inr resp, w') \<Longrightarrow> keeps_promise t resp"
  shows "keeps_promise t (fst (serve h w)) \<or> typed_error (fst (serve h w))"
  using assms by (cases "h w"; cases "fst (h w)") (auto simp: serve_def dest!: exitsD intro: error_typed)

lemma session_typed:
  assumes "\<And>r w. keeps_promise t (fst (serve (h r) w)) \<or> typed_error (fst (serve (h r) w))"
  shows "keeps_promise t (fst (serve (requireSession s h r) w)) \<or> typed_error (fst (serve (requireSession s h r) w))"
proof (cases "cookie_value SessionCookieName r")
  case None
  then show ?thesis
    by (simp add: requireSession_def RequireSession_eq serve_def reject_eq codes_known error_typed error_answer)
next
  case (Some tok)
  then show ?thesis
    using assms
    by (auto simp: requireSession_def RequireSession_eq serve_bindE catchE_def reject_eq internal_eq codes_known
        error_typed error_answer split: prod.split sum.split)
qed

lemma Guest_typed: "keeps_promise (Json guestSchema) (fst (serve (Guest env r) w)) \<or> typed_error (fst (serve (Guest env r) w))"
proof -
  let ?P = "\<lambda>resp _. keeps_promise (Json guestSchema) resp \<or> typed_error resp"
  have early: "exits ?P (bindE (writeJSON 200 (guestResponse env u)) failE :: ('a, unit) handler_act)" for u
    by (simp add: exits_def bindE_def writeJSON_def getE_def failE_def bodies_conform)
  have "exits ?P (Guest env r)"
    unfolding Guest_def orInternal_def
    by (rule early exits_bindE exits_cases(2,5) exits_ret exits_catchE exits_internal exits_steps exits_total
        | simp add: error_typed error_answer codes_known)+
  then show ?thesis
    by (cases "Guest env r w"; cases "fst (Guest env r w)")
       (auto simp: serve_def Guest_def exit_simps bodies_conform dest!: exitsD elim!: bindE_InrE)
qed

section \<open>Every response is typed\<close>

text \<open>
  C24: the API surface is stable and typed. Whatever the request, the state and the failures,
  every endpoint answers either what it promises (a JSON body that conforms to the struct of
  its response, members in order, optional ones only left out, never of another type; an
  empty 204; the page) or one of the documented errors: a status among 400, 401, 404, 409 and
  500 and a JSON body with a code and its message from the table of \<open>response.go\<close>. The
  fallback of \<open>writeError\<close> for unknown codes is never taken, and the bodies that the
  session middleware writes on its own are the same as the table's.
\<close>

theorem responses_typed: "typed e (fst (serve (endpoint_handler s e r) w))"
proof (cases e)
  case EpReady
  then show ?thesis
    by (simp add: typed_def Ready_status Let_def bodies_conform split: prod.split)
next
  case EpGuest
  then show ?thesis using Guest_typed by (simp add: typed_def)
qed (simp_all only: typed_def endpoint_promise.simps endpoint_handler.simps
       serve_typed [OF handlers_reject(1) success_typed(1)] serve_typed [OF handlers_reject(2) success_typed(2)]
       serve_typed [OF handlers_reject(3) success_typed(3)] serve_typed [OF handlers_reject(4) success_typed(4)]
       serve_typed [OF handlers_reject(5) success_typed(5)] serve_typed [OF handlers_reject(6) success_typed(6)]
       serve_typed [OF handlers_reject(7) success_typed(7)]
       session_typed [OF serve_typed [OF handlers_reject(8) success_typed(8)]]
       session_typed [OF serve_typed [OF handlers_reject(9) success_typed(9)]]
       session_typed [OF serve_typed [OF handlers_reject(10) success_typed(10)]],
     simp_all add: Live_def serve_def writeJSON_def writePage_def getE_def)

end
