(* ===== verification/Cookie_Policy.thy ===== *)
theory Cookie_Policy
  imports Service_Properties
begin

text \<open>
  \<open>cookie.go\<close> and its use: which endpoint sets which cookie, with which attributes, and when.
  A token reaches the client only in a cookie of the three endpoints that issue one, and only
  with the answer 200; no error response and no other endpoint sets a cookie at all.
\<close>

section \<open>Steps that leave the header alone\<close>

text \<open>
  \<open>quiet h m\<close>: with the cookies \<open>h\<close> in the header, \<open>m\<close> goes on with the same header, or
  ends early with an error that carries just those.
\<close>

definition refused_with :: "cookie list \<Rightarrow> response \<Rightarrow> bool" where
  "refused_with h resp \<longleftrightarrow> error_response resp \<and> resp_Cookies resp = h"

abbreviation quiet :: "cookie list \<Rightarrow> ('rd, 'a) handler_act \<Rightarrow> bool" where
  "quiet h m \<equiv> spec (\<lambda>w. w_header w = h) m (\<lambda>_ w. w_header w = h) (\<lambda>resp _. refused_with h resp)"

lemma quietI:
  "keeps w_header m \<Longrightarrow> exits (\<lambda>resp w. refused_with (w_header w) resp) m \<Longrightarrow> quiet h m"
  by (rule specI) (metis keepsD, metis keepsD exitsD)

text \<open>The answers that end a handler.\<close>

lemma quiet_answers:
  "spec (\<lambda>w. w_header w = h) (writeJSON s v) (\<lambda>resp _. resp_Status resp = s \<and> resp_Cookies resp = h) R"
  "spec (\<lambda>w. w_header w = h) (writeStatus s) (\<lambda>resp _. resp_Status resp = s \<and> resp_Cookies resp = h) R"
  by (simp_all add: spec_def writeJSON_def writeStatus_def getE_def)

lemma spec_header_steps:
  "spec (\<lambda>w. w_header w = h) (setSessionCookie r tok age) (\<lambda>_ w. w_header w = h @ [session_cookie r tok age]) R"
  "spec (\<lambda>w. w_header w = h) (setGuestCookie r tok age) (\<lambda>_ w. w_header w = h @ [guest_cookie r tok age]) R"
  "spec (\<lambda>w. w_header w = h) (clearSessionCookie r) (\<lambda>_ w. w_header w = h @ [session_cookie r '''' (-1)]) R"
  by (simp_all add: spec_def setSessionCookie_def setGuestCookie_def clearSessionCookie_def SetCookie_def putE_def
      session_cookie_def guest_cookie_def)

lemma spec_header_dropGuest:
  "spec (\<lambda>w. w_header w = h) (dropGuest env msg r) (\<lambda>_ w. w_header w = h @ dropped_guest r) R"
  by (rule specI) (auto dest: dropGuest_header exitsD [OF exits_total(1) [where Q = "\<lambda>_ _. False"]])

lemma refused_answer:
  "map_of codeMessages c \<noteq> None \<Longrightarrow> s \<in> {400, 401, 404, 409, 500} \<Longrightarrow> refused_with h (answer s c h)"
  by (simp add: refused_with_def error_answer)

lemma handlers_refused_with:
  "exits (\<lambda>resp w. refused_with (w_header w) resp) (BeginRegister env r)"
  "exits (\<lambda>resp w. refused_with (w_header w) resp) (CompleteRegister env r)"
  "exits (\<lambda>resp w. refused_with (w_header w) resp) (BeginLogin env r)"
  "exits (\<lambda>resp w. refused_with (w_header w) resp) (BeginPromote env r)"
  "exits (\<lambda>resp w. refused_with (w_header w) resp) (Me L r)"
  "exits (\<lambda>resp w. refused_with (w_header w) resp) (ListCredentials L T r)"
  "exits (\<lambda>resp w. refused_with (w_header w) resp) (DeleteCredential L r)"
  by (rule handlers_exit; auto intro!: refused_answer codes_known)+

section \<open>Handlers that set no cookie\<close>

lemma keeps_header:
  "keeps w_header (BeginRegister env r)" "keeps w_header (CompleteRegister env r)" "keeps w_header (BeginLogin env r)"
  "keeps w_header (BeginPromote env r)" "keeps w_header (Me L r)" "keeps w_header (ListCredentials L T r)"
  "keeps w_header (DeleteCredential L r)"
  unfolding BeginRegister_def CompleteRegister_def BeginLogin_def BeginPromote_def Me_def ListCredentials_def
    DeleteCredential_def requireUser_def Let_def
  by (intro keeps_rules; simp)+

lemma success_cookies:
  "BeginRegister env r w = (Inr resp, w') \<Longrightarrow> resp_Cookies resp = w_header w'"
  "CompleteRegister env r w = (Inr resp, w') \<Longrightarrow> resp_Cookies resp = w_header w'"
  "BeginLogin env r w = (Inr resp, w') \<Longrightarrow> resp_Cookies resp = w_header w'"
  "BeginPromote env r w = (Inr resp, w') \<Longrightarrow> resp_Cookies resp = w_header w'"
  "Me L r w = (Inr resp, w') \<Longrightarrow> resp_Cookies resp = w_header w'"
  "ListCredentials L T r w = (Inr resp, w') \<Longrightarrow> resp_Cookies resp = w_header w'"
  "DeleteCredential L r w = (Inr resp, w') \<Longrightarrow> resp_Cookies resp = w_header w'"
  by (auto simp: Me_def ListCredentials_def DeleteCredential_def exit_simps
      elim!: BeginRegister_on BeginLogin_on BeginPromote_on CompleteRegister_on bindE_InrE split: if_splits)

lemma serve_quiet:
  assumes "keeps w_header m" and "exits (\<lambda>resp w. refused_with (w_header w) resp) m"
    and "\<And>resp w'. m w = (Inr resp, w') \<Longrightarrow> resp_Cookies resp = w_header w'"
  shows "resp_Cookies (fst (serve m w)) = w_header w"
proof (cases "m w")
  case (Pair x w')
  then have "w_header w' = w_header w"
    by (rule keepsD [OF assms(1)])
  then show ?thesis
    using Pair assms(3) exitsD [OF assms(2)] by (cases x) (auto simp: serve_def refused_with_def)
qed

lemma serve_quiet_handlers:
  "resp_Cookies (fst (serve (BeginRegister env r) w)) = w_header w"
  "resp_Cookies (fst (serve (CompleteRegister env r) w)) = w_header w"
  "resp_Cookies (fst (serve (BeginLogin env r) w)) = w_header w"
  "resp_Cookies (fst (serve (BeginPromote env r) w)) = w_header w"
  "resp_Cookies (fst (serve (Me L r) w)) = w_header w"
  "resp_Cookies (fst (serve (ListCredentials L T r) w)) = w_header w"
  "resp_Cookies (fst (serve (DeleteCredential L r) w)) = w_header w"
  by (rule serve_quiet; rule keeps_header handlers_refused_with success_cookies; assumption)+

lemma serve_quiet_session:
  assumes "\<And>r w. resp_Cookies (fst (serve (h r) w)) = w_header w"
  shows "resp_Cookies (fst (serve (requireSession s h r) w)) = w_header w"
proof (cases "cookie_value SessionCookieName r")
  case None
  then show ?thesis
    by (simp add: requireSession_def RequireSession_eq serve_def reject_eq codes_known)
next
  case (Some tok)
  obtain x w1 where get: "SessionStore_Get (env_redis (srv_auth s)) (env_uuid (srv_auth s)) tok w = (x, w1)"
    by fastforce
  then have "w_header w1 = w_header w"
    by (rule keepsD [OF keeps_redis_stores(1), rotated]) simp
  with Some get show ?thesis
    using assms
    by (cases x) (auto simp: requireSession_def RequireSession_eq serve_bindE catchE_def reject_eq internal_eq codes_known)
qed

lemma ready_cookies: "resp_Cookies (fst (serve (Ready (newHealth R) r) w)) = w_header w"
proof -
  obtain pg w1 rd w2 where run: "pgPing w = (pg, w1)" "redisPinger_Ping R w1 = (rd, w2)"
    by fastforce
  have "w_header w1 = w_header w"
    using run(1) by (rule keepsD [rotated]) (unfold pgPing_def, intro keeps_rules; simp)
  moreover have "w_header w2 = w_header w1"
    using run(2) by (rule keepsD [rotated]) (unfold redisPinger_Ping_def, intro keeps_rules; simp)
  ultimately show ?thesis using run by (simp add: Ready_status Let_def)
qed

section \<open>Handlers that set cookies\<close>

text \<open>Each step before a token is issued is quiet; the steps after it do not fail.\<close>

lemma quiet_orInternal: "keeps w_header m \<Longrightarrow> quiet h (orInternal msg m)"
  by (rule quietI, intro keeps_rules; simp?) (rule fragments_exit; auto intro!: refused_answer codes_known)

lemma quiet_fragments:
  "quiet h (decodeComplete r)" "quiet h (takeChallenge env msg i)" "quiet h (someOrInternal msg x)"
  "quiet h (verifyAttestation env m1 m2 u sess body)" "quiet h (recordCounterAnomalies L old new)"
  by (rule quietI, (intro keeps_rules; simp),
      (rule fragments_exit exits_total; auto intro!: refused_answer codes_known))+

lemma quiet_login_steps:
  "quiet h (catchE (Service_ParseCredentialAssertion W body) (\<lambda>_. warnReject m1 400 ''invalid_request''))"
  "quiet h (catchE (Service_ValidateLogin W (resolver W parsed) c sess parsed) (\<lambda>_. warnReject m2 401 ''unauthorized''))"
  "quiet h (orInternal msg (CredentialStore_UpdateAfterAssertion i k be bs))"
  "quiet h (orInternal msg (SessionStore_Create R L ttl u))"
  by (rule quietI quiet_orInternal, (intro keeps_rules; simp),
      (rule exits_catchE, rule fragments_exit; auto intro!: refused_answer codes_known)?)+

lemma quiet_promote_steps:
  "quiet h (catchE (UserStore_PromoteGuest i n d) (\<lambda>e. if e = ErrUsernameTaken then reject 409 ''username_taken''
      else if e = ErrUserNotFound then reject 409 ''not_a_guest'' else internal m1))"
  "quiet h (catchE (CredentialStore_Insert dc) (\<lambda>e. if e = ErrCredentialExists then reject 409 ''credential_exists''
      else internal m2))"
  by (rule quietI, (intro keeps_rules; simp), (intro reject_rules codes_known; auto intro!: refused_answer codes_known))+

lemma quiet_refusals:
  "map_of codeMessages c \<noteq> None \<Longrightarrow> s \<in> {400, 401, 404, 409} \<Longrightarrow>
     spec (\<lambda>w. w_header w = h) (reject s c) Q (\<lambda>resp _. refused_with h resp)"
  "spec (\<lambda>w. w_header w = h) (internal msg) Q (\<lambda>resp _. refused_with h resp)"
  by (auto simp: spec_def reject_eq internal_eq intro!: refused_answer codes_known)

lemma login_cookies:
  "spec (\<lambda>w. w_header w = h) (CompleteLogin env r)
     (\<lambda>resp _. resp_Status resp = 200
        \<and> (\<exists>token. resp_Cookies resp = h @ [session_cookie r token (sessionMaxAge env)] @ dropped_guest r))
     (\<lambda>resp _. refused_with h resp)"
proof -
  have tail: "spec (\<lambda>w. w_header w = h)
      (bindE (setSessionCookie r token age) (\<lambda>_. bindE (dropGuest env msg r) (\<lambda>_. writeJSON 200 v)))
      (\<lambda>resp _. resp_Status resp = 200 \<and> (\<exists>token. resp_Cookies resp = h @ [session_cookie r token age] @ dropped_guest r))
      R" for token age msg v R
    by (rule spec_bindE, rule spec_header_steps(1), rule spec_bindE, rule spec_header_dropGuest)
       (rule spec_weaken [OF quiet_answers(1) [where R = "\<lambda>_ _. False"]]; auto)
  show ?thesis
    unfolding CompleteLogin_def
    by (rule tail quiet_refusals(2) spec_bindE [OF quiet_fragments(1)] spec_bindE [OF quiet_fragments(2)]
        spec_bindE [OF quiet_fragments(3)] spec_bindE [OF quiet_fragments(5)] spec_bindE [OF quiet_login_steps(1)]
        spec_bindE [OF quiet_login_steps(2)] spec_bindE [OF quiet_login_steps(3)] spec_bindE [OF quiet_login_steps(4)]
        spec_prod spec_option)+
qed

lemma promote_cookies:
  "spec (\<lambda>w. w_header w = h) (CompletePromote env r)
     (\<lambda>resp _. resp_Status resp = 200
        \<and> (\<exists>token. resp_Cookies resp = h @ dropped_guest r @ [session_cookie r token (sessionMaxAge env)]))
     (\<lambda>resp _. refused_with h resp)"
proof -
  have tail: "spec (\<lambda>w. w_header w = h)
      (bindE (dropGuest env msg r) (\<lambda>_. bindE (setSessionCookie r token age) (\<lambda>_. writeJSON 200 v)))
      (\<lambda>resp _. resp_Status resp = 200 \<and> (\<exists>token. resp_Cookies resp = h @ dropped_guest r @ [session_cookie r token age]))
      R" for token age msg v R
    by (rule spec_bindE, rule spec_header_dropGuest, rule spec_bindE, rule spec_header_steps(1))
       (rule spec_weaken [OF quiet_answers(1) [where R = "\<lambda>_ _. False"]]; auto)
  show ?thesis
    unfolding CompletePromote_def Let_def
    by (rule tail spec_bindE [OF quiet_fragments(1)] spec_bindE [OF quiet_fragments(2)] spec_bindE [OF quiet_fragments(3)]
        spec_bindE [OF quiet_fragments(4)] spec_bindE [OF quiet_promote_steps(1)] spec_bindE [OF quiet_promote_steps(2)]
        spec_bindE [OF quiet_login_steps(4)] spec_prod spec_if quiet_refusals(1) codes_known | simp)+
qed

lemma quiet_plain:
  "quiet h m \<Longrightarrow> spec (\<lambda>w. w_header w = h) m (\<lambda>_ w. w_header w = h) (\<lambda>resp _. resp_Cookies resp = h)"
  by (erule spec_weaken) (auto simp: refused_with_def)

lemma guest_cookies:
  "spec (\<lambda>w. w_header w = h) (Guest env r)
     (\<lambda>resp _. resp_Status resp = 200 \<and> (\<exists>token. resp_Cookies resp = h @ [guest_cookie r token (guestMaxAge env)]))
     (\<lambda>resp _. resp_Cookies resp = h)"
proof -
  have reuse: "spec (\<lambda>w. w_header w = h) (case known of None \<Rightarrow> ret () | Some user \<Rightarrow>
      whenE (IsGuest user) (bindE (writeJSON 200 (guestResponse env (user_ID user))) failE))
      (\<lambda>_ w. w_header w = h) (\<lambda>resp _. resp_Cookies resp = h)" for known
    by (simp add: spec_def bindE_def writeJSON_def getE_def failE_def whenE_def ret_def split: option.split)
  have tail: "spec (\<lambda>w. w_header w = h) (bindE (setGuestCookie r token age) (\<lambda>_. writeJSON 200 v))
      (\<lambda>resp _. resp_Status resp = 200 \<and> (\<exists>token. resp_Cookies resp = h @ [guest_cookie r token age])) R" for token age v R
    by (rule spec_bindE, rule spec_header_steps(2))
       (rule spec_weaken [OF quiet_answers(1) [where R = "\<lambda>_ _. False"]]; auto)
  have look: "quiet h (resolveGuest env r)" "quiet h next_call"
    by (rule quietI, (intro keeps_rules; simp), rule exits_total exits_steps)+
  have make: "quiet h (orInternal m1 (UserStore_CreateGuest n d))" "quiet h (orInternal m2 (GuestStore_Create R L ttl u))" for m1 n d m2 R L ttl u
    by (rule quiet_orInternal, intro keeps_rules; simp)+
  show ?thesis
    unfolding Guest_def
    by (rule tail spec_bindE [OF quiet_plain [OF look(1)]] spec_bindE [OF reuse] spec_bindE [OF quiet_plain [OF look(2)]]
        spec_bindE [OF quiet_plain [OF make(1)]] spec_bindE [OF quiet_plain [OF make(2)]])+
qed

lemma logout_cookies: "resp_Cookies (fst (serve (Logout env r) w)) = w_header w @ [session_cookie r '''' (-1)]"
proof -
  obtain resp w' where run: "serve (Logout env r) w = (resp, w')" by fastforce
  then obtain w1 where "(case cookie_value SessionCookieName r of None \<Rightarrow> ret () | Some tok \<Rightarrow>
      catchE (SessionStore_Delete (env_redis env) tok) (\<lambda>_. logE LevelWarn ''logout: delete session'')) w
      = (Inr () :: response + unit, w1)" and "w' = w1\<lparr>w_header := w_header w1 @ [session_cookie r '''' (-1)]\<rparr>"
    and "resp_Cookies resp = w_header w'"
    by (rule Logout_run) simp
  moreover from this(1) have "w_header w1 = w_header w"
    by (rule keepsD [rotated]) (intro keeps_rules; simp)
  ultimately show ?thesis by (simp add: run)
qed

section \<open>The policy\<close>

definition protected :: "request \<Rightarrow> cookie \<Rightarrow> bool" where
  "protected r c \<longleftrightarrow> ck_Name c \<in> {SessionCookieName, GuestCookieName} \<and> ck_HttpOnly c
     \<and> ck_SameSite c = SameSiteLaxMode \<and> ck_Path c = ''/'' \<and> ck_Secure c = isHTTPS r"

fun cookie_policy :: "('rd, 'sess, 'pc, 'pa) auth_env \<Rightarrow> endpoint \<Rightarrow> request \<Rightarrow> response \<Rightarrow> bool" where
  "cookie_policy env EpCompleteLogin r resp \<longleftrightarrow>
     (if resp_Status resp = 200
      then \<exists>token. resp_Cookies resp = [session_cookie r token (sessionMaxAge env)] @ dropped_guest r
      else error_response resp \<and> resp_Cookies resp = [])"
| "cookie_policy env EpCompletePromote r resp \<longleftrightarrow>
     (if resp_Status resp = 200
      then \<exists>token. resp_Cookies resp = dropped_guest r @ [session_cookie r token (sessionMaxAge env)]
      else error_response resp \<and> resp_Cookies resp = [])"
| "cookie_policy env EpGuest r resp \<longleftrightarrow> resp_Cookies resp = []
     \<or> resp_Status resp = 200 \<and> (\<exists>token. resp_Cookies resp = [guest_cookie r token (guestMaxAge env)])"
| "cookie_policy env EpLogout r resp \<longleftrightarrow> resp_Cookies resp = [session_cookie r '''' (-1)]"
| "cookie_policy env _ r resp \<longleftrightarrow> resp_Cookies resp = []"

lemma policy_protects: "cookie_policy env e r resp \<Longrightarrow> list_all (protected r) (resp_Cookies resp)"
  by (cases e) (auto simp: protected_def session_cookie_def guest_cookie_def dropped_guest_def
      split: if_splits option.splits)

lemma serve_spec:
  assumes "spec P m (\<lambda>resp _. Q resp) (\<lambda>resp _. Q' resp)" and "P w"
  shows "Q (fst (serve m w)) \<or> Q' (fst (serve m w))"
  using specD_Inr [OF assms] specD_Inl [OF assms]
  by (cases "m w"; cases "fst (m w)") (auto simp: serve_def)

lemma issuing_cookies:
  assumes "w_header w = []"
  shows "cookie_policy env EpCompleteLogin r (fst (serve (CompleteLogin env r) w))"
    and "cookie_policy env EpCompletePromote r (fst (serve (CompletePromote env r) w))"
    and "cookie_policy env EpGuest r (fst (serve (Guest env r) w))"
  using serve_spec [OF login_cookies assms, of env r] serve_spec [OF promote_cookies assms, of env r]
    serve_spec [OF guest_cookies assms, of env r]
  by (auto simp: refused_with_def error_response_def)

text \<open>
  C4: the cookie policy. Whatever the request and the state, and whatever fails: a session
  cookie with a token is set by \<open>/login/complete\<close> and \<open>/promote/complete\<close> only, exactly one
  and only with the answer 200, together with the removal of a guest cookie that was sent; a guest
  cookie with a token is set by \<open>/guest\<close> only, and only with the answer 200; \<open>/logout\<close> always
  removes the session cookie; no error and no other endpoint sets a cookie. Every cookie that
  is set is \<open>HttpOnly\<close>, \<open>SameSite=Lax\<close>, for the whole site, and \<open>Secure\<close> exactly if the
  request came over TLS or a proxy says so.
\<close>

theorem cookies_protected:
  "cookie_policy (srv_auth s) e r (fst (serve (endpoint_handler s e r) (w\<lparr>w_header := []\<rparr>)))
   \<and> list_all (protected r) (resp_Cookies (fst (serve (endpoint_handler s e r) (w\<lparr>w_header := []\<rparr>))))"
proof -
  have "cookie_policy (srv_auth s) e r (fst (serve (endpoint_handler s e r) (w\<lparr>w_header := []\<rparr>)))"
    by (cases e)
       (simp_all add: issuing_cookies logout_cookies serve_quiet_handlers serve_quiet_session ready_cookies Live_def
         writePage_def del: cookie_policy.simps(1-3),
        simp_all add: serve_def writeJSON_def getE_def)
  then show ?thesis
    using policy_protects by blast
qed

end
