(* ===== verification/Interleaving.thy ===== *)
theory Interleaving
  imports Prelude
begin

text \<open>
  Code that other code may interrupt.

  The Go server runs every request in a goroutine of its own, so between two calls of the
  stores other requests act on the same tables and keys. A \<open>prog\<close> is such an interruptible
  computation: either it has ended, with one of the two exits of an action, or it makes one
  indivisible step on the shared state and goes on. \<open>bindP\<close> and \<open>catchP\<close> compose
  programs as \<open>bindE\<close> and \<open>catchE\<close> compose actions, \<open>atom\<close> makes one step of a whole
  action, and \<open>uninterrupted\<close> executes a program without interruption.

  \<open>safe I R G Q p w\<close> is the rely/guarantee judgement: from state \<open>w\<close>, as long as the
  others move the state only along \<open>R\<close> and keep the invariant \<open>I\<close>, every step of \<open>p\<close>
  keeps \<open>I\<close> and is a move of \<open>G\<close>, and a normal end \<open>a\<close> of \<open>p\<close> satisfies \<open>Q a\<close>.
\<close>

named_theorems run_simps \<open>executing a program without interruption\<close>

section \<open>Programs\<close>

datatype ('w, 'e, 'a) prog =
    Done "'e + 'a"
  | Step "'w \<Rightarrow> ('w, 'e, 'a) prog \<times> 'w"

primrec uninterrupted :: "('w, 'e, 'a) prog \<Rightarrow> ('w, 'e, 'a) act" where
  "uninterrupted (Done x) = (\<lambda>w. (x, w))"
| "uninterrupted (Step f) = (\<lambda>w. case map_prod uninterrupted id (f w) of (m, w') \<Rightarrow> m w')"

definition atom :: "('w, 'e, 'a) act \<Rightarrow> ('w, 'e, 'a) prog" where
  "atom m = Step (\<lambda>w. case m w of (x, w') \<Rightarrow> (Done x, w'))"

definition retP :: "'a \<Rightarrow> ('w, 'e, 'a) prog" where
  "retP a = Done (Inr a)"

definition failP :: "'e \<Rightarrow> ('w, 'e, 'a) prog" where
  "failP e = Done (Inl e)"

primrec bindP :: "('w, 'e, 'a) prog \<Rightarrow> ('a \<Rightarrow> ('w, 'e, 'b) prog) \<Rightarrow> ('w, 'e, 'b) prog" where
  "bindP (Done x) k = (case x of Inl e \<Rightarrow> Done (Inl e) | Inr a \<Rightarrow> k a)"
| "bindP (Step f) k = Step (\<lambda>w. map_prod (\<lambda>p. bindP p k) id (f w))"

primrec catchP :: "('w, 'e, 'a) prog \<Rightarrow> ('e \<Rightarrow> ('w, 'f, 'a) prog) \<Rightarrow> ('w, 'f, 'a) prog" where
  "catchP (Done x) h = (case x of Inl e \<Rightarrow> h e | Inr a \<Rightarrow> Done (Inr a))"
| "catchP (Step f) h = Step (\<lambda>w. map_prod (\<lambda>p. catchP p h) id (f w))"

text \<open>Executed on its own, a composition of programs is the composition of actions.\<close>

lemma run_leaf [run_simps]:
  "uninterrupted (atom m) = m" "uninterrupted (retP a) = ret a" "uninterrupted (failP e) = failE e"
  by (auto simp: atom_def retP_def failP_def ret_def failE_def split: prod.split)

lemma run_Step: "uninterrupted (Step f) w = uninterrupted (fst (f w)) (snd (f w))"
  by (simp add: map_prod_def split: prod.split)

lemma run_bindP [run_simps]: "uninterrupted (bindP p k) = bindE (uninterrupted p) (\<lambda>a. uninterrupted (k a))"
proof (induction p)
  case (Step f)
  have "uninterrupted (bindP (fst (f w)) k) = bindE (uninterrupted (fst (f w))) (\<lambda>a. uninterrupted (k a))" for w
    by (rule Step.IH [OF rangeI]) (simp add: fsts.simps)
  then show ?case
    by (intro ext) (simp add: bindE_def run_Step del: uninterrupted.simps)
qed (auto simp: bindE_def split: sum.split)

lemma run_catchP [run_simps]: "uninterrupted (catchP p h) = catchE (uninterrupted p) (\<lambda>e. uninterrupted (h e))"
proof (induction p)
  case (Step f)
  have "uninterrupted (catchP (fst (f w)) h) = catchE (uninterrupted (fst (f w))) (\<lambda>e. uninterrupted (h e))" for w
    by (rule Step.IH [OF rangeI]) (simp add: fsts.simps)
  then show ?case
    by (intro ext) (simp add: catchE_def run_Step del: uninterrupted.simps)
qed (auto simp: catchE_def split: sum.split)

lemma run_branches [run_simps]:
  "uninterrupted (if b then p else q) = (if b then uninterrupted p else uninterrupted q)"
  "uninterrupted (case x of None \<Rightarrow> p | Some a \<Rightarrow> q' a) = (case x of None \<Rightarrow> uninterrupted p | Some a \<Rightarrow> uninterrupted (q' a))"
  "uninterrupted (case y of Inl e \<Rightarrow> h e | Inr a \<Rightarrow> k a) = (case y of Inl e \<Rightarrow> uninterrupted (h e) | Inr a \<Rightarrow> uninterrupted (k a))"
  "uninterrupted (case z of (b, c) \<Rightarrow> g b c) = (case z of (b, c) \<Rightarrow> uninterrupted (g b c))"
  by (simp_all split: option.split sum.split prod.split)

section \<open>Rely and guarantee\<close>

inductive safe ::
  "('w \<Rightarrow> bool) \<Rightarrow> ('w \<Rightarrow> 'w \<Rightarrow> bool) \<Rightarrow> ('w \<Rightarrow> 'w \<Rightarrow> bool) \<Rightarrow> ('a \<Rightarrow> 'w \<Rightarrow> bool)
    \<Rightarrow> ('w, 'e, 'a) prog \<Rightarrow> 'w \<Rightarrow> bool"
  for I R G Q where
  safe_Done: "(\<And>a. x = Inr a \<Longrightarrow> Q a w) \<Longrightarrow> safe I R G Q (Done x) w"
| safe_Step: "(\<And>w1 p w2. R w w1 \<Longrightarrow> I w1 \<Longrightarrow> f w1 = (p, w2) \<Longrightarrow>
    I w2 \<and> G w1 w2 \<and> safe I R G Q p w2) \<Longrightarrow> safe I R G Q (Step f) w"

inductive_simps safe_Done_iff: "safe I R G Q (Done x) w"
inductive_simps safe_Step_iff: "safe I R G Q (Step f) w"

lemma safe_StepD:
  "safe I R G Q (Step f) w \<Longrightarrow> R w w1 \<Longrightarrow> I w1 \<Longrightarrow> f w1 = (p, w2) \<Longrightarrow> I w2 \<and> G w1 w2 \<and> safe I R G Q p w2"
  by (simp add: safe_Step_iff)

text \<open>
  A judgement for a whole piece of code: from every state with the invariant where \<open>P\<close>
  holds, and \<open>P\<close> is not disturbed by the others.
\<close>

definition guarded ::
  "('w \<Rightarrow> bool) \<Rightarrow> ('w \<Rightarrow> 'w \<Rightarrow> bool) \<Rightarrow> ('w \<Rightarrow> 'w \<Rightarrow> bool) \<Rightarrow> ('w \<Rightarrow> bool)
    \<Rightarrow> ('w, 'e, 'a) prog \<Rightarrow> ('a \<Rightarrow> 'w \<Rightarrow> bool) \<Rightarrow> bool" where
  "guarded I R G P p Q \<longleftrightarrow> (\<forall>w. P w \<longrightarrow> safe I R G Q p w)"

text \<open>Each step of an atomic action: the obligations are on that action alone.\<close>

lemma guarded_atom:
  fixes m :: "('w, 'e, 'a) act"
  assumes "\<And>w w1. P w \<Longrightarrow> R w w1 \<Longrightarrow> I w1 \<Longrightarrow> P w1"
    and "\<And>w x w'. I w \<Longrightarrow> P w \<Longrightarrow> m w = (x, w') \<Longrightarrow> I w' \<and> G w w'"
    and "\<And>w a w'. I w \<Longrightarrow> P w \<Longrightarrow> m w = (Inr a, w') \<Longrightarrow> Q a w'"
  shows "guarded I R G P (atom m) Q"
proof -
  have "safe I R G Q (atom m) w" if "P w" for w
    unfolding atom_def
  proof (rule safe_Step)
    fix w1 w2 and p :: "('w, 'e, 'a) prog"
    assume R: "R w w1" and I: "I w1" and "(case m w1 of (x, w') \<Rightarrow> (Done x, w')) = (p, w2)"
    then obtain x where m: "m w1 = (x, w2)" and p: "p = Done x"
      by (auto split: prod.splits)
    from assms(1) [OF that R I] have "P w1" .
    from assms(2,3) [OF I this] m show "I w2 \<and> G w1 w2 \<and> safe I R G Q p w2"
      by (auto simp: p intro: safe_Done)
  qed
  then show ?thesis by (simp add: guarded_def)
qed

lemma safe_bindP:
  assumes "safe I R G M p w" and "\<And>a w. M a w \<Longrightarrow> safe I R G Q (k a) w"
  shows "safe I R G Q (bindP p k) w"
  using assms(1)
proof induction
  case (safe_Done x w)
  then show ?case by (auto intro: safe.safe_Done assms(2) split: sum.split)
next
  case (safe_Step w f)
  then show ?case by (auto intro!: safe.safe_Step simp: map_prod_def split: prod.splits)
qed

lemma safe_catchP:
  assumes "safe I R G Q p w" and "\<And>e w. safe I R G Q (h e) w"
  shows "safe I R G Q (catchP p h) w"
  using assms(1)
proof induction
  case (safe_Done x w)
  then show ?case by (auto intro: safe.safe_Done assms(2) split: sum.split)
next
  case (safe_Step w f)
  then show ?case by (auto intro!: safe.safe_Step simp: map_prod_def split: prod.splits)
qed

lemma guarded_bindP:
  "guarded I R G P p M \<Longrightarrow> (\<And>a. guarded I R G (M a) (k a) Q) \<Longrightarrow> guarded I R G P (bindP p k) Q"
  by (auto simp: guarded_def intro: safe_bindP)

lemma guarded_catchP:
  "guarded I R G P p Q \<Longrightarrow> (\<And>e. guarded I R G (\<lambda>_. True) (h e) Q) \<Longrightarrow> guarded I R G P (catchP p h) Q"
  by (auto simp: guarded_def intro: safe_catchP)

lemma guarded_pre: "guarded I R G P' p Q \<Longrightarrow> (\<And>w. P w \<Longrightarrow> P' w) \<Longrightarrow> guarded I R G P p Q"
  by (auto simp: guarded_def)

lemma guarded_pure: "(b \<Longrightarrow> guarded I R G (\<lambda>_. True) p Q) \<Longrightarrow> guarded I R G (\<lambda>_. b) p Q"
  by (simp add: guarded_def)

lemma guarded_retP: "(\<And>w. P w \<Longrightarrow> Q a w) \<Longrightarrow> guarded I R G P (retP a) Q"
  by (auto simp: guarded_def retP_def intro: safe_Done)

lemma guarded_failP: "guarded I R G P (failP e) Q"
  by (auto simp: guarded_def failP_def intro: safe_Done)

lemma guarded_cases:
  "(b \<Longrightarrow> guarded I R G P p Q) \<Longrightarrow> (\<not> b \<Longrightarrow> guarded I R G P q Q) \<Longrightarrow> guarded I R G P (if b then p else q) Q"
  "(x = None \<Longrightarrow> guarded I R G P p Q) \<Longrightarrow> (\<And>a. x = Some a \<Longrightarrow> guarded I R G P (k a) Q) \<Longrightarrow>
   guarded I R G P (case x of None \<Rightarrow> p | Some a \<Rightarrow> k a) Q"
  "(\<And>e. y = Inl e \<Longrightarrow> guarded I R G P (h e) Q) \<Longrightarrow> (\<And>a. y = Inr a \<Longrightarrow> guarded I R G P (k a) Q) \<Longrightarrow>
   guarded I R G P (case y of Inl e \<Rightarrow> h e | Inr a \<Rightarrow> k a) Q"
  "(\<And>c d. z = (c, d) \<Longrightarrow> guarded I R G P (g c d) Q) \<Longrightarrow> guarded I R G P (case z of (c, d) \<Rightarrow> g c d) Q"
  by (auto split: option.split sum.split prod.split)

text \<open>What the others may do does not disturb a program that is already running.\<close>

lemma safe_interference:
  assumes "safe I R G (\<lambda>_ _. True) p w" and "transp R" and "R w w'"
  shows "safe I R G (\<lambda>_ _. True) p w'"
proof (cases p)
  case (Done x)
  then show ?thesis by (simp add: safe.safe_Done)
next
  case (Step f)
  show ?thesis
    unfolding Step
  proof (rule safe_Step)
    fix w1 q w2 assume "R w' w1" and "I w1" and "f w1 = (q, w2)"
    moreover have "R w w1"
      using assms(2,3) \<open>R w' w1\<close> by (rule transpD)
    ultimately show "I w2 \<and> G w1 w2 \<and> safe I R G (\<lambda>_ _. True) q w2"
      using assms(1) unfolding Step by (auto simp: safe_Step_iff)
  qed
qed

end
