(* ===== verification/Handler_Programs.thy ===== *)
theory Handler_Programs
  imports Router Interleaving
begin

text \<open>
  The handlers of \<open>internal/api\<close> as interruptible programs. The translation is the one of
  the theories \<open>Auth_Handler\<close>, \<open>User_Handler\<close>, \<open>Health_Handler\<close>, \<open>Middleware\<close> and
  \<open>Router\<close>, with a step for every call of a store: an \<open>atom\<close> makes at most one SQL
  statement or one Redis command, with the local code around it. Only the transaction of
  \<open>SoftDelete\<close> ends with a step of two statements: the \<open>UPDATE\<close> has no effect for others
  before the \<open>COMMIT\<close>, and the row that it writes is locked.

  Shown: executed without interruption, the program of every endpoint, and so the program of
  the router, is the action of the sequential model.
\<close>

type_synonym ('rd, 'a) handler_prog = "('rd world, response, 'a) prog"

lemmas branch_congs = if_cong option.case_cong sum.case_cong prod.case_cong

section \<open>Stores of more than one statement\<close>

definition stampCommit :: "uuid \<Rightarrow> ('rd, unit) store_act" where
  "stampCommit i =
     bindE (wrapPg ''soft-delete credential''
             (getE (\<lambda>w. update_where (\<lambda>r. row_id r = i) (mark_deleted (w_now w)) (w_creds w))))
       (\<lambda>uncommitted.
     wrapPg ''commit tx'' (putE (\<lambda>w. w\<lparr>w_creds := uncommitted\<rparr>)))"

definition SoftDelete_prog :: "uuid \<Rightarrow> ('rd world, err, unit) prog" where
  "SoftDelete_prog i =
     bindP (atom (wrapPg ''begin tx'' (ret ()))) (\<lambda>_.
     bindP (atom (catchE (pg_stmt (pg_query (\<lambda>w. map_option user_id
                (find (\<lambda>r. row_id r = i \<and> live r) (w_creds w)))))
             (\<lambda>p. if p = NoRows then failE ErrCredentialNotFound
                  else failE (Wrapped ''lock credential'' (PgCause p))))) (\<lambda>userID.
     bindP (atom (wrapPg ''count live credentials'' (getE (\<lambda>w. live_count (w_creds w) userID)))) (\<lambda>liveCount.
     if liveCount \<le> 1 then failP ErrLastCredential else
     atom (stampCommit i))))"

lemma run_SoftDelete [run_simps]: "uninterrupted (SoftDelete_prog i) = CredentialStore_SoftDelete i"
  by (simp add: SoftDelete_prog_def stampCommit_def CredentialStore_SoftDelete_def run_simps cong: branch_congs)

section \<open>Registration\<close>

definition BeginRegister_prog :: "('rd, 'sess, 'pc, 'pa) auth_env \<Rightarrow> request \<Rightarrow> ('rd, response) handler_prog" where
  "BeginRegister_prog env r =
     bindP (atom (decodeBegin r)) (\<lambda>req.
     bindP (atom (tryE (UserStore_GetByUsername (begin_Username req)))) (\<lambda>looked.
     bindP (atom (case looked of
         Inr _ \<Rightarrow> reject 409 ''username_taken''
       | Inl e \<Rightarrow> if e = ErrUserNotFound then ret () else internal ''register: lookup username'')) (\<lambda>_.
     bindP (atom (orInternal ''register: user handle'' NewUserHandle)) (\<lambda>handle.
     bindP (atom (orInternal ''register: session id'' newSessionID)) (\<lambda>sessionID.
     bindP (atom (orInternal ''register: webauthn begin'' (Service_BeginRegistration (env_webauthn env)
         \<lparr>Handle = handle, wa_Name = begin_Username req, wa_DisplayName = begin_DisplayName req,
          wa_Credentials = None\<rparr> sessionID))) (\<lambda>(options, session).
     bindP (atom (someOrInternal ''register: marshal session'' (marshal_registrationSession env
         \<lparr>reg_Session = session, reg_Username = begin_Username req,
          reg_DisplayName = begin_DisplayName req, reg_PromoteUserID = uuid_Nil, reg_Promote = False\<rparr>)))
       (\<lambda>payload.
     bindP (atom (orInternal ''register: save challenge''
         (ChallengeStore_Save (env_redis env) (env_challengeTTL env) sessionID payload))) (\<lambda>_.
     atom (writeJSON 200 options)))))))))"

definition CompleteRegister_prog :: "('rd, 'sess, 'pc, 'pa) auth_env \<Rightarrow> request \<Rightarrow> ('rd, response) handler_prog" where
  "CompleteRegister_prog env r =
     bindP (atom (decodeComplete r)) (\<lambda>(sessionID, body).
     bindP (atom (takeChallenge env ''register complete: take challenge'' sessionID)) (\<lambda>raw.
     bindP (atom (someOrInternal ''register complete: unmarshal session''
         (unmarshal_registrationSession env raw))) (\<lambda>stored.
     if reg_Promote stored then atom (reject 401 ''session_invalid'') else
     let waUser = \<lparr>Handle = sess_UserID (env_webauthn env) (reg_Session stored),
                   wa_Name = reg_Username stored, wa_DisplayName = reg_DisplayName stored,
                   wa_Credentials = None\<rparr> in
     bindP (atom (verifyAttestation env ''register complete: parse credential''
         ''register complete: verify attestation'' waUser (reg_Session stored) body)) (\<lambda>cred.
     bindP (atom (catchE (UserStore_CreateRegistered (reg_Username stored) (reg_DisplayName stored)) (\<lambda>e.
         if e = ErrUsernameTaken then reject 409 ''username_taken''
         else internal ''register complete: create user''))) (\<lambda>user.
     bindP (atom (someOrInternal ''register complete: convert credential''
         (domainCredentialFromLib (env_uuid env) (user_ID user) (Handle waUser) cred))) (\<lambda>domainCred.
     bindP (atom (catchE (CredentialStore_Insert domainCred) (\<lambda>e.
         if e = ErrCredentialExists then reject 409 ''credential_exists''
         else internal ''register complete: insert credential''))) (\<lambda>saved.
     atom (writeJSON 200 (completeRegisterResponse env (user_ID user) (cred_ID saved))))))))))"

section \<open>Login\<close>

definition BeginLogin_prog :: "('rd, 'sess, 'pc, 'pa) auth_env \<Rightarrow> request \<Rightarrow> ('rd, response) handler_prog" where
  "BeginLogin_prog env r =
     bindP (atom (orInternal ''login: session id'' newSessionID)) (\<lambda>sessionID.
     bindP (atom (orInternal ''login: webauthn begin'' (Service_BeginLogin (env_webauthn env) sessionID)))
       (\<lambda>(options, session).
     bindP (atom (someOrInternal ''login: marshal session''
         (marshal_loginSession env \<lparr>login_Session = session\<rparr>))) (\<lambda>payload.
     bindP (atom (orInternal ''login: save challenge''
         (ChallengeStore_Save (env_redis env) (env_challengeTTL env) sessionID payload))) (\<lambda>_.
     atom (writeJSON 200 options)))))"

text \<open>The resolver makes two queries, and the library may call it any number of times.\<close>

definition resolver_prog ::
  "('sess, 'pc, 'pa) webauthn_lib \<Rightarrow> 'pa \<Rightarrow> slice \<Rightarrow> slice \<Rightarrow> resolved
    \<Rightarrow> ('rd world, err, wa_user option \<times> resolved) prog" where
  "resolver_prog W parsed rawID userHandle c =
     bindP (atom (tryE (CredentialStore_GetByCredentialID (pa_RawID W parsed)))) (\<lambda>x. case x of
       Inl _ \<Rightarrow> retP (None, c)
     | Inr dbCred \<Rightarrow>
         bindP (atom (tryE (UserStore_GetByID (cred_UserID dbCred)))) (\<lambda>y. case y of
           Inl _ \<Rightarrow> retP (None, c)
         | Inr dbUser \<Rightarrow>
             retP (Some \<lparr>Handle = WebAuthnUserHandle dbCred, wa_Name = Username dbUser,
                        wa_DisplayName = DisplayName dbUser,
                        wa_Credentials = Some [libCredentialFromDomain dbCred]\<rparr>,
                  (Some dbUser, Some dbCred))))"

primrec login_steps ::
  "login_prog \<Rightarrow> (slice \<Rightarrow> slice \<Rightarrow> 'c \<Rightarrow> ('w, 'e, wa_user option \<times> 'c) prog) \<Rightarrow> 'c
    \<Rightarrow> ('w, 'e, lib_credential option \<times> 'c) prog" where
  "login_steps (LoginDone res) h c = retP (res, c)"
| "login_steps (CallHandler rawID userHandle k) h c =
     bindP (h rawID userHandle c) (\<lambda>(u, c'). login_steps (k u) h c')"

definition ValidateLogin_prog ::
  "('sess, 'pc, 'pa) webauthn_lib \<Rightarrow> (slice \<Rightarrow> slice \<Rightarrow> 'c \<Rightarrow> ('rd world, err, wa_user option \<times> 'c) prog) \<Rightarrow> 'c
    \<Rightarrow> 'sess \<Rightarrow> 'pa \<Rightarrow> ('rd world, err, lib_credential \<times> 'c) prog" where
  "ValidateLogin_prog W h c session parsed =
     bindP (atom (getE w_now)) (\<lambda>now.
     bindP (login_steps (lib_ValidateDiscoverableLogin W now session parsed) h c) (\<lambda>(res, c').
     case res of
       None \<Rightarrow> failP (Wrapped ''validate login'' OtherCause)
     | Some cred \<Rightarrow> retP (cred, c')))"

definition CompleteLogin_prog :: "('rd, 'sess, 'pc, 'pa) auth_env \<Rightarrow> request \<Rightarrow> ('rd, response) handler_prog" where
  "CompleteLogin_prog env r =
     bindP (atom (decodeComplete r)) (\<lambda>(sessionID, body).
     bindP (atom (takeChallenge env ''login complete: take challenge'' sessionID)) (\<lambda>raw.
     bindP (atom (someOrInternal ''login complete: unmarshal session''
         (unmarshal_loginSession env raw))) (\<lambda>stored.
     bindP (atom (catchE (Service_ParseCredentialAssertion (env_webauthn env) body)
         (\<lambda>_. warnReject ''login complete: parse credential'' 400 ''invalid_request''))) (\<lambda>parsed.
     bindP (catchP (ValidateLogin_prog (env_webauthn env) (resolver_prog (env_webauthn env) parsed)
              (None, None) (login_Session stored) parsed)
         (\<lambda>_. atom (warnReject ''login complete: validate'' 401 ''unauthorized''))) (\<lambda>(cred, c).
     case c of
       (Some resolvedUser, Some resolvedCred) \<Rightarrow>
         bindP (atom (recordCounterAnomalies (env_uuid env) resolvedCred cred)) (\<lambda>_.
         bindP (atom (orInternal ''login complete: update credential''
             (CredentialStore_UpdateAfterAssertion (cred_ID resolvedCred)
                (au_SignCount (lib_Authenticator cred)) (fl_BackupEligible (lib_Flags cred))
                (fl_BackupState (lib_Flags cred))))) (\<lambda>_.
         bindP (atom (orInternal ''login complete: create session''
             (SessionStore_Create (env_redis env) (env_uuid env) (env_sessionTTL env)
                (user_ID resolvedUser)))) (\<lambda>token.
         bindP (atom (setSessionCookie r token (sessionMaxAge env))) (\<lambda>_.
         bindP (atom (dropGuest env ''login complete: delete guest'' r)) (\<lambda>_.
         atom (writeJSON 200 (completeLoginResponse env resolvedUser)))))))
     | _ \<Rightarrow> atom (internal ''login complete: resolver bypassed''))))))"

definition Logout_prog :: "('rd, 'sess, 'pc, 'pa) auth_env \<Rightarrow> request \<Rightarrow> ('rd, response) handler_prog" where
  "Logout_prog env r =
     bindP (atom (case cookie_value SessionCookieName r of
         None \<Rightarrow> ret ()
       | Some tok \<Rightarrow> catchE (SessionStore_Delete (env_redis env) tok)
                      (\<lambda>_. logE LevelWarn ''logout: delete session''))) (\<lambda>_.
     bindP (atom (clearSessionCookie r)) (\<lambda>_.
     atom (writeStatus 204)))"

section \<open>Guests and promotion\<close>

definition resolveGuest_prog ::
  "('rd, 'sess, 'pc, 'pa) auth_env \<Rightarrow> request \<Rightarrow> ('rd world, 'e, user option) prog" where
  "resolveGuest_prog env r = (case cookie_value GuestCookieName r of
      None \<Rightarrow> retP None
    | Some tok \<Rightarrow>
        bindP (atom (tryE (GuestStore_Get (env_redis env) (env_uuid env) tok))) (\<lambda>x. case x of
          Inl _ \<Rightarrow> retP None
        | Inr userID \<Rightarrow>
            bindP (atom (tryE (UserStore_GetByID userID))) (\<lambda>y. case y of
              Inl _ \<Rightarrow> retP None | Inr user \<Rightarrow> retP (Some user))))"

definition Guest_prog :: "('rd, 'sess, 'pc, 'pa) auth_env \<Rightarrow> request \<Rightarrow> ('rd, response) handler_prog" where
  "Guest_prog env r =
     bindP (resolveGuest_prog env r) (\<lambda>known.
     bindP (atom (case known of
         None \<Rightarrow> ret ()
       | Some user \<Rightarrow>
           whenE (IsGuest user) (bindE (writeJSON 200 (guestResponse env (user_ID user))) failE))) (\<lambda>_.
     bindP (atom next_call) (\<lambda>n.
     bindP (atom (orInternal ''guest: create user''
         (UserStore_CreateGuest (''guest-'' @ uuid_NewString (env_uuid env) n) ''Guest''))) (\<lambda>user.
     bindP (atom (orInternal ''guest: mint token''
         (GuestStore_Create (env_redis env) (env_uuid env) (env_guestTTL env) (user_ID user)))) (\<lambda>token.
     bindP (atom (setGuestCookie r token (guestMaxAge env))) (\<lambda>_.
     atom (writeJSON 200 (guestResponse env (user_ID user)))))))))"

definition BeginPromote_prog :: "('rd, 'sess, 'pc, 'pa) auth_env \<Rightarrow> request \<Rightarrow> ('rd, response) handler_prog" where
  "BeginPromote_prog env r =
     bindP (atom (decodeBegin r)) (\<lambda>req.
     bindP (resolveGuest_prog env r) (\<lambda>known.
     bindP (atom (case known of
         None \<Rightarrow> reject 401 ''guest_invalid''
       | Some guest \<Rightarrow> if \<not> IsGuest guest then reject 409 ''not_a_guest'' else ret guest)) (\<lambda>guest.
     bindP (atom (orInternal ''promote: user handle'' NewUserHandle)) (\<lambda>handle.
     bindP (atom (orInternal ''promote: session id'' newSessionID)) (\<lambda>sessionID.
     bindP (atom (orInternal ''promote: webauthn begin'' (Service_BeginRegistration (env_webauthn env)
         \<lparr>Handle = handle, wa_Name = begin_Username req, wa_DisplayName = begin_DisplayName req,
          wa_Credentials = None\<rparr> sessionID))) (\<lambda>(options, session).
     bindP (atom (someOrInternal ''promote: marshal session'' (marshal_registrationSession env
         \<lparr>reg_Session = session, reg_Username = begin_Username req,
          reg_DisplayName = begin_DisplayName req, reg_PromoteUserID = user_ID guest, reg_Promote = True\<rparr>)))
       (\<lambda>payload.
     bindP (atom (orInternal ''promote: save challenge''
         (ChallengeStore_Save (env_redis env) (env_challengeTTL env) sessionID payload))) (\<lambda>_.
     atom (writeJSON 200 options)))))))))"

definition CompletePromote_prog :: "('rd, 'sess, 'pc, 'pa) auth_env \<Rightarrow> request \<Rightarrow> ('rd, response) handler_prog" where
  "CompletePromote_prog env r =
     bindP (atom (decodeComplete r)) (\<lambda>(sessionID, body).
     bindP (atom (takeChallenge env ''promote complete: take challenge'' sessionID)) (\<lambda>raw.
     bindP (atom (someOrInternal ''promote complete: unmarshal session''
         (unmarshal_registrationSession env raw))) (\<lambda>stored.
     if \<not> reg_Promote stored then atom (reject 401 ''session_invalid'') else
     let waUser = \<lparr>Handle = sess_UserID (env_webauthn env) (reg_Session stored),
                   wa_Name = reg_Username stored, wa_DisplayName = reg_DisplayName stored,
                   wa_Credentials = None\<rparr> in
     bindP (atom (verifyAttestation env ''promote complete: parse credential''
         ''promote complete: verify attestation'' waUser (reg_Session stored) body)) (\<lambda>cred.
     bindP (atom (catchE (UserStore_PromoteGuest (reg_PromoteUserID stored) (reg_Username stored)
              (reg_DisplayName stored)) (\<lambda>e.
         if e = ErrUsernameTaken then reject 409 ''username_taken''
         else if e = ErrUserNotFound then reject 409 ''not_a_guest''
         else internal ''promote complete: promote user''))) (\<lambda>promoted.
     bindP (atom (someOrInternal ''promote complete: convert credential''
         (domainCredentialFromLib (env_uuid env) (user_ID promoted) (Handle waUser) cred))) (\<lambda>domainCred.
     bindP (atom (catchE (CredentialStore_Insert domainCred) (\<lambda>e.
         if e = ErrCredentialExists then reject 409 ''credential_exists''
         else internal ''promote complete: insert credential''))) (\<lambda>_.
     bindP (atom (orInternal ''promote complete: create session''
         (SessionStore_Create (env_redis env) (env_uuid env) (env_sessionTTL env) (user_ID promoted))))
       (\<lambda>token.
     bindP (atom (dropGuest env ''promote complete: delete guest'' r)) (\<lambda>_.
     bindP (atom (setSessionCookie r token (sessionMaxAge env))) (\<lambda>_.
     atom (writeJSON 200 (completeLoginResponse env promoted))))))))))))"

section \<open>Users, health and middleware\<close>

definition RequireSession_prog ::
  "'rd redis_client \<Rightarrow> uuid_lib \<Rightarrow> (request \<Rightarrow> ('rd, response) handler_prog) \<Rightarrow> request
    \<Rightarrow> ('rd, response) handler_prog" where
  "RequireSession_prog R L next r = (case cookie_value SessionCookieName r of
      None \<Rightarrow> atom (bindE writeUnauthorized failE)
    | Some tok \<Rightarrow>
        bindP (atom (catchE (SessionStore_Get R L tok) (\<lambda>e.
            if e = ErrSessionNotFound then bindE writeUnauthorized failE
            else bindE (logE LevelError ''session lookup'') (\<lambda>_. bindE writeInternalError failE))))
          (\<lambda>userID. next (r\<lparr>ctx_user := Some userID\<rparr>)))"

definition Me_prog :: "uuid_lib \<Rightarrow> request \<Rightarrow> ('rd, response) handler_prog" where
  "Me_prog L r =
     bindP (atom (requireUser r)) (\<lambda>userID.
     bindP (atom (catchE (UserStore_GetByID userID) (\<lambda>e.
         if e = ErrUserNotFound then reject 401 ''unauthorized'' else internal ''user me: get user'')))
       (\<lambda>user.
     atom (writeJSON 200 (meResponse L user))))"

definition ListCredentials_prog ::
  "uuid_lib \<Rightarrow> (time \<Rightarrow> string) \<Rightarrow> request \<Rightarrow> ('rd, response) handler_prog" where
  "ListCredentials_prog L T r =
     bindP (atom (requireUser r)) (\<lambda>userID.
     bindP (atom (orInternal ''list credentials'' (CredentialStore_ListByUserID userID))) (\<lambda>creds.
     atom (writeJSON 200 (JArr (map (credentialResponse L T) creds)))))"

definition DeleteCredential_prog :: "uuid_lib \<Rightarrow> request \<Rightarrow> ('rd, response) handler_prog" where
  "DeleteCredential_prog L r =
     bindP (atom (requireUser r)) (\<lambda>userID.
     bindP (atom (case uuid_Parse L (url_id r) of
         None \<Rightarrow> reject 400 ''invalid_request'' | Some i \<Rightarrow> ret i)) (\<lambda>credID.
     bindP (atom (orInternal ''delete credential: list'' (CredentialStore_ListByUserID userID))) (\<lambda>owned.
     if \<not> (\<exists>c \<in> set owned. cred_ID c = credID) then atom (reject 404 ''not_found'') else
     bindP (catchP (SoftDelete_prog credID) (\<lambda>e. atom
        (if e = ErrLastCredential then reject 409 ''last_credential''
         else if e = ErrCredentialNotFound then reject 404 ''not_found''
         else internal ''delete credential: soft delete''))) (\<lambda>_.
     atom (writeStatus 204)))))"

definition Ready_prog :: "'rd health_deps \<Rightarrow> request \<Rightarrow> ('rd, response) handler_prog" where
  "Ready_prog h r =
     bindP (atom (probe (health_Postgres h))) (\<lambda>pg.
     bindP (atom (probe (health_Redis h))) (\<lambda>rd.
     let degraded = (pg \<noteq> None \<and> pg \<noteq> Some ''ok'') \<or> (rd \<noteq> None \<and> rd \<noteq> Some ''ok'');
         status = (if degraded then ''degraded'' else ''ok'')
     in atom (writeJSON (if status \<noteq> ''ok'' then 503 else 200) (readyResponse status pg rd))))"

text \<open>The logger reads the clock before and after the inner handler, and writes its line at the end.\<close>

definition RequestLogger_prog ::
  "chi_log \<Rightarrow> uuid_lib \<Rightarrow> (request \<Rightarrow> ('rd, response) handler_prog) \<Rightarrow> request
    \<Rightarrow> ('rd, response) handler_prog" where
  "RequestLogger_prog C L next r =
     (if skipLogging (req_Path r) then next r
      else bindP (atom (getE w_now)) (\<lambda>start.
           bindP (catchP (next r) retP) (\<lambda>resp.
           atom (\<lambda>w. (Inr resp, w\<lparr>w_log := w_log w @
             [\<lparr>log_level = requestLevel (resp_Status resp), log_msg = ''http request'',
               log_attrs = toAttrs (requestAttrs C L r resp (w_now w - start))\<rparr>]\<rparr>)))))"

section \<open>Router\<close>

definition requireSession_prog ::
  "('rd, 'sess, 'pc, 'pa) server \<Rightarrow> (request \<Rightarrow> ('rd, response) handler_prog) \<Rightarrow> request
    \<Rightarrow> ('rd, response) handler_prog" where
  "requireSession_prog s = RequireSession_prog (env_redis (srv_auth s)) (env_uuid (srv_auth s))"

fun endpoint_prog :: "('rd, 'sess, 'pc, 'pa) server \<Rightarrow> endpoint \<Rightarrow> request \<Rightarrow> ('rd, response) handler_prog" where
  "endpoint_prog s EpLive = (\<lambda>r. atom (Live r))"
| "endpoint_prog s EpReady = Ready_prog (newHealth (env_redis (srv_auth s)))"
| "endpoint_prog s (EpIndex page) = (\<lambda>r. atom (writePage page))"
| "endpoint_prog s EpBeginRegister = BeginRegister_prog (srv_auth s)"
| "endpoint_prog s EpCompleteRegister = CompleteRegister_prog (srv_auth s)"
| "endpoint_prog s EpBeginLogin = BeginLogin_prog (srv_auth s)"
| "endpoint_prog s EpCompleteLogin = CompleteLogin_prog (srv_auth s)"
| "endpoint_prog s EpLogout = Logout_prog (srv_auth s)"
| "endpoint_prog s EpGuest = Guest_prog (srv_auth s)"
| "endpoint_prog s EpBeginPromote = BeginPromote_prog (srv_auth s)"
| "endpoint_prog s EpCompletePromote = CompletePromote_prog (srv_auth s)"
| "endpoint_prog s EpMe = requireSession_prog s (Me_prog (env_uuid (srv_auth s)))"
| "endpoint_prog s EpListCredentials =
     requireSession_prog s (ListCredentials_prog (env_uuid (srv_auth s)) (srv_printTime s))"
| "endpoint_prog s EpDeleteCredential = requireSession_prog s (DeleteCredential_prog (env_uuid (srv_auth s)))"

definition dispatch_prog :: "('rd, 'sess, 'pc, 'pa) server \<Rightarrow> request \<Rightarrow> ('rd, response) handler_prog" where
  "dispatch_prog s r =
     (let notFound = (\<lambda>r. retP (chi_NotFound (srv_chi s) r)) in
      case chi_Match (srv_chi s) (map (\<lambda>(m, p, e). (m, p)) (routes (srv_indexHTML s))) r of
        Some (i, param) \<Rightarrow>
          if i < length (routes (srv_indexHTML s))
          then endpoint_prog s (snd (snd (routes (srv_indexHTML s) ! i))) (r\<lparr>url_id := param\<rparr>)
          else notFound r
      | None \<Rightarrow>
          if chi_Mounted (srv_chi s) guardedPrefix r then requireSession_prog s notFound r else notFound r)"

definition New_prog :: "('rd, 'sess, 'pc, 'pa) server \<Rightarrow> request \<Rightarrow> ('rd, response) handler_prog" where
  "New_prog s r = RequestLogger_prog (chi_log.truncate (srv_chi s)) (env_uuid (srv_auth s)) (dispatch_prog s)
               (chi_RealIP (srv_chi s) (chi_RequestID (srv_chi s) r))"

section \<open>Without interruption the programs are the handlers\<close>

lemma run_login_steps [run_simps]: "uninterrupted (login_steps p h c) = run_login p (\<lambda>a b c. uninterrupted (h a b c)) c"
  by (induction p arbitrary: c) (simp_all add: run_simps cong: branch_congs)

lemma run_resolver [run_simps]: "uninterrupted (resolver_prog W parsed a b c) = resolver W parsed a b c"
  by (simp add: resolver_prog_def resolver_def run_simps cong: branch_congs)

lemma run_resolveGuest [run_simps]: "uninterrupted (resolveGuest_prog env r) = resolveGuest env r"
  by (simp add: resolveGuest_prog_def resolveGuest_def run_simps cong: branch_congs)

lemma run_ValidateLogin [run_simps]:
  "uninterrupted (ValidateLogin_prog W h c s p) = Service_ValidateLogin W (\<lambda>a b c. uninterrupted (h a b c)) c s p"
  by (simp add: ValidateLogin_prog_def Service_ValidateLogin_def run_simps cong: branch_congs)

lemma run_registration [run_simps]:
  "uninterrupted (BeginRegister_prog env r) = BeginRegister env r"
  "uninterrupted (CompleteRegister_prog env r) = CompleteRegister env r"
  by (simp_all add: BeginRegister_prog_def BeginRegister_def CompleteRegister_prog_def CompleteRegister_def
      run_simps Let_def cong: branch_congs)

lemma run_login_flow [run_simps]:
  "uninterrupted (BeginLogin_prog env r) = BeginLogin env r"
  "uninterrupted (CompleteLogin_prog env r) = CompleteLogin env r"
  "uninterrupted (Logout_prog env r) = Logout env r"
  by (simp_all add: BeginLogin_prog_def BeginLogin_def CompleteLogin_prog_def CompleteLogin_def Logout_prog_def
      Logout_def run_simps cong: branch_congs)

lemma run_guest_flow [run_simps]:
  "uninterrupted (Guest_prog env r) = Guest env r"
  "uninterrupted (BeginPromote_prog env r) = BeginPromote env r"
  "uninterrupted (CompletePromote_prog env r) = CompletePromote env r"
  by (simp_all add: Guest_prog_def Guest_def BeginPromote_prog_def BeginPromote_def CompletePromote_prog_def
      CompletePromote_def run_simps Let_def cong: branch_congs)

lemma run_users [run_simps]:
  "uninterrupted (Me_prog L r) = Me L r"
  "uninterrupted (ListCredentials_prog L T r) = ListCredentials L T r"
  "uninterrupted (DeleteCredential_prog L r) = DeleteCredential L r"
  "uninterrupted (Ready_prog h r) = Ready h r"
  by (simp_all add: Me_prog_def Me_def ListCredentials_prog_def ListCredentials_def DeleteCredential_prog_def
      DeleteCredential_def Ready_prog_def Ready_def run_simps Let_def cong: branch_congs)

lemma run_RequireSession [run_simps]:
  "uninterrupted (RequireSession_prog R L next r) = RequireSession R L (\<lambda>r. uninterrupted (next r)) r"
  by (simp add: RequireSession_prog_def RequireSession_def run_simps cong: branch_congs)

lemma run_RequestLogger [run_simps]:
  "uninterrupted (RequestLogger_prog C L next r) = RequestLogger C L (\<lambda>r. uninterrupted (next r)) r"
  by (auto simp: RequestLogger_prog_def RequestLogger_def run_simps bindE_def catchE_def getE_def ret_def serve_def
      split: prod.split sum.split)

lemma run_endpoint [run_simps]: "uninterrupted (endpoint_prog s e r) = endpoint_handler s e r"
  by (cases e) (simp_all add: requireSession_prog_def requireSession_def run_simps cong: branch_congs)

lemma run_dispatch [run_simps]: "uninterrupted (dispatch_prog s r) = dispatch s r"
  by (simp add: dispatch_prog_def dispatch_def requireSession_prog_def requireSession_def run_simps cong: branch_congs)

end
