(* ===== verification/Concurrent_Service.thy ===== *)
theory Concurrent_Service
  imports Handler_Programs Service_Invariants
begin

text \<open>
  The service with overlapping requests: every request is a thread that runs the program of
  the router on its own response header, the steps of the threads interleave in any order, new
  requests arrive and the server may be killed and restarted at any moment, which loses the
  threads and keeps the stores.

  The rows that PostgreSQL locks during \<open>SoftDelete\<close> are not locked here, so the system has
  more interleavings than the service; what is shown of all of them holds for the service.

  Shown, for every invariant of the stores (the locale \<open>service_invariant\<close>): it holds in
  every state of every interleaving. The argument is rely/guarantee with one relation for
  both sides: no step of any handler unregisters or removes a user, removes the row of a passkey or
  changes its owner.
\<close>

named_theorems grower_rules \<open>actions that lose neither users nor passkeys\<close>
named_theorems guarded_rules \<open>programs that keep the invariant under interference\<close>

section \<open>The system\<close>

record 'rd thread =
  th_prog :: "('rd, response) handler_prog"
  th_header :: "cookie list"

definition new_thread :: "('rd, 'sess, 'pc, 'pa) server \<Rightarrow> request \<Rightarrow> 'rd thread" where
  "new_thread s r = \<lparr>th_prog = New_prog s (r\<lparr>ctx_user := None\<rparr>), th_header = []\<rparr>"

text \<open>One step of a thread: on the shared state, with the header of its own response.\<close>

fun thread_step :: "'rd thread \<Rightarrow> 'rd world \<Rightarrow> ('rd thread \<times> 'rd world) option" where
  "thread_step t w = (case th_prog t of
      Done _ \<Rightarrow> None
    | Step f \<Rightarrow> (case f (w\<lparr>w_header := th_header t\<rparr>) of
        (p, w') \<Rightarrow> Some (\<lparr>th_prog = p, th_header = w_header w'\<rparr>, w'\<lparr>w_header := w_header w\<rparr>)))"

inductive system_step ::
  "('rd, 'sess, 'pc, 'pa) server \<Rightarrow> 'rd thread list \<times> 'rd world \<Rightarrow> 'rd thread list \<times> 'rd world \<Rightarrow> bool"
  for s where
  arrive: "system_step s (ts, w) (ts @ [new_thread s r], w)"
| advance: "i < length ts \<Longrightarrow> thread_step (ts ! i) w = Some (t, w') \<Longrightarrow> system_step s (ts, w) (ts[i := t], w')"
| restart: "system_step s (ts, w) ([], w)"
| pass: "w_now w \<le> t \<Longrightarrow> system_step s (ts, w) (ts, w\<lparr>w_now := t\<rparr>)"
| fault: "system_step s (ts, w) (ts, w\<lparr>w_pg := p\<rparr>)"

inductive interleaved ::
  "('rd, 'sess, 'pc, 'pa) server \<Rightarrow> 'rd world \<Rightarrow> 'rd thread list \<times> 'rd world \<Rightarrow> bool"
  for s w0 where
  boot: "interleaved s w0 ([], w0)"
| move: "interleaved s w0 c \<Longrightarrow> system_step s c c' \<Longrightarrow> interleaved s w0 c'"

section \<open>Nothing is lost\<close>

text \<open>\<open>owned w i u\<close>: the passkey with row id \<open>i\<close>, deleted or not, belongs to \<open>u\<close>.\<close>

definition owned :: "'rd world \<Rightarrow> uuid \<Rightarrow> uuid \<Rightarrow> bool" where
  "owned w i u \<longleftrightarrow> (\<exists>r \<in> set (w_creds w). row_id r = i \<and> user_id r = u)"

text \<open>Registered users stay registered, users stay, and so do passkeys and their owners.\<close>

definition grows :: "'rd world \<Rightarrow> 'rd world \<Rightarrow> bool" where
  "grows w w' \<longleftrightarrow> (\<forall>u. registered w u \<longrightarrow> registered w' u) \<and> (\<forall>u. known w u \<longrightarrow> known w' u)
     \<and> (\<forall>i u. owned w i u \<longrightarrow> owned w' i u)"

lemma grows_refl: "db w' = db w \<Longrightarrow> grows w w'"
  by (simp add: grows_def registered_def known_def owned_def db_def)

lemma grows_trans: "transp grows"
  by (rule transpI) (simp add: grows_def)

lemma grows_header [simp]:
  "grows (w\<lparr>w_header := h\<rparr>) w' = grows w w'" "grows w (w'\<lparr>w_header := h\<rparr>) = grows w w'"
  by (simp_all add: grows_def registered_def known_def owned_def)

definition grower :: "('rd world, 'e, 'a) act \<Rightarrow> bool" where
  "grower m \<longleftrightarrow> (\<forall>w. grows w (snd (m w)))"

lemma growerD: "grower m \<Longrightarrow> m w = (x, w') \<Longrightarrow> grows w w'"
  by (metis grower_def snd_conv)

lemma grower_keeps: "keeps db m \<Longrightarrow> grower m"
  by (simp add: keeps_def grower_def grows_refl)

lemma grower_holds:
  "(\<And>u. holds (\<lambda>w. registered w u) m) \<Longrightarrow> (\<And>u. holds (\<lambda>w. known w u) m) \<Longrightarrow>
   (\<And>i u. holds (\<lambda>w. owned w i u) m) \<Longrightarrow> grower m"
  unfolding grower_def grows_def
  using holds_snd [of "\<lambda>w. registered w u" m for u] holds_snd [of "\<lambda>w. known w u" m for u]
    holds_snd [of "\<lambda>w. owned w i u" m for i u] by blast

lemma keeps_owned: "keeps w_creds m \<Longrightarrow> holds (\<lambda>w. owned w i u) m"
  by (rule holdsI, drule keepsD, assumption, simp add: owned_def)

lemma grower_user_store [grower_rules]:
  "grower (UserStore_CreateGuest n d)" "grower (UserStore_CreateRegistered n d)"
  "grower (UserStore_PromoteGuest i n d)"
  by (rule grower_holds; (rule user_store_grows)?; intro keeps_owned keeps_rules; simp)+

lemma owned_pg [simp]: "owned (w\<lparr>w_pg := k\<rparr>) i u = owned w i u"
  by (simp add: owned_def)

lemma owned_update:
  assumes "owned w i u" and "\<And>r. row_id (f r) = row_id r \<and> user_id (f r) = user_id r"
    and "w_creds w' = update_where p f (w_creds w)"
  shows "owned w' i u"
proof -
  from assms(1) obtain r where "r \<in> set (w_creds w)" "row_id r = i" "user_id r = u"
    by (auto simp: owned_def)
  then show ?thesis
    unfolding owned_def assms(3) set_update_where
    by (intro bexI [of _ "if p r then f r else r"]) (use assms(2) in auto)
qed

lemma grower_credential_store [grower_rules]:
  "grower (CredentialStore_Insert c)" "grower (CredentialStore_UpdateAfterAssertion j k be bs)"
proof -
  have one: "holds (\<lambda>w. owned w i u) (insert_credential c)" for i u
    by (auto simp: spec_def insert_credential_def Let_def owned_def)
  have ins: "holds (\<lambda>w. owned w i u) (CredentialStore_Insert c)" for i u
    unfolding CredentialStore_Insert_def by (intro spec_rules one; simp)
  have two: "holds (\<lambda>w. owned w i u) (update_live j f)" if "\<And>t r. row_id (f t r) = row_id r \<and> user_id (f t r) = user_id r"
    for i u and f :: "time \<Rightarrow> cred_row \<Rightarrow> cred_row"
  proof (rule holdsI)
    fix w :: "'rd world" and x w' assume own: "owned w i u" and "update_live j f w = (x, w')"
    then show "owned w' i u"
      using owned_update [OF own, of "f (w_now w)" w'] that by (auto simp: update_live_def)
  qed
  have upd: "holds (\<lambda>w. owned w i u) (CredentialStore_UpdateAfterAssertion j k be bs)" for i u
    unfolding CredentialStore_UpdateAfterAssertion_def by (intro spec_rules two; simp)
  show "grower (CredentialStore_Insert c)" "grower (CredentialStore_UpdateAfterAssertion j k be bs)"
    by (rule grower_holds; (rule ins upd)?; intro keeps_users_grow keeps_rules; simp)+
qed

lemma grower_catchE [grower_rules]:
  assumes "grower m" and "\<And>e. keeps db (h e)"
  shows "grower (catchE m h)"
proof -
  have "grows w (snd (catchE m h w))" for w
    using growerD [OF assms(1)] grower_keeps [OF assms(2)] transpD [OF grows_trans]
    by (fastforce simp: catchE_def grower_def split: prod.split sum.split)
  then show ?thesis by (simp add: grower_def)
qed

lemma grower_orInternal [grower_rules]: "grower m \<Longrightarrow> grower (orInternal msg m)"
  unfolding orInternal_def by (rule grower_catchE) (auto intro!: keeps_rules)

text \<open>On whatever state it acts, the last step leaves the database alone or stamps the one row.\<close>

lemma stampCommit_effect:
  assumes "stampCommit i w = (x, w')"
  shows "w_users w' = w_users w" and "w_rd w' = w_rd w" and "w_now w' = w_now w"
    and "w_creds w' = w_creds w \<or> w_creds w' = update_where (\<lambda>r. row_id r = i) (mark_deleted (w_now w)) (w_creds w)"
  using assms
  by (auto simp: stampCommit_def wrapPg_def act_defs pg_stmt_def pg_next_def
      split: prod.splits sum.splits list.splits pg_outcome.splits)

lemma grower_stampCommit [grower_rules]: "grower (stampCommit i)"
proof -
  have "grows w w'" if "stampCommit i w = (x, w')" for w x and w' :: "'rd world"
  proof -
    note effect = stampCommit_effect [OF that]
    have "owned w' j u" if "owned w j u" for j u
      using effect(4)
    proof
      assume "w_creds w' = w_creds w"
      with that show ?thesis by (simp add: owned_def)
    qed (rule owned_update [OF that, of "mark_deleted (w_now w)"], simp_all)
    with effect(1) show ?thesis by (simp add: grows_def registered_def known_def)
  qed
  then show ?thesis
    unfolding grower_def by (metis surjective_pairing)
qed

definition stable :: "('rd world \<Rightarrow> bool) \<Rightarrow> bool" where
  "stable P \<longleftrightarrow> (\<forall>w w'. P w \<longrightarrow> grows w w' \<longrightarrow> P w')"

lemma stable_rules:
  "stable (\<lambda>_. b)" "stable (\<lambda>w. registered w u)" "stable (\<lambda>w. known w u)"
  "stable (\<lambda>w. owned w i u)"
  "stable P \<Longrightarrow> stable Q \<Longrightarrow> stable (\<lambda>w. P w \<and> Q w)"
  "(\<And>x. stable (S x)) \<Longrightarrow> stable (\<lambda>w. \<forall>x. S x w)" "stable P \<Longrightarrow> stable (\<lambda>w. b \<longrightarrow> P w)"
  by (auto simp: stable_def grows_def)

text \<open>The user that the resolver of a login has put into its captured variable is registered.\<close>

definition found :: "resolved \<Rightarrow> 'rd world \<Rightarrow> bool" where
  "found c w \<longleftrightarrow> (\<forall>u. fst c = Some u \<longrightarrow> registered w (user_ID u))"

lemma stable_found: "stable (found c)"
  unfolding found_def [abs_def] by (intro stable_rules)

text \<open>The state satisfies the invariant and every thread is safe in it.\<close>

definition threads_ok :: "('rd world \<Rightarrow> bool) \<Rightarrow> 'rd thread list \<times> 'rd world \<Rightarrow> bool" where
  "threads_ok I c \<longleftrightarrow> I (snd c) \<and> (\<forall>t \<in> set (fst c). safe I grows grows (\<lambda>_ _. True) (th_prog t) (snd c))"

section \<open>Invariants of the stores under interference\<close>

context service_invariant begin

abbreviation guard where
  "guard P p Q \<equiv> guarded I grows grows P p Q"

lemma guard_atom:
  assumes "stable P" and "spec (\<lambda>w. I w \<and> P w) m (\<lambda>a w. I w \<and> Q a w) (\<lambda>_. I)" and "grower m"
  shows "guard P (atom m) Q"
proof (rule guarded_atom)
  fix w x w' assume "I w" and "P w" and run: "m w = (x, w')"
  then have "I w'"
    by (cases x) (use specD_Inr [OF assms(2)] specD_Inl [OF assms(2)] in blast)+
  then show "I w' \<and> grows w w'"
    using growerD [OF assms(3) run] by simp
qed (use assms(1) specD_Inr [OF assms(2)] in \<open>auto simp: stable_def\<close>)

lemma guard_holds:
  assumes "holds I m" and "grower m"
  shows "guard P (atom m) (\<lambda>_ _. True)"
  by (rule guarded_pre [where P' = "\<lambda>_. True"], rule guard_atom)
     (use assms in \<open>auto simp: stable_rules intro: spec_weaken\<close>)

lemma guard_keeps:
  assumes "holds I m" and "keeps db m"
  shows "guard P (atom m) (\<lambda>_ _. True)"
  using assms by (intro guard_holds grower_keeps)

lemma core_db: "keeps core m \<Longrightarrow> keeps db m"
  by (rule keepsI, drule keepsD, assumption, simp add: core_def)

lemma guard_quiet:
  assumes "keeps core m"
  shows "guard P (atom m) (\<lambda>_ _. True)"
proof (rule guard_keeps)
  show "holds I m" using assms by (rule quiet)
  show "keeps db m" using assms by (rule core_db)
qed

text \<open>A stable fact survives a step that touches no user.\<close>

lemma guard_query:
  assumes "stable P" and "keeps core m"
    and "\<And>w a w'. I w \<Longrightarrow> P w' \<Longrightarrow> m w = (Inr a, w') \<Longrightarrow> core w' = core w \<Longrightarrow> Q a w'"
  shows "guard P (atom m) Q"
proof (rule guard_atom [OF assms(1)])
  have db: "keeps db m" using assms(2) by (rule core_db)
  then show "grower m" by (rule grower_keeps)
  have "P w'" if "P w" and "m w = (x, w')" for w x w'
    using assms(1) that grows_refl [OF keepsD [OF db that(2)]] by (auto simp: stable_def)
  then show "spec (\<lambda>w. I w \<and> P w) m (\<lambda>a w. I w \<and> Q a w) (\<lambda>_. I)"
    by (intro specI) (use assms(3) quietD [OF _ _ assms(2)] keepsD [OF assms(2)] in blast)+
qed

lemma guard_end [guarded_rules]:
  "guard P (atom (reject k c)) Q" "guard P (atom (internal msg)) Q" "guard P (atom (warnReject msg k c)) Q"
proof -
  have ending: "guard P (atom m) Q" if "spec I m (\<lambda>a w. I w \<and> Q a w) (\<lambda>_. I)" "keeps db m" for m
    by (rule guarded_pre [OF guard_atom [where P = "\<lambda>_. True"]])
       (use that grower_keeps in \<open>auto simp: stable_rules\<close>)
  show "guard P (atom (reject k c)) Q" "guard P (atom (internal msg)) Q" "guard P (atom (warnReject msg k c)) Q"
    by (rule ending, rule end_with, intro keeps_rules, simp)+
qed

lemma guard_quiets [guarded_rules]:
  "guard P (atom (decodeBegin r)) (\<lambda>_ _. True)" "guard P (atom (decodeComplete r)) (\<lambda>_ _. True)"
  "guard P (atom (orInternal msg NewUserHandle)) (\<lambda>_ _. True)"
  "guard P (atom (orInternal msg newSessionID)) (\<lambda>_ _. True)"
  "guard P (atom (orInternal msg (Service_BeginRegistration W u i))) (\<lambda>_ _. True)"
  "guard P (atom (orInternal msg (Service_BeginLogin W i))) (\<lambda>_ _. True)"
  "guard P (atom (someOrInternal msg x)) (\<lambda>_ _. True)"
  "guard P (atom (verifyAttestation env m1 m2 wu d b)) (\<lambda>_ _. True)"
  "guard P (atom (catchE (Service_ParseCredentialAssertion W b) (\<lambda>_. warnReject msg k c))) (\<lambda>_ _. True)"
  "guard P (atom (setGuestCookie r tok a)) (\<lambda>_ _. True)" "guard P (atom (setSessionCookie r tok a)) (\<lambda>_ _. True)"
  "guard P (atom (clearSessionCookie r)) (\<lambda>_ _. True)"
  "guard P (atom (writeJSON k v)) (\<lambda>_ _. True)" "guard P (atom (writeStatus k)) (\<lambda>_ _. True)"
  "guard P (atom (writePage pg)) (\<lambda>_ _. True)" "guard P (atom next_call) (\<lambda>_ _. True)"
  "guard P (atom (getE f)) (\<lambda>_ _. True)" "guard P (atom (requireUser r)) (\<lambda>_ _. True)"
  "guard P (atom (orInternal msg (CredentialStore_ListByUserID j))) (\<lambda>_ _. True)"
  "guard P (atom (tryE (UserStore_GetByUsername n))) (\<lambda>_ _. True)"
  "guard P (atom (tryE (UserStore_GetByID j))) (\<lambda>_ _. True)"
  "guard P (atom (wrapPg what (ret ()))) (\<lambda>_ _. True)" "guard P (atom (wrapPg what (getE f))) (\<lambda>_ _. True)"
  unfolding requireUser_def by (rule guard_quiet, intro keeps_rules; simp)+

lemma guard_stores [guarded_rules]:
  assumes "env_redis env = R" and "env_uuid env = L"
  shows "guard P (atom (takeChallenge env msg i)) (\<lambda>_ _. True)"
    and "guard P (atom (orInternal msg (ChallengeStore_Save (env_redis env) ttl i p))) (\<lambda>_ _. True)"
    and "guard P (atom (dropGuest env msg r)) (\<lambda>_ _. True)"
    and "guard P (atom (tryE (GuestStore_Get (env_redis env) (env_uuid env) tok))) (\<lambda>_ _. True)"
  unfolding assms
  by (rule guard_keeps,
      rule take_challenge [OF assms(1)] or_internal [OF save] drop_guest [OF assms(1)] spec_tryE [OF guest_get],
      intro keeps_rules; simp)+

lemma guard_step: "guard P p (\<lambda>_ _. True) \<Longrightarrow> (\<And>a. guard (\<lambda>_. True) (k a) Q) \<Longrightarrow> guard P (bindP p k) Q"
  by (rule guarded_bindP)

lemma guard_resolveGuest [guarded_rules]:
  assumes "env_redis env = R" and "env_uuid env = L"
  shows "guard P (resolveGuest_prog env r) (\<lambda>_ _. True)"
  unfolding resolveGuest_prog_def
  by (rule guard_stores [OF assms] guarded_rules guard_step guarded_cases guarded_retP TrueI)+

lemma guard_begin:
  assumes "env_redis env = R" and "env_uuid env = L"
  shows "guard P (BeginRegister_prog env r) (\<lambda>_ _. True)" "guard P (BeginLogin_prog env r) (\<lambda>_ _. True)"
    and "guard P (BeginPromote_prog env r) (\<lambda>_ _. True)"
  unfolding BeginRegister_prog_def BeginLogin_prog_def BeginPromote_prog_def
  by (rule guard_stores [OF assms] guard_resolveGuest [OF assms] guarded_rules guard_step guarded_cases
      | rule guard_quiet, intro keeps_rules; simp)+

lemma guard_Logout:
  assumes "env_redis env = R"
  shows "guard P (Logout_prog env r) (\<lambda>_ _. True)"
proof -
  have "holds I (case cookie_value SessionCookieName r of None \<Rightarrow> ret ()
      | Some tok \<Rightarrow> catchE (SessionStore_Delete R tok) (\<lambda>_. logE lv msg))" for lv msg
    by (intro steps session_delete spec_ret)
  then show ?thesis
    unfolding Logout_prog_def assms
    by (intro guard_step guarded_rules) (rule guard_keeps, assumption, intro keeps_rules; simp)
qed

lemma guard_Guest:
  assumes "env_redis env = R" and "env_uuid env = L"
  shows "guard P (Guest_prog env r) (\<lambda>_ _. True)"
proof -
  have user: "guard P (atom (orInternal msg (UserStore_CreateGuest n d))) (\<lambda>u w. known w (user_ID u))" for P msg n d
  proof (rule guarded_pre [OF guard_atom [where P = "\<lambda>_. True"]])
    have "spec I (UserStore_CreateGuest n d) (\<lambda>u w. I w \<and> known w (user_ID u)) (\<lambda>_. I)"
      by (rule specI) (auto dest: specD_Inr [OF create_guest] specD_Inl [OF create_guest] CreateGuest_known)
    from or_internal [OF this] show "spec (\<lambda>w. I w \<and> True) (orInternal msg (UserStore_CreateGuest n d))
        (\<lambda>u w. I w \<and> known w (user_ID u)) (\<lambda>_. I)" by simp
  qed (simp_all add: stable_rules grower_rules)
  have token: "guard (\<lambda>w. known w u) (atom (orInternal msg (GuestStore_Create R L ttl u))) (\<lambda>_ _. True)" for msg ttl u
    by (rule guard_atom) (use or_internal [OF guest_create] in
        \<open>auto simp: stable_rules intro!: grower_keeps keeps_rules\<close>)
  show ?thesis
    unfolding Guest_prog_def assms
    by (rule guarded_bindP [OF user] guarded_bindP [OF token] guard_resolveGuest [OF assms] guarded_rules guard_step
      | rule guard_quiet, intro keeps_rules; simp)+
qed

text \<open>The steps of the flows that create a passkey or a session: what one establishes, the next relies on.\<close>

lemma guard_catch:
  assumes "spec I m (\<lambda>a w. I w \<and> Q a w) (\<lambda>_. I)" and "grower m"
    and "\<And>e. spec I (h e) (\<lambda>a w. I w \<and> Q a w) (\<lambda>_. I)" and "\<And>e. keeps db (h e)"
  shows "guard P (atom (catchE m h)) Q"
proof (rule guarded_pre [OF guard_atom [where P = "\<lambda>_. True"]])
  show "spec (\<lambda>w. I w \<and> True) (catchE m h) (\<lambda>a w. I w \<and> Q a w) (\<lambda>_. I)"
    using spec_catchE [OF assms(1,3)] by simp
qed (simp_all add: stable_rules grower_catchE assms)

lemma guard_registers:
  assumes "\<And>e. spec I (h e) (\<lambda>u w. I w \<and> registered w (user_ID u)) (\<lambda>_. I)" and "\<And>e. keeps db (h e)"
  shows "guard P (atom (catchE (UserStore_CreateRegistered n d) h)) (\<lambda>u w. registered w (user_ID u))"
    and "guard P (atom (catchE (UserStore_PromoteGuest i n d) h)) (\<lambda>u w. registered w (user_ID u))"
proof -
  have "spec I (UserStore_CreateRegistered n d) (\<lambda>u w. I w \<and> registered w (user_ID u)) (\<lambda>_. I)"
    "spec I (UserStore_PromoteGuest i n d) (\<lambda>u w. I w \<and> registered w (user_ID u)) (\<lambda>_. I)"
    by (rule specI; auto dest: specD_Inr [OF create_registered] specD_Inl [OF create_registered]
        CreateRegistered_registers specD_Inr [OF promote_guest] specD_Inl [OF promote_guest] PromoteGuest_registers)+
  note both = this
  show "guard P (atom (catchE (UserStore_CreateRegistered n d) h)) (\<lambda>u w. registered w (user_ID u))"
    by (rule guard_catch [OF both(1) _ assms]) (rule grower_rules)
  show "guard P (atom (catchE (UserStore_PromoteGuest i n d) h)) (\<lambda>u w. registered w (user_ID u))"
    by (rule guard_catch [OF both(2) _ assms]) (rule grower_rules)
qed

lemma guard_convert:
  "guard (\<lambda>w. registered w u) (atom (someOrInternal msg (domainCredentialFromLib L' u h cred)))
     (\<lambda>c w. registered w u \<and> cred_UserID c = u)"
  by (rule guard_atom [OF _ spec_weaken [OF convert]])
     (auto simp: stable_rules intro!: grower_keeps keeps_rules)

lemma guard_insert:
  assumes "\<And>e. spec I (h e) (\<lambda>_ w. I w \<and> registered w u) (\<lambda>_. I)" and "\<And>e. keeps db (h e)"
  shows "guard (\<lambda>w. registered w u \<and> cred_UserID c = u) (atom (catchE (CredentialStore_Insert c) h))
     (\<lambda>_ w. registered w u)"
  by (rule guard_atom [OF _ insert_registered]) (use assms in \<open>auto simp: stable_rules intro!: grower_catchE grower_rules\<close>)

lemma guard_session:
  "guard (\<lambda>w. registered w u) (atom (orInternal msg (SessionStore_Create R L ttl u))) (\<lambda>_ _. True)"
  by (rule guard_atom) (use or_internal [OF session_create] in
      \<open>auto simp: stable_rules intro!: grower_keeps keeps_rules\<close>)

lemma refusals: "spec I (if b then reject k c else internal msg) Q (\<lambda>_. I)"
  "spec I (if b then reject k c else if b' then reject k' c' else internal msg) Q (\<lambda>_. I)"
  by (intro spec_if end_with)+

lemmas guard_flow = guarded_bindP [OF guard_registers(1)] guarded_bindP [OF guard_registers(2)]
  guarded_bindP [OF guard_convert] guarded_bindP [OF guard_insert] guarded_bindP [OF guard_session]

lemma guard_CompleteRegister:
  assumes "env_redis env = R" and "env_uuid env = L"
  shows "guard P (CompleteRegister_prog env r) (\<lambda>_ _. True)"
  unfolding CompleteRegister_prog_def Let_def
  by (rule refusals guard_flow guard_stores [OF assms] guarded_rules guard_step guarded_cases
      | intro keeps_rules; simp)+

lemma guard_CompletePromote:
  assumes "env_redis env = R" and "env_uuid env = L"
  shows "guard P (CompletePromote_prog env r) (\<lambda>_ _. True)"
  unfolding CompletePromote_prog_def Let_def assms(2) unfolding assms(1)
  by (rule refusals guard_flow guard_stores [OF assms] guarded_rules guard_step guarded_cases
      | intro keeps_rules; simp)+

text \<open>
  The resolver: the owner of a passkey is registered when the first query finds the passkey,
  and stays so until the second query finds the user.
\<close>

lemma guard_resolver: "guard (found c) (resolver_prog W p a b c) (\<lambda>x. found (snd x))"
proof -
  have cred: "guard (found c) (atom (tryE (CredentialStore_GetByCredentialID i)))
      (\<lambda>x w. found c w \<and> (\<forall>cr. x = Inr cr \<longrightarrow> registered w (cred_UserID cr)))" for i
  proof (rule guard_query [OF stable_found], intro keeps_rules; simp)
    fix w x w' assume "I w" and "tryE (CredentialStore_GetByCredentialID i) w = (Inr x, w')" and "core w' = core w"
    then show "\<forall>cr. x = Inr cr \<longrightarrow> registered w' (cred_UserID cr)"
      using owners [OF \<open>I w\<close>] registered_cong [OF coreD(1)] by (fastforce simp: tryE_Inr elim!: GetByCredentialID_Inr)
  qed
  have user: "guard (\<lambda>w. found c w \<and> registered w j) (atom (tryE (UserStore_GetByID j)))
      (\<lambda>y w. found c w \<and> (\<forall>u. y = Inr u \<longrightarrow> registered w (user_ID u)))" for j
    by (rule guard_query [OF stable_rules(5) [OF stable_found stable_rules(2)]], intro keeps_rules; simp)
       (auto simp: tryE_Inr dest: GetByID_Inr(2))
  show ?thesis
    unfolding resolver_prog_def
    by (rule guarded_bindP [OF cred] guarded_bindP [OF guarded_pre [OF user]] guarded_cases guarded_retP
        | simp add: found_def)+
qed

lemma guard_login_steps: "guard (found c) (login_steps prog (resolver_prog W p) c) (\<lambda>x. found (snd x))"
proof (induction prog arbitrary: c)
  case (LoginDone res)
  show ?case by (auto intro: guarded_retP)
next
  case (CallHandler a b k)
  show ?case
    by (auto intro!: guarded_bindP [OF guard_resolver] CallHandler split: prod.split)
qed

lemma guard_ValidateLogin:
  "guard P (ValidateLogin_prog W (resolver_prog W p) (None, None) d p) (\<lambda>x. found (snd x))"
proof -
  have "guard (\<lambda>_. True) (login_steps prog (resolver_prog W p) (None, None)) (\<lambda>x. found (snd x))" for prog
    by (rule guarded_pre [OF guard_login_steps]) (simp add: found_def)
  note steps = this
  show ?thesis
    unfolding ValidateLogin_prog_def
    by (rule guard_step [OF guard_quiets(17)] guarded_bindP [OF steps] guarded_cases guarded_retP guarded_failP
        | simp)+
qed

lemma guard_CompleteLogin:
  assumes "env_redis env = R" and "env_uuid env = L"
  shows "guard P (CompleteLogin_prog env r) (\<lambda>_ _. True)"
proof -
  have log: "guard (\<lambda>w. registered w u) (atom (recordCounterAnomalies L' old new)) (\<lambda>_ w. registered w u)" for u L' old new
    by (rule guard_query [OF stable_rules(2)], intro keeps_rules; simp)
  have upd: "guard (\<lambda>w. registered w u) (atom (orInternal msg (CredentialStore_UpdateAfterAssertion i k be bs)))
      (\<lambda>_ w. registered w u)" for u msg i k be bs
  proof (rule guard_atom [OF stable_rules(2)])
    have users: "keeps w_users (orInternal msg (CredentialStore_UpdateAfterAssertion i k be bs) :: ('rd, unit) handler_act)"
      by (intro keeps_rules; simp)
    show "grower (orInternal msg (CredentialStore_UpdateAfterAssertion i k be bs) :: ('rd, unit) handler_act)"
      by (intro grower_rules)
    show "spec (\<lambda>w. I w \<and> registered w u) (orInternal msg (CredentialStore_UpdateAfterAssertion i k be bs))
        (\<lambda>_ w. I w \<and> registered w u) (\<lambda>_. I)"
      by (rule specI) (use holdsD [OF or_internal [OF update]] registered_cong [OF keepsD [OF users]] in blast)+
  qed
  have validated: "guard P (catchP (ValidateLogin_prog W (resolver_prog W p) (None, None) d p)
      (\<lambda>_. atom (warnReject msg k c))) (\<lambda>x. found (snd x))" for P W p d msg k c
    by (rule guarded_catchP [OF guard_ValidateLogin] guard_end)+
  have ending: "guard (found (snd x)) (case x of (cred, c) \<Rightarrow> case c of (Some u, Some cr) \<Rightarrow> f cred u cr
      | _ \<Rightarrow> atom (internal msg)) Q"
    if "\<And>cred u cr. guard (\<lambda>w. registered w (user_ID u)) (f cred u cr) Q" for x f msg Q
    by (auto simp: found_def split: prod.split option.split intro!: guard_end guarded_pre [OF that])
  show ?thesis
    unfolding CompleteLogin_prog_def assms(2) unfolding assms(1)
    by (rule guarded_bindP [OF log] guarded_bindP [OF upd] guarded_bindP [OF guard_session] guarded_bindP [OF validated]
        ending guard_stores [OF assms] guarded_rules guard_step guarded_cases)+
qed

lemma guard_RequireSession:
  assumes "\<And>r. guard (\<lambda>_. True) (next r) (\<lambda>_ _. True)"
  shows "guard P (RequireSession_prog R L next r) (\<lambda>_ _. True)"
proof -
  have "holds I (catchE (SessionStore_Get R L tok) (\<lambda>e.
            if e = ErrSessionNotFound then bindE writeUnauthorized failE
            else bindE (logE LevelError msg) (\<lambda>_. bindE writeInternalError failE)))" for tok msg
    unfolding writeUnauthorized_def writeInternalError_def
    by (rule session_get quiets steps spec_failE | assumption)+
  note get = guard_keeps [OF this]
  show ?thesis
    unfolding RequireSession_prog_def
    by (rule guarded_cases guard_step get assms | rule guard_quiet
      | (unfold writeUnauthorized_def writeInternalError_def)?, intro keeps_rules; simp)+
qed

lemma guard_Ready: "guard P (Ready_prog (newHealth R) r) (\<lambda>_ _. True)"
proof -
  have "holds I pgPing"
    unfolding pgPing_def by (intro quiet keeps_rules; simp)
  then have "holds I (probe (Some pgPing))" and "holds I (probe (Some (redisPinger_Ping R)))"
    unfolding probe_def pingStatusOf_def using ping
    by (auto intro!: steps spec_ret split: sum.split)
  then show ?thesis
    unfolding Ready_prog_def newHealth_def Let_def
    by (intro guard_step guarded_rules guard_keeps)
       (auto simp: probe_def pingStatusOf_def pgPing_def redisPinger_Ping_def intro!: keeps_rules)
qed

end

text \<open>
  With overlapping requests the last step of \<open>SoftDelete\<close> may act on a state that its
  count did not see, so it has to keep the invariant on its own.
\<close>

locale concurrent_invariant = service_invariant I R L for I :: "'rd world \<Rightarrow> bool" and R L +
  assumes stamp: "holds I (stampCommit i)"
begin

lemma guard_SoftDelete: "guard P (SoftDelete_prog i) (\<lambda>_ _. True)"
proof -
  have "guard P (atom (stampCommit i)) (\<lambda>_ _. True)" for P
    by (rule guard_holds [OF stamp]) (rule grower_rules)
  note last = this
  show ?thesis
    unfolding SoftDelete_prog_def
    by (rule last guard_step guarded_rules guarded_cases guarded_failP | rule guard_quiet, intro keeps_rules; simp)+
qed

lemma guard_users:
  "guard P (Me_prog L' r) (\<lambda>_ _. True)" "guard P (ListCredentials_prog L' T r) (\<lambda>_ _. True)"
  "guard P (DeleteCredential_prog L' r) (\<lambda>_ _. True)"
  unfolding Me_prog_def ListCredentials_prog_def DeleteCredential_prog_def
  by (rule guard_SoftDelete guarded_catchP guarded_rules guard_step guarded_cases | rule guard_quiet, intro keeps_rules; simp)+

lemma guard_endpoint:
  assumes "env_redis (srv_auth s) = R" and "env_uuid (srv_auth s) = L"
  shows "guard P (endpoint_prog s e r) (\<lambda>_ _. True)"
  by (cases e)
     (simp_all add: requireSession_prog_def Live_def assms guard_Ready guard_quiets guard_begin guard_Logout
        guard_Guest guard_CompleteRegister guard_CompleteLogin guard_CompletePromote guard_RequireSession guard_users)

lemma guard_dispatch:
  assumes "env_redis (srv_auth s) = R" and "env_uuid (srv_auth s) = L"
  shows "guard P (dispatch_prog s r) (\<lambda>_ _. True)"
  unfolding dispatch_prog_def Let_def requireSession_prog_def assms
  by (intro guarded_cases guarded_retP guard_RequireSession guard_endpoint assms TrueI)

lemma guard_New:
  assumes "env_redis (srv_auth s) = R" and "env_uuid (srv_auth s) = L"
  shows "guard P (New_prog s r) (\<lambda>_ _. True)"
  unfolding New_prog_def RequestLogger_prog_def
  by (intro guarded_cases guard_step guarded_rules guarded_catchP guard_dispatch guarded_retP assms TrueI guard_quiet)
     (simp add: keeps_def)

text \<open>Every thread keeps the invariant, and no step disturbs another thread.\<close>

lemma thread_step_ok:
  assumes "safe I grows grows (\<lambda>_ _. True) (th_prog t) w" and "I w" and "thread_step t w = Some (t', w')"
  shows "I w' \<and> grows w w' \<and> safe I grows grows (\<lambda>_ _. True) (th_prog t') w'"
proof -
  let ?h = "\<lambda>w. w\<lparr>w_header := th_header t\<rparr>"
  from assms(3) obtain f p w1 where f: "th_prog t = Step f" "f (?h w) = (p, w1)"
    and t': "t' = \<lparr>th_prog = p, th_header = w_header w1\<rparr>" "w' = w1\<lparr>w_header := w_header w\<rparr>"
    by (auto split: prog.splits prod.splits)
  have "I (?h w)" and "grows w (?h w)"
    using assms(2) by (auto intro: core_only grows_refl)
  with safe_StepD [OF assms(1) [unfolded f(1)] _ _ f(2)]
  have ok: "I w1" "grows (?h w) w1" "safe I grows grows (\<lambda>_ _. True) p w1"
    by blast+
  moreover have "safe I grows grows (\<lambda>_ _. True) p w'"
    using ok(3) grows_trans by (rule safe_interference) (simp add: t' grows_refl)
  ultimately show ?thesis
    by (auto simp: t' intro: core_only)
qed

lemma system_step_ok:
  assumes "system_step s c c'" and "threads_ok I c"
    and "env_redis (srv_auth s) = R" and "env_uuid (srv_auth s) = L"
  shows "threads_ok I c'"
  using assms(1,2)
proof cases
  case (arrive ts w r)
  have "safe I grows grows (\<lambda>_ _. True) (th_prog (new_thread s r)) w"
    using guard_New [OF assms(3,4)] by (simp add: guarded_def new_thread_def)
  then show ?thesis using assms(2) by (simp add: arrive threads_ok_def)
next
  case (advance i ts w t w')
  then have "I w'" "grows w w'" "safe I grows grows (\<lambda>_ _. True) (th_prog t) w'"
    using assms(2) thread_step_ok [of "ts ! i" w t w'] by (auto simp: threads_ok_def)
  moreover have "safe I grows grows (\<lambda>_ _. True) (th_prog x) w'" if "x \<in> set ts" for x
    by (rule safe_interference [OF _ grows_trans \<open>grows w w'\<close>]) (use assms(2) that in \<open>simp add: advance threads_ok_def\<close>)
  ultimately show ?thesis
    by (auto simp: advance threads_ok_def dest!: set_update_subset_insert [THEN subsetD])
next
  case (pass w t ts)
  then show ?thesis
    using assms(2) by (auto simp: threads_ok_def grows_refl intro: later safe_interference [OF _ grows_trans])
next
  case (fault ts w p)
  then show ?thesis
    using assms(2)
    by (auto simp: threads_ok_def grows_refl intro: core_only safe_interference [OF _ grows_trans])
qed (use assms(2) in \<open>simp add: threads_ok_def\<close>)

lemma system_step_grows:
  assumes "system_step s c c'" and "threads_ok I c"
  shows "grows (snd c) (snd c')"
  using assms(1)
proof cases
  case (advance i ts w t w')
  then show ?thesis
    using assms(2) thread_step_ok [of "ts ! i" w t w'] by (auto simp: threads_ok_def)
qed (simp_all add: grows_refl)

lemma interleaved_threads_ok:
  assumes "interleaved s w0 c" and "env_redis (srv_auth s) = R" and "env_uuid (srv_auth s) = L" and "I w0"
  shows "threads_ok I c"
  using assms(1)
proof induction
  case boot
  then show ?case by (simp add: threads_ok_def assms(4))
qed (rule system_step_ok [OF _ _ assms(2,3)])

lemma interleaved_keeps:
  assumes "interleaved s w0 c" and "env_redis (srv_auth s) = R" and "env_uuid (srv_auth s) = L" and "I w0"
  shows "I (snd c)"
  using interleaved_threads_ok [OF assms] by (simp add: threads_ok_def)

lemma interleaved_grows:
  assumes "(system_step s)\<^sup>*\<^sup>* c c'" and "interleaved s w0 c"
    and "env_redis (srv_auth s) = R" and "env_uuid (srv_auth s) = L" and "I w0"
  shows "grows (snd c) (snd c')"
proof -
  have "threads_ok I c"
    using assms(2-5) by (rule interleaved_threads_ok)
  from assms(1) this have "threads_ok I c' \<and> grows (snd c) (snd c')"
  proof (induction rule: rtranclp_induct)
    case (step c1 c2)
    then show ?case
      using system_step_ok [OF _ _ assms(3,4)] system_step_grows transpD [OF grows_trans] by blast
  qed (simp add: grows_refl)
  then show ?thesis ..
qed

end

section \<open>The last statements of SoftDelete\<close>

lemma stampCommit_db_ok: "holds db_ok (stampCommit i)"
proof (rule holdsI)
  fix w x w' assume ok: "db_ok w" and run: "stampCommit i w = (x, w')"
  note effect = stampCommit_effect [OF run]
  have "creds_ok (w_users w) (update_where (\<lambda>r. row_id r = i) (mark_deleted (w_now w)) (w_creds w))"
    by (rule creds_ok_update) (use ok in \<open>simp_all add: db_ok_def schema_ok_def mark_deleted_simps\<close>)
  then show "db_ok w'"
    using ok effect
    by (auto simp: db_ok_def schema_ok_def owners_registered_def registered_def set_update_where)
qed

interpretation db_conc: concurrent_invariant db_ok R L for R :: "'rd redis_client" and L :: uuid_lib
  by unfold_locales (rule stampCommit_db_ok)

sublocale redis_stores \<subseteq> conc: concurrent_invariant "service_ok holds_at L" R L
proof unfold_locales
  fix i
  have "keeps w_users (stampCommit i :: ('rd, unit) store_act)" "keeps w_rd (stampCommit i :: ('rd, unit) store_act)"
    "keeps w_now (stampCommit i :: ('rd, unit) store_act)"
    by (rule keepsI, erule stampCommit_effect)+
  then show "holds (service_ok holds_at L) (stampCommit i)"
    by (intro service_ok_sql stampCommit_db_ok keeps_users_grow)
qed

context redis_stores begin

lemmas interleaved_ok = conc.interleaved_keeps
lemmas interleaved_monotone = conc.interleaved_grows

end

end
