(* ===== verification/Concurrent_Properties.thy ===== *)
theory Concurrent_Properties
  imports Concurrent_Service Service_Properties
begin

text \<open>
  Properties of the service under overlapping requests: how the interruptible programs relate
  to the sequential handlers, what every interleaving preserves, and that a passkey is deleted
  only by its owner even though the check and the deletion are separate calls.
\<close>

section \<open>The sequential service is one of the interleavings\<close>

text \<open>
  The programs are the handlers. For every request, the interruptible program of the
  router, executed without interruption, has the same effect and the same answer as the
  sequential router: both translations of the source agree, endpoint by endpoint and
  through the middlewares.
\<close>

lemma New_prog_uninterrupted: "uninterrupted (New_prog s r) = New s r"
  by (simp add: New_prog_def New_def run_simps)

text \<open>A thread that is never interrupted runs its program to the end.\<close>

lemma run_alone:
  assumes "interleaved s w0 (ts @ [\<lparr>th_prog = p, th_header = h\<rparr>], w)"
    and "uninterrupted p (w\<lparr>w_header := h\<rparr>) = (x, w')"
  shows "interleaved s w0 (ts @ [\<lparr>th_prog = Done x, th_header = w_header w'\<rparr>], w'\<lparr>w_header := w_header w\<rparr>)"
  using assms
proof (induction p arbitrary: h w)
  case (Done y)
  then show ?case by auto
next
  case (Step f)
  obtain q w1 where f: "f (w\<lparr>w_header := h\<rparr>) = (q, w1)" by fastforce
  let ?t = "\<lparr>th_prog = q, th_header = w_header w1\<rparr>" and ?w = "w1\<lparr>w_header := w_header w\<rparr>"
  have "system_step s (ts @ [\<lparr>th_prog = Step f, th_header = h\<rparr>], w) (ts @ [?t], ?w)"
    using system_step.advance [of "length ts" "ts @ [\<lparr>th_prog = Step f, th_header = h\<rparr>]" w ?t ?w s] f by simp
  then have "interleaved s w0 (ts @ [?t], ?w)"
    using Step.prems(1) by (blast intro: interleaved.move)
  moreover have "uninterrupted q (?w\<lparr>w_header := w_header w1\<rparr>) = (x, w')"
    using Step.prems(2) f by (simp add: run_Step del: uninterrupted.simps)
  ultimately have "interleaved s w0 (ts @ [\<lparr>th_prog = Done x, th_header = w_header w'\<rparr>],
      w'\<lparr>w_header := w_header ?w\<rparr>)"
    by (rule Step.IH [OF rangeI [of f "w\<lparr>w_header := h\<rparr>"], rotated]) (simp add: f fsts.simps)
  then show ?case by simp
qed

text \<open>
  Nothing of the sequential service is missing. Every state that requests served one
  after the other can reach is reached by the system of overlapping requests too, up to the
  header of the last response, which belongs to no request any more.
\<close>

lemma sequential_is_interleaving:
  assumes "reachable s w0 w"
  shows "\<exists>ts. interleaved s w0 (ts, w\<lparr>w_header := w_header w0\<rparr>)"
  using assms
proof (induction rule: reachable.induct)
  case start
  then show ?case using interleaved.boot [of s w0] by auto
next
  case (step w w')
  then obtain ts where ts: "interleaved s w0 (ts, w\<lparr>w_header := w_header w0\<rparr>)" (is "interleaved s w0 (ts, ?w)")
    by blast
  from step.hyps(2) show ?case
  proof cases
    case (request r)
    obtain x w1 where new: "New s (r\<lparr>ctx_user := None\<rparr>) (w\<lparr>w_header := []\<rparr>) = (x, w1)" by fastforce
    then have w': "w' = w1"
      by (cases x) (simp_all add: request serve_request_def serve_def)
    have "interleaved s w0 (ts @ [\<lparr>th_prog = New_prog s (r\<lparr>ctx_user := None\<rparr>), th_header = []\<rparr>], ?w)"
      using interleaved.move [OF ts system_step.arrive, of r] by (simp add: new_thread_def)
    then have "interleaved s w0 (ts @ [\<lparr>th_prog = Done x, th_header = w_header w1\<rparr>], w1\<lparr>w_header := w_header ?w\<rparr>)"
      by (rule run_alone) (simp add: New_prog_def New_def [symmetric] run_simps new)
    then show ?thesis by (auto simp: w')
  next
    case (tick t)
    moreover from this have "interleaved s w0 (ts, ?w\<lparr>w_now := t\<rparr>)"
      by (intro interleaved.move [OF ts system_step.pass [of ?w t]]) simp
    moreover have "?w\<lparr>w_now := t\<rparr> = w'\<lparr>w_header := w_header w0\<rparr>"
      using tick by simp
    ultimately show ?thesis by metis
  next
    case (outage p)
    have "interleaved s w0 (ts, ?w\<lparr>w_pg := p\<rparr>)"
      by (rule interleaved.move [OF ts system_step.fault])
    moreover have "?w\<lparr>w_pg := p\<rparr> = w'\<lparr>w_header := w_header w0\<rparr>"
      using outage by simp
    ultimately show ?thesis by metis
  qed
qed

lemma sequential_is_interleaving_example: "\<exists>ts. interleaved toy_server toy_start (ts, toy_run\<lparr>w_header := []\<rparr>)"
proof -
  have "reachable toy_server toy_start toy_run"
    unfolding toy_run_def by (intro reachable.step [OF reachable.start] service_step.request)
  from sequential_is_interleaving [OF this] show ?thesis by (simp add: toy_start_def)
qed

section \<open>What every interleaving preserves\<close>

text \<open>
  C2: the invariants of the service survive concurrency. From empty stores, whatever
  requests overlap in whatever way, with the server killed and restarted in the middle of
  requests, time passing and PostgreSQL failing: in every state the constraints of the schema
  hold, every passkey belongs to a registered user, every session token that resolves now or
  later belongs to a registered user and every guest token to a user that exists.
\<close>

theorem interleaved_service_ok:
  assumes stores: "redis_stores (env_redis (srv_auth s)) H (env_uuid (srv_auth s))"
    and "pristine H w0" and "interleaved s w0 (ts, w)"
  shows "schema_ok w \<and> (\<forall>row \<in> set (w_creds w). registered w (user_id row))
    \<and> (\<forall>t tok u. w_now w \<le> t \<longrightarrow> session_owner H (env_uuid (srv_auth s)) t w tok = Some u \<longrightarrow> registered w u)
    \<and> (\<forall>t tok u. w_now w \<le> t \<longrightarrow> guest_owner H (env_uuid (srv_auth s)) t w tok = Some u \<longrightarrow> known w u)"
  using redis_stores.interleaved_ok [OF stores assms(3) refl refl pristine_ok [OF assms(2)]]
  by (simp add: service_ok_def db_ok_def owners_registered_def tokens_ok_def)

text \<open>A scheduler for concrete runs: the threads take their steps in the given order.\<close>

fun run_schedule :: "nat list \<Rightarrow> 'rd thread list \<times> 'rd world \<Rightarrow> 'rd thread list \<times> 'rd world" where
  "run_schedule [] c = c"
| "run_schedule (i # is) (ts, w) = run_schedule is
     (if i < length ts then (case thread_step (ts ! i) w of Some (t, w') \<Rightarrow> (ts[i := t], w') | None \<Rightarrow> (ts, w))
      else (ts, w))"

lemma run_schedule_interleaved: "interleaved s w0 c \<Longrightarrow> interleaved s w0 (run_schedule is c)"
proof (induction "is" c rule: run_schedule.induct)
  case (2 i "is" ts w)
  have "interleaved s w0 (if i < length ts then (case thread_step (ts ! i) w of Some (t, w') \<Rightarrow> (ts[i := t], w')
      | None \<Rightarrow> (ts, w)) else (ts, w))"
    using "2.prems" by (auto simp del: thread_step.simps split: option.split
        intro: interleaved.move [OF _ system_step.advance])
  then show ?case by (simp only: run_schedule.simps "2.IH")
qed simp

text \<open>Two first visits whose steps alternate.\<close>

definition toy_overlap :: "rserver thread list \<times> rserver world" where
  "toy_overlap = run_schedule (concat (replicate 12 [0, 1]))
     (let t = new_thread toy_server ((request_with JNull)\<lparr>req_Path := ''/api/v1/auth/guest''\<rparr>) in ([t, t], toy_start))"

lemma toy_overlap_interleaved: "interleaved toy_server toy_start toy_overlap"
proof -
  let ?r = "(request_with JNull)\<lparr>req_Path := ''/api/v1/auth/guest''\<rparr>"
  have "interleaved toy_server toy_start ([new_thread toy_server ?r] @ [new_thread toy_server ?r], toy_start)"
    by (rule interleaved.move [OF interleaved.move [OF interleaved.boot]])
       (rule system_step.arrive [of _ "[]", simplified], rule system_step.arrive)
  then show ?thesis
    unfolding toy_overlap_def Let_def by (intro run_schedule_interleaved) simp
qed

theorem interleaved_service_ok_witness: "length (w_users (snd toy_overlap)) = 2 \<and> schema_ok (snd toy_overlap)"
proof -
  have "pristine rs_holds_at toy_start"
    by (simp add: pristine_def toy_start_def rs_holds_at_def empty_server_def)
  then have "schema_ok (snd toy_overlap)"
    using interleaved_service_ok [OF toy_server_stores, of toy_start "fst toy_overlap" "snd toy_overlap"]
      toy_overlap_interleaved by simp
  moreover have "length (w_users (snd toy_overlap)) = 2" by code_simp
  ultimately show ?thesis by simp
qed

text \<open>
  C22: nothing is lost. Along every interleaving, whatever happens between two moments: a
  registered user stays registered, no user row disappears, and the row of a passkey stays
  and keeps its owner.
\<close>

theorem interleaved_nothing_lost:
  assumes "db_ok w0" and "interleaved s w0 (ts, w)" and "(system_step s)\<^sup>*\<^sup>* (ts, w) (ts', w')"
  shows "(\<forall>u. registered w u \<longrightarrow> registered w' u) \<and> (\<forall>u. known w u \<longrightarrow> known w' u)
    \<and> (\<forall>row \<in> set (w_creds w). \<exists>row' \<in> set (w_creds w'). row_id row' = row_id row \<and> user_id row' = user_id row)"
  using db_conc.interleaved_grows [OF assms(3,2) refl refl assms(1)]
  unfolding grows_def owned_def snd_conv by blast

theorem interleaved_nothing_lost_witness:
  "w_users (snd toy_overlap) \<noteq> []
   \<and> known ((snd toy_overlap)\<lparr>w_now := 7\<rparr>) (user_ID (hd (w_users (snd toy_overlap))))"
proof -
  let ?u = "user_ID (hd (w_users (snd toy_overlap)))"
  have users: "w_users (snd toy_overlap) \<noteq> []" and now: "w_now (snd toy_overlap) \<le> 7" by code_simp+
  have "db_ok toy_start"
    by (simp add: db_ok_def schema_ok_def users_ok_def creds_ok_def owners_registered_def toy_start_def)
  moreover have "system_step toy_server (fst toy_overlap, snd toy_overlap) ([], snd toy_overlap)"
    by (rule system_step.restart)
  then have "(system_step toy_server)\<^sup>*\<^sup>* (fst toy_overlap, snd toy_overlap) ([], (snd toy_overlap)\<lparr>w_now := 7\<rparr>)"
    by (rule converse_rtranclp_into_rtranclp) (rule r_into_rtranclp, rule system_step.pass, rule now)
  moreover have "known (snd toy_overlap) ?u" using users by (simp add: known_def)
  ultimately show ?thesis
    using interleaved_nothing_lost [of toy_start toy_server "fst toy_overlap" "snd toy_overlap" "[]"]
      toy_overlap_interleaved users by auto
qed

section \<open>Check and deletion are apart\<close>

text \<open>What a step of a deletion may change: the one row that is named, if it belongs to \<open>u\<close>.\<close>

definition only_own :: "uuid \<Rightarrow> uuid option \<Rightarrow> 'rd world \<Rightarrow> 'rd world \<Rightarrow> bool" where
  "only_own u i w w' \<longleftrightarrow> w_users w' = w_users w \<and>
     filter (\<lambda>r. \<not> (user_id r = u \<and> Some (row_id r) = i)) (w_creds w')
     = filter (\<lambda>r. \<not> (user_id r = u \<and> Some (row_id r) = i)) (w_creds w)"

lemma only_own_db: "keeps db m \<Longrightarrow> m w = (x, w') \<Longrightarrow> only_own u i w w'"
  by (drule keepsD, assumption) (simp add: only_own_def db_def)

lemma own_quiet:
  assumes "keeps db m"
    and "\<And>w w'. P w \<Longrightarrow> grows w w' \<Longrightarrow> P w'" and "\<And>w a w'. P w \<Longrightarrow> m w = (Inr a, w') \<Longrightarrow> db w' = db w \<Longrightarrow> Q a w'"
  shows "guarded db_ok grows (only_own u i) P (atom m) Q"
  by (rule guarded_atom)
     (use assms only_own_db [OF assms(1)] db_ok_cong keepsD [OF assms(1)] in blast)+

lemma owned_unique: "db_ok w \<Longrightarrow> owned w i u \<Longrightarrow> r \<in> set (w_creds w) \<Longrightarrow> row_id r = i \<Longrightarrow> user_id r = u"
  by (auto simp: db_ok_def schema_ok_def creds_ok_def owned_def dest: distinct_keyD)

lemma own_stamp: "guarded db_ok grows (only_own u (Some i)) (\<lambda>w. owned w i u) (atom (stampCommit i)) (\<lambda>_ _. True)"
proof (rule guarded_atom)
  fix w x w' assume ok: "db_ok w" and own: "owned w i u" and run: "stampCommit i w = (x, w')"
  have "filter (\<lambda>r. \<not> (user_id r = u \<and> row_id r = i))
      (update_where (\<lambda>r. row_id r = i) (mark_deleted t) rows) = filter (\<lambda>r. \<not> (user_id r = u \<and> row_id r = i)) rows"
    if "\<And>r. r \<in> set rows \<Longrightarrow> row_id r = i \<Longrightarrow> user_id r = u" for t rows
    using that by (induction rows) auto
  with stampCommit_effect [OF run] owned_unique [OF ok own] show "db_ok w' \<and> only_own u (Some i) w w'"
    using holdsD [OF stampCommit_db_ok run ok] by (auto simp: only_own_def)
qed (auto simp: grows_def)

lemma own_keep:
  "keeps db m \<Longrightarrow> guarded db_ok grows (only_own u i) (\<lambda>w. owned w j v) (atom m) (\<lambda>_ w. owned w j v)"
  "keeps db m \<Longrightarrow> guarded db_ok grows (only_own u i) P (atom m) (\<lambda>_ _. True)"
  by (erule own_quiet; auto simp: grows_def owned_def db_def)
     (rule guarded_pre [OF own_quiet [where P = "\<lambda>_. True"]]; simp)

lemma own_SoftDelete: "guarded db_ok grows (only_own u (Some i)) (\<lambda>w. owned w i u) (SoftDelete_prog i) (\<lambda>_ _. True)"
  unfolding SoftDelete_prog_def
  by (rule guarded_bindP [OF own_keep(1)] own_stamp guarded_cases guarded_failP | intro keeps_rules; simp)+

text \<open>
  C6: a passkey is deleted only by its owner, also under interference.
  \<open>DeleteCredential\<close> first lists the passkeys of the user of the session and then calls
  \<open>SoftDelete\<close> by row id alone. Whatever other requests do before, between and after
  these calls, as long as they lose nothing (which the property above shows of every
  interleaving), no step of the request changes a user, and no step changes any row of
  \<open>credentials\<close> but the one that the URL names, and that one only if it belongs to the user
  of the session.
\<close>

theorem DeleteCredential_own_under_interference:
  fixes w :: "'rd world"
  assumes "ctx_user r = Some u"
  shows "safe db_ok grows (only_own u (uuid_Parse L (url_id r))) (\<lambda>_ _. True) (DeleteCredential_prog L r) w"
proof -
  let ?i = "uuid_Parse L (url_id r)"
  have user: "guarded db_ok grows (only_own u ?i) (\<lambda>_. True) (atom (requireUser r)) (\<lambda>v _. v = u)"
    by (rule own_quiet) (auto simp: requireUser_def UserIDFromContext_def assms exit_simps intro!: keeps_rules)
  have parsed: "guarded db_ok grows (only_own u ?i) (\<lambda>_. True)
      (atom (case ?i of None \<Rightarrow> reject 400 ''invalid_request'' | Some i \<Rightarrow> ret i)) (\<lambda>i _. ?i = Some i)"
    by (rule own_quiet) (auto simp: exit_simps split: option.splits intro!: keeps_rules)
  have list: "guarded db_ok grows (only_own u ?i) (\<lambda>_. True)
      (atom (orInternal msg (CredentialStore_ListByUserID u)))
      (\<lambda>creds w. \<forall>c \<in> set creds. owned w (cred_ID c) u)" for msg
    by (rule own_quiet, intro keeps_rules; simp add: exit_simps)
       (force simp: owned_def db_def select_live_by_user_def dest!: ListByUserID_Inr(1))
  have delete: "guarded db_ok grows (only_own u ?i) (\<lambda>w. \<forall>c \<in> set creds. owned w (cred_ID c) u)
      (bindP (catchP (SoftDelete_prog i) (\<lambda>e. atom (h e))) k) (\<lambda>_ _. True)"
    if "?i = Some i" and "\<exists>c \<in> set creds. cred_ID c = i" and "\<And>e. keeps db (h e)"
      and "guarded db_ok grows (only_own u ?i) (\<lambda>_. True) (k ()) (\<lambda>_ _. True)"
    for i creds and h :: "err \<Rightarrow> ('rd, unit) handler_act" and k :: "unit \<Rightarrow> ('rd, response) handler_prog"
  proof (rule guarded_bindP [where M = "\<lambda>_ _. True"])
    show "guarded db_ok grows (only_own u ?i) (\<lambda>w. \<forall>c \<in> set creds. owned w (cred_ID c) u)
        (catchP (SoftDelete_prog i) (\<lambda>e. atom (h e))) (\<lambda>_ _. True)"
      by (rule guarded_catchP [OF guarded_pre [OF own_SoftDelete [of u i, folded that(1)]]])
         (use that(2) in blast, rule own_keep(2) [OF that(3)])
  qed (use that(4) in simp)
  have "guarded db_ok grows (only_own u ?i) (\<lambda>_. True)
      (DeleteCredential_prog L r :: ('rd, response) handler_prog) (\<lambda>_ _. True)"
    unfolding DeleteCredential_prog_def
    by (rule guarded_bindP [OF user], rule guarded_pure, hypsubst, rule guarded_bindP [OF parsed], rule guarded_pure,
        rule guarded_bindP [OF list])
       (rule guarded_cases delete own_keep(2) | assumption | erule notnotD | intro keeps_rules; simp)+
  then show ?thesis by (simp add: guarded_def)
qed

theorem DeleteCredential_own_under_interference_witness:
  "safe db_ok grows (only_own (UUID [9]) (Some (UUID [1]))) (\<lambda>_ _. True)
     (DeleteCredential_prog raw_uuid_lib ((request_with JNull)\<lparr>ctx_user := Some (UUID [9]), url_id := [CHR 0x01]\<rparr>))
     (two_passkeys ())"
proof -
  have "uuid_Parse raw_uuid_lib (url_id ((request_with JNull)\<lparr>ctx_user := Some (UUID [9]), url_id := [CHR 0x01]\<rparr>))
      = Some (UUID [1])"
    by (simp add: raw_uuid_lib_def)
  then show ?thesis
    using DeleteCredential_own_under_interference
      [of "(request_with JNull)\<lparr>ctx_user := Some (UUID [9]), url_id := [CHR 0x01]\<rparr>" "UUID [9]" raw_uuid_lib "two_passkeys ()"]
    by simp
qed

section \<open>Challenges and overlapping requests\<close>

text \<open>No challenge is stored under a session id that is spent.\<close>

definition not_reissued :: "(time \<Rightarrow> 'rd \<Rightarrow> string \<Rightarrow> rval option) \<Rightarrow> string \<Rightarrow> 'rd world \<Rightarrow> 'rd world \<Rightarrow> bool" where
  "not_reissued H sid w w' \<longleftrightarrow> (spent H sid w \<longrightarrow> spent H sid w')"

definition harmless :: "(time \<Rightarrow> 'rd \<Rightarrow> string \<Rightarrow> rval option) \<Rightarrow> string \<Rightarrow> 'rd world \<Rightarrow> 'rd world \<Rightarrow> bool" where
  "harmless H sid w w' \<longleftrightarrow> not_reissued H sid w w' \<and> db w' = db w"

lemma Take_spends:
  assumes "redis_stores R H L" and "ChallengeStore_Take R sid w = (Inr raw, w')"
  shows "spent H sid w'"
proof -
  have "w_now w' = w_now w"
    using assms(2) by (rule keepsD [rotated]) (intro keeps_rules; simp)
  then show ?thesis
    using redis_stores.Take_consumes [OF assms, of _ raw] by (simp add: spent_def)
qed

lemma Take_spent:
  assumes "redis_stores R H L" and "spent H sid w" and "ChallengeStore_Take R sid w = (x, w')"
  shows "isl x" and "spent H sid w'"
proof -
  have now: "w_now w' = w_now w"
    using assms(3) by (rule keepsD [rotated]) (intro keeps_rules; simp)
  have "challenge_at H (w_now w) w sid = None"
    using assms(2) by (simp add: spent_def)
  then show "isl x"
    using assms(3) by (cases rule: redis_stores.Take_gone [OF assms(1)]) auto
  have "challenge_at H t w' sid = None" if "w_now w \<le> t" for t
    using redis_stores.Take_gains [OF assms(1,3)] assms(2) that
    by (cases "challenge_at H t w' sid") (auto simp: gains_def spent_def challenge_at_def)
  then show "spent H sid w'" by (simp add: spent_def now)
qed

lemma complete_spent:
  assumes stores: "redis_stores (env_redis env) H L" and "complete_envelope r = Some (sid, body)"
  shows "guarded (\<lambda>_. True) (not_reissued H sid) (harmless H sid) (spent H sid)
    (bindP (atom (decodeComplete r)) (\<lambda>(i, b). bindP (atom (takeChallenge env msg i)) (k i b))) (\<lambda>_ _. False)"
proof (rule guarded_bindP [where M = "\<lambda>x w. fst x = sid \<and> spent H sid w"])
  have same: "keeps core (decodeComplete r :: ('a, string \<times> json) handler_act)"
    by (intro keeps_rules) simp
  show "guarded (\<lambda>_. True) (not_reissued H sid) (harmless H sid) (spent H sid) (atom (decodeComplete r))
      (\<lambda>x w. fst x = sid \<and> spent H sid w)"
    by (rule guarded_atom)
       (use assms(2) keepsD [OF same] in \<open>auto simp: not_reissued_def harmless_def exit_simps spent_def challenge_at_def core_def\<close>)
next
  fix x :: "string \<times> json"
  have "guarded (\<lambda>_. True) (not_reissued H sid) (harmless H sid) (spent H sid) (atom (takeChallenge env msg sid)) (\<lambda>_ _. False)"
  proof (rule guarded_atom)
    fix w y w' assume spent: "spent H sid w" and run: "takeChallenge env msg sid w = (y, w')"
    obtain x w1 where take: "ChallengeStore_Take (env_redis env) sid w = (x, w1)" by fastforce
    then obtain e where x: "x = Inl e"
      using Take_spent(1) [OF stores spent] by (cases x) auto
    have "core w' = core w1"
    proof -
      have "keeps core (if e = ErrChallengeNotFound then reject 401 ''session_invalid'' else internal msg
          :: ('a, rval) handler_act)"
        by (intro keeps_rules) simp_all
      then show ?thesis
        using run take x by (auto simp: takeChallenge_def catchE_def dest: keepsD)
    qed
    moreover have "db w' = db w"
      using run by (rule keepsD [rotated]) (intro keeps_rules; simp)
    ultimately show "True \<and> harmless H sid w w'"
      using Take_spent(2) [OF stores spent take]
      by (auto simp: harmless_def not_reissued_def spent_def challenge_at_def core_def)
  qed (auto simp: not_reissued_def exit_simps dest: Take_spent(1) [OF stores])
  then show "guarded (\<lambda>_. True) (not_reissued H sid) (harmless H sid) (\<lambda>w. fst x = sid \<and> spent H sid w)
      (case x of (i, b) \<Rightarrow> bindP (atom (takeChallenge env msg i)) (k i b)) (\<lambda>_ _. False)"
    by (cases "fst x = sid") (auto simp: guarded_def split: prod.split intro: safe_bindP [where M = "\<lambda>_ _. False"])
qed

text \<open>
  C8: a challenge is good for one completion, also when requests overlap. Once some request
  has taken the challenge of a session id, a \<open>complete\<close> request of any flow with that
  session id, however its steps interleave with those of others, never succeeds, and none of
  its steps changes the database; the others may do anything but store a new challenge under
  that very id, which no \<open>complete\<close> request does itself.
\<close>

theorem challenge_taken_once:
  assumes stores: "redis_stores (env_redis env) H (env_uuid env)"
    and taken: "ChallengeStore_Take (env_redis env) sid w0 = (Inr raw, w)"
    and req: "complete_envelope r = Some (sid, body)"
  shows "safe (\<lambda>_. True) (not_reissued H sid) (harmless H sid) (\<lambda>_ _. False) (CompleteRegister_prog env r) w
    \<and> safe (\<lambda>_. True) (not_reissued H sid) (harmless H sid) (\<lambda>_ _. False) (CompleteLogin_prog env r) w
    \<and> safe (\<lambda>_. True) (not_reissued H sid) (harmless H sid) (\<lambda>_ _. False) (CompletePromote_prog env r) w"
proof -
  note once = complete_spent [OF stores req, unfolded guarded_def, rule_format, OF Take_spends [OF stores taken]]
  show ?thesis
    unfolding CompleteRegister_prog_def CompleteLogin_prog_def CompletePromote_prog_def
    by (intro conjI once)
qed

theorem challenge_taken_once_witness:
  "safe (\<lambda>_. True) (not_reissued rs_holds_at ''sid'') (harmless rs_holds_at ''sid'') (\<lambda>_ _. False)
     (CompleteLogin_prog toy_env toy_complete) (snd (ChallengeStore_Take (env_redis toy_env) ''sid'' toy_passkey))"
proof -
  let ?raw = "RDoc (JObj [(''session'', JArr [JNull, JNum []])])"
  have "fst (ChallengeStore_Take (env_redis toy_env) ''sid'' toy_passkey) = Inr ?raw"
    and env: "complete_envelope toy_complete = Some (''sid'', JStr ''k'')"
    by code_simp+
  then have "ChallengeStore_Take (env_redis toy_env) ''sid'' toy_passkey
      = (Inr ?raw, snd (ChallengeStore_Take (env_redis toy_env) ''sid'' toy_passkey))"
    by (simp add: prod_eq_iff)
  from challenge_taken_once [OF toy_stores this env] show ?thesis by blast
qed

end
