(* ===== verification/Test_Authenticator.thy ===== *)
theory Test_Authenticator
  imports Base64 Go_Stdlib
begin

unbundle bit_operations_syntax

text \<open>
  \<open>internal/testutil/webauthntest/authenticator.go\<close>: the software passkey with which the
  integration tests drive the service. Keys, signatures, the hash and the CBOR encoder are
  parameters; the bytes of the authenticator data and of the client data, which the
  signature covers, are modelled exactly.

  Shown: a reader of the WebAuthn format recovers every field of the authenticator data; an
  assertion carries the incremented counter, is signed over the authenticator data and the
  hash of the client data, and the counter advances even when the call fails.
\<close>

section \<open>Libraries\<close>

text \<open>
  \<open>rand.Reader\<close> is shared by the process: what a call that draws from it returns depends on
  how many calls have drawn before. \<open>SignASN1\<close> is such a call (ECDSA signatures are
  randomised), so its first argument is the number of the draw.
\<close>

datatype cbor = CInt int | CText string | CBytes bytes | CMap "(cbor \<times> cbor) list"

record 'key crypto =
  GenerateKey :: "'key option"
  rand_Read :: "nat \<Rightarrow> nat \<Rightarrow> bytes option"
  PublicKey_Bytes :: "'key \<Rightarrow> bytes option"
  Sum256 :: "bytes \<Rightarrow> bytes"
  SignASN1 :: "nat \<Rightarrow> 'key \<Rightarrow> bytes \<Rightarrow> bytes option"
  cbor_EncMode :: "(cbor \<Rightarrow> bytes option) option"

text \<open>\<open>binary.BigEndian\<close>.\<close>

definition AppendUint32 :: "bytes \<Rightarrow> 32 word \<Rightarrow> bytes" where
  "AppendUint32 buf v = buf @ [ucast (drop_bit 24 v), ucast (drop_bit 16 v), ucast (drop_bit 8 v), ucast v]"

definition AppendUint16 :: "bytes \<Rightarrow> 16 word \<Rightarrow> bytes" where
  "AppendUint16 buf v = buf @ [ucast (drop_bit 8 v), ucast v]"

section \<open>json.Marshal of a map of strings\<close>

definition hex_digit :: "nat \<Rightarrow> char" where
  "hex_digit n = ''0123456789abcdef'' ! n"

text \<open>
  A character of a string as \<open>encoding/json\<close> writes it: quotes, backslashes, control and
  HTML characters are escaped, malformed bytes become the replacement character.
\<close>

definition json_escape :: "char \<Rightarrow> string" where
  "json_escape c =
     (if c = CHR 0x5C \<or> c = CHR 0x22 then [CHR 0x5C, c]
      else if c = CHR 0x08 then [CHR 0x5C, CHR ''b'']
      else if c = CHR 0x0C then [CHR 0x5C, CHR ''f'']
      else if c = CHR 0x0A then [CHR 0x5C, CHR ''n'']
      else if c = CHR 0x0D then [CHR 0x5C, CHR ''r'']
      else if c = CHR 0x09 then [CHR 0x5C, CHR ''t'']
      else if of_char c < (0x20 :: nat) \<or> c = CHR ''<'' \<or> c = CHR ''>'' \<or> c = CHR ''&''
        then CHR 0x5C # ''u00'' @ [hex_digit (of_char c div 16), hex_digit (of_char c mod 16)]
      else [c])"

function json_body :: "string \<Rightarrow> string" where
  "json_body s =
     (if s = [] then []
      else (if of_char (hd s) < (0x80 :: nat) then json_escape (hd s)
            else if rune_size s = 1 then CHR 0x5C # ''ufffd''
            else if take 3 s = [CHR 0xE2, CHR 0x80, CHR 0xA8] then CHR 0x5C # ''u2028''
            else if take 3 s = [CHR 0xE2, CHR 0x80, CHR 0xA9] then CHR 0x5C # ''u2029''
            else take (rune_size s) s)
           @ json_body (drop (rune_size s) s))"
  by auto
termination
  by (relation "measure length") (auto simp: rune_size_pos)

declare json_body.simps [simp del]

definition json_quote :: "string \<Rightarrow> string" where
  "json_quote s = CHR 0x22 # json_body s @ [CHR 0x22]"

definition json_strings :: "(string \<times> string) list \<Rightarrow> string" where
  "json_strings kvs =
     CHR 0x7B # Join (map (\<lambda>(k, v). json_quote k @ CHR '':'' # json_quote v) kvs) '','' @ [CHR 0x7D]"

definition to_bytes :: "string \<Rightarrow> bytes" where
  "to_bytes s = map (\<lambda>c. word_of_nat (of_char c)) s"

section \<open>The authenticator\<close>

record 'key Authenticator =
  rpID :: string
  origin :: string
  AAGUID_of :: bytes
  CredID :: bytes
  privKey :: 'key
  signCount :: "32 word"
  BackupEligible_of :: bool
  BackupState_of :: bool

text \<open>The keys of a Go map are written in their order.\<close>

definition buildClientDataJSON :: "string \<Rightarrow> string \<Rightarrow> string \<Rightarrow> bytes" where
  "buildClientDataJSON typeStr challenge org =
     to_bytes (json_strings [(''challenge'', challenge), (''origin'', org), (''type'', typeStr)])"

definition encodeCBOR :: "'key crypto \<Rightarrow> cbor \<Rightarrow> string + bytes" where
  "encodeCBOR C v =
     (case cbor_EncMode C of None \<Rightarrow> Inl ''cbor encoder''
      | Some em_Marshal \<Rightarrow> (case em_Marshal v of None \<Rightarrow> Inl ''cbor'' | Some b \<Rightarrow> Inr b))"

text \<open>The message for a point of the wrong form reads its first byte, which panics if there is none.\<close>

definition cosePublicKey :: "'key crypto \<Rightarrow> 'key \<Rightarrow> string + bytes" where
  "cosePublicKey C key =
     (case PublicKey_Bytes C key of
        None \<Rightarrow> Inl ''encode public key''
      | Some raw \<Rightarrow>
          if raw = [] then Inl ''panic: index out of range''
          else if length raw \<noteq> 65 \<or> hd raw \<noteq> 0x04 then Inl ''unexpected uncompressed point''
          else encodeCBOR C (CMap
            [(CInt 1, CInt 2), (CInt 3, CInt (-7)), (CInt (-1), CInt 1),
             (CInt (-2), CBytes (take 32 (drop 1 raw))), (CInt (-3), CBytes (take 32 (drop 33 raw)))]))"

definition NewAuthenticator :: "'key crypto \<Rightarrow> string \<Rightarrow> string \<Rightarrow> string + 'key Authenticator" where
  "NewAuthenticator C rp org =
     (case GenerateKey C of None \<Rightarrow> Inl ''generate key'' | Some priv \<Rightarrow>
      case rand_Read C 0 16 of None \<Rightarrow> Inl ''read credID'' | Some credID \<Rightarrow>
      case rand_Read C 1 16 of None \<Rightarrow> Inl ''read aaguid'' | Some guid \<Rightarrow>
      Inr \<lparr>rpID = rp, origin = org, AAGUID_of = guid, CredID = credID, privKey = priv, signCount = 0,
           BackupEligible_of = True, BackupState_of = True\<rparr>)"

definition authFlags :: "'key Authenticator \<Rightarrow> bool \<Rightarrow> byte" where
  "authFlags a attested =
     (let flags0 = 0x01 OR 0x04;
          flags1 = (if BackupEligible_of a then flags0 OR 0x08 else flags0);
          flags2 = (if BackupState_of a then flags1 OR 0x10 else flags1)
      in if attested then flags2 OR 0x40 else flags2)"

definition buildAuthData :: "'key crypto \<Rightarrow> 'key Authenticator \<Rightarrow> bool \<Rightarrow> string + bytes" where
  "buildAuthData C a attested =
     (let rpIDHash = Sum256 C (to_bytes (rpID a));
          buf0 = rpIDHash @ [authFlags a attested];
          buf1 = AppendUint32 buf0 (signCount a)
      in if attested then
           (case cosePublicKey C (privKey a) of Inl e \<Rightarrow> Inl e
            | Inr pubKey \<Rightarrow>
                Inr (AppendUint16 (buf1 @ AAGUID_of a) (word_of_nat (length (CredID a))) @ CredID a @ pubKey))
         else Inr buf1)"

definition Register :: "'key crypto \<Rightarrow> 'key Authenticator \<Rightarrow> string \<Rightarrow> string + json" where
  "Register C a challenge =
     (let clientDataJSON = buildClientDataJSON ''webauthn.create'' challenge (origin a) in
      case buildAuthData C a True of Inl e \<Rightarrow> Inl e | Inr authData \<Rightarrow>
      case encodeCBOR C (CMap [(CText ''fmt'', CText ''none''), (CText ''attStmt'', CMap []),
             (CText ''authData'', CBytes authData)]) of
        Inl e \<Rightarrow> Inl ''encode attestation object''
      | Inr attObj \<Rightarrow>
          let credID64 = EncodeToString (CredID a) in
          Inr (JObj [(''id'', JStr credID64), (''rawId'', JStr credID64),
            (''response'', JObj [(''attestationObject'', JStr (EncodeToString attObj)),
               (''clientDataJSON'', JStr (EncodeToString clientDataJSON))]),
            (''type'', JStr ''public-key'')]))"

text \<open>
  What \<open>Authenticate\<close> does once the authenticator data is built: sign, with draw \<open>n\<close> of
  \<open>rand.Reader\<close>, and wrap up.
\<close>

definition assertionResponse ::
  "'key crypto \<Rightarrow> 'key Authenticator \<Rightarrow> nat \<Rightarrow> bytes \<Rightarrow> bytes \<Rightarrow> bytes \<Rightarrow> string + json" where
  "assertionResponse C a n clientDataJSON authData userHandle =
     (let clientDataHash = Sum256 C clientDataJSON;
          digest = Sum256 C (authData @ clientDataHash)
      in case SignASN1 C n (privKey a) digest of
           None \<Rightarrow> Inl ''sign assertion''
         | Some sig \<Rightarrow>
             let credID64 = EncodeToString (CredID a) in
             Inr (JObj [(''id'', JStr credID64), (''rawId'', JStr credID64),
               (''response'', JObj [(''authenticatorData'', JStr (EncodeToString authData)),
                  (''clientDataJSON'', JStr (EncodeToString clientDataJSON)),
                  (''signature'', JStr (EncodeToString sig)),
                  (''userHandle'', JStr (EncodeToString userHandle))]),
               (''type'', JStr ''public-key'')]))"

text \<open>The state of a call: the authenticator and the number of draws made so far.\<close>

type_synonym 'key auth_state = "'key Authenticator \<times> nat"

definition Authenticate ::
  "'key crypto \<Rightarrow> 'key auth_state \<Rightarrow> string \<Rightarrow> bytes \<Rightarrow> (string + json) \<times> 'key auth_state" where
  "Authenticate C s challenge userHandle =
     (let clientDataJSON = buildClientDataJSON ''webauthn.get'' challenge (origin (fst s));
          a = (fst s)\<lparr>signCount := signCount (fst s) + 1\<rparr>
      in case buildAuthData C a False of Inl e \<Rightarrow> (Inl e, (a, snd s))
         | Inr authData \<Rightarrow>
             (assertionResponse C a (snd s) clientDataJSON authData userHandle, (a, Suc (snd s))))"

definition SignCount_of :: "'key Authenticator \<Rightarrow> 32 word" where
  "SignCount_of a = signCount a"

section \<open>Reading authenticator data\<close>

text \<open>
  A reader of the format of the WebAuthn standard (section 6.1): hash of the relying party
  id, flags, counter, and, if flag 6 is set, AAGUID, length and bytes of the credential id and
  the public key to the end.
\<close>

record auth_data =
  ad_rpIdHash :: bytes
  ad_flags :: byte
  ad_signCount :: "32 word"
  ad_attested :: "(bytes \<times> bytes \<times> bytes) option"

fun be_nat :: "bytes \<Rightarrow> nat" where
  "be_nat bs = foldl (\<lambda>n b. n * 256 + unat b) 0 bs"

definition read_auth_data :: "bytes \<Rightarrow> auth_data option" where
  "read_auth_data bs =
     (if length bs < 37 then None
      else let flags = bs ! 32; rest = drop 37 bs;
               ad = \<lparr>ad_rpIdHash = take 32 bs, ad_flags = flags,
                     ad_signCount = word_of_nat (be_nat (take 4 (drop 33 bs))), ad_attested = None\<rparr>
           in if \<not> bit flags 6 then (if rest = [] then Some ad else None)
              else if length rest < 18 then None
              else let n = be_nat (take 2 (drop 16 rest)) in
                   if length rest < 18 + n then None
                   else Some (ad\<lparr>ad_attested := Some (take 16 rest, take n (drop 18 rest), drop (18 + n) rest)\<rparr>))"

lemma unat_ucast_byte: "unat (ucast (w :: 'a::len word) :: byte) = unat w mod 256"
  by (simp add: unsigned_ucast_eq unsigned_take_bit_eq take_bit_eq_mod)

lemma unat_drop_bit: "unat (drop_bit n w) = unat w div 2 ^ n"
  by (simp add: unsigned_drop_bit_eq take_bit_nat_eq_self flip: drop_bit_eq_div)

lemma split_byte: "x div n = x div (n * 256) * 256 + x div n mod (256 :: nat)"
  by (simp add: div_mult2_eq)

lemma be_nat_4:
  "be_nat [ucast (drop_bit 24 v), ucast (drop_bit 16 v), ucast (drop_bit 8 v), ucast v] = unat (v :: 32 word)"
proof -
  let ?x = "unat v"
  have "?x < 4294967296"
    using unsigned_less [where 'a = nat, of v] by simp
  then have "?x div 16777216 mod 256 = ?x div 16777216"
    by (simp add: less_mult_imp_div_less)
  then show ?thesis
    using split_byte [of ?x 65536] split_byte [of ?x 256] split_byte [of ?x 1]
    by (simp add: unat_ucast_byte unat_drop_bit)
qed

lemma be_nat_2: "be_nat [ucast (drop_bit 8 v), ucast v] = unat (v :: 16 word)"
proof -
  have "unat v < 65536"
    using unsigned_less [where 'a = nat, of v] by simp
  then have "unat v div 256 mod 256 = unat v div 256"
    by (simp add: less_mult_imp_div_less)
  then show ?thesis
    by (simp add: unat_ucast_byte unat_drop_bit)
qed

lemma authFlags_bits:
  "bit (authFlags a attested) 0" "bit (authFlags a attested) 2"
  "bit (authFlags a attested) 3 = BackupEligible_of a" "bit (authFlags a attested) 4 = BackupState_of a"
  "bit (authFlags a attested) 6 = attested"
  by (auto simp: authFlags_def Let_def bit_or_iff bit_numeral_word_iff)

section \<open>Properties\<close>

text \<open>
  C38: the authenticator data is well-formed. A reader of the standard's format recovers the
  hash of the relying party id, the flags for user presence and verification and for the two
  backup states, and the counter; in registration data also the AAGUID, the credential id and
  the encoded public key, in assertion data nothing more.
\<close>

theorem buildAuthData_reads_back:
  assumes "length (Sum256 C (to_bytes (rpID a))) = 32" and "length (AAGUID_of a) = 16"
    and "length (CredID a) < 2 ^ 16" and "buildAuthData C a attested = Inr bs"
  shows "\<exists>ad. read_auth_data bs = Some ad \<and> ad_rpIdHash ad = Sum256 C (to_bytes (rpID a))
    \<and> bit (ad_flags ad) 0 \<and> bit (ad_flags ad) 2 \<and> bit (ad_flags ad) 3 = BackupEligible_of a
    \<and> bit (ad_flags ad) 4 = BackupState_of a \<and> ad_signCount ad = signCount a
    \<and> (if attested then \<exists>pub. cosePublicKey C (privKey a) = Inr pub
         \<and> ad_attested ad = Some (AAGUID_of a, CredID a, pub)
       else ad_attested ad = None)"
proof -
  let ?h = "Sum256 C (to_bytes (rpID a))" and ?f = "authFlags a attested"
  let ?c = "[ucast (drop_bit 24 (signCount a)), ucast (drop_bit 16 (signCount a)), ucast (drop_bit 8 (signCount a)),
    ucast (signCount a)] :: bytes"
  let ?n = "word_of_nat (length (CredID a)) :: 16 word"
  obtain rest where bs: "bs = ?h @ [?f] @ ?c @ rest"
    and rest: "if attested then \<exists>pub. cosePublicKey C (privKey a) = Inr pub
        \<and> rest = AAGUID_of a @ [ucast (drop_bit 8 ?n), ucast ?n] @ CredID a @ pub else rest = []"
    using assms(4)
    by (auto simp: buildAuthData_def AppendUint32_def AppendUint16_def Let_def split: if_splits sum.splits)
  have parts: "length bs = 37 + length rest" "take 32 bs = ?h" "bs ! 32 = ?f" "take 4 (drop 33 bs) = ?c" "drop 37 bs = rest"
    using assms(1) by (simp_all add: bs nth_append)
  have count: "word_of_nat (be_nat ?c) = signCount a"
    by (simp only: be_nat_4) simp
  have len: "unat ?n = length (CredID a)"
    using assms(3) by (simp add: unsigned_of_nat take_bit_nat_eq_self)
  show ?thesis
  proof (cases attested)
    case False
    with rest show ?thesis
      by (simp add: read_auth_data_def parts count authFlags_bits del: be_nat.simps)
  next
    case True
    with rest obtain pub where pub: "cosePublicKey C (privKey a) = Inr pub"
      and r: "rest = AAGUID_of a @ [ucast (drop_bit 8 ?n), ucast ?n] @ CredID a @ pub" by auto
    have "take 2 (drop 16 rest) = [ucast (drop_bit 8 ?n), ucast ?n]"
      using assms(2) by (simp add: r)
    then have "be_nat (take 2 (drop 16 rest)) = length (CredID a)"
      by (simp only: be_nat_2 len)
    with True pub show ?thesis
      using assms(2) by (simp add: read_auth_data_def parts count authFlags_bits Let_def r del: be_nat.simps)
  qed
qed

definition toy_crypto :: "nat crypto" where
  "toy_crypto = \<lparr>GenerateKey = Some 7, rand_Read = (\<lambda>i n. Some (replicate n (word_of_nat i))),
     PublicKey_Bytes = (\<lambda>k. Some (4 # replicate 64 (word_of_nat k))), Sum256 = (\<lambda>bs. replicate 32 (word_of_nat (length bs))),
     SignASN1 = (\<lambda>i k d. Some (word_of_nat i # word_of_nat k # d)), cbor_EncMode = Some (\<lambda>v. Some [1, 2, 3])\<rparr>"

definition toy_authenticator :: "nat Authenticator" where
  "toy_authenticator = projr (NewAuthenticator toy_crypto ''localhost'' ''http://a'')"

theorem buildAuthData_reads_back_witness:
  "\<exists>bs ad. buildAuthData toy_crypto toy_authenticator True = Inr bs \<and> read_auth_data bs = Some ad
     \<and> ad_attested ad = Some (replicate 16 1, replicate 16 0, [1, 2, 3])"
proof -
  have toy: "AAGUID_of toy_authenticator = replicate 16 1" "CredID toy_authenticator = replicate 16 0"
    by (simp_all add: toy_authenticator_def NewAuthenticator_def toy_crypto_def)
  have pub: "cosePublicKey toy_crypto k = Inr [1, 2, 3]" for k
    by (simp add: cosePublicKey_def encodeCBOR_def toy_crypto_def)
  then obtain bs where "buildAuthData toy_crypto toy_authenticator True = Inr bs"
    by (simp add: buildAuthData_def)
  then show ?thesis
    using buildAuthData_reads_back [of toy_crypto toy_authenticator True bs] toy pub
    by (auto simp: toy_crypto_def)
qed

text \<open>
  An assertion is signed over the authenticator data, which carries the incremented counter,
  and the hash of the client data, which carries the challenge and the origin. The counter
  advances by one, modulo \<open>2 ^ 32\<close>, whatever the outcome, and the call makes one draw.
\<close>

lemma Authenticate_signs:
  assumes "Authenticate C (a, n) challenge userHandle = (Inr j, (a', n'))"
  shows "\<exists>authData sig. buildAuthData C a' False = Inr authData
    \<and> SignASN1 C n (privKey a) (Sum256 C (authData @ Sum256 C (buildClientDataJSON ''webauthn.get'' challenge (origin a)))) = Some sig"
  using assms by (auto simp: Authenticate_def assertionResponse_def Let_def split: sum.splits option.splits)

lemma Authenticate_counts:
  "snd (Authenticate C (a, n) challenge userHandle) = (a\<lparr>signCount := signCount a + 1\<rparr>, Suc n)"
  by (simp add: Authenticate_def buildAuthData_def Let_def)

end
