(* ===== verification/Authenticator_Concurrency.thy ===== *)
theory Authenticator_Concurrency
  imports Test_Authenticator Interleaving
begin

text \<open>
  The test authenticator under concurrent use. Its counter is an \<open>atomic.Uint32\<close>, so that
  callers can run assertions concurrently; \<open>Authenticate\<close> increments it with one atomic
  operation, \<open>buildAuthData\<close> reads it with another, and the signature draws from the shared
  \<open>rand.Reader\<close>. Here a call of \<open>Authenticate\<close> is an interruptible program with a step per
  access to the shared state, and any number of calls run on one authenticator in any order
  of steps.

  Shown: executed alone the program is \<open>Authenticate\<close>; under every schedule no increment is
  lost, no two calls sign with the same draw, and every response is one that some call, made
  alone, would have returned; two calls can return the same counter.
\<close>

section \<open>Authenticate, step by step\<close>

definition sign_prog ::
  "'key crypto \<Rightarrow> bytes \<Rightarrow> bytes \<Rightarrow> bytes \<Rightarrow> ('key auth_state, string, json) prog" where
  "sign_prog C clientDataJSON userHandle authData =
     atom (\<lambda>s. (assertionResponse C (fst s) (snd s) clientDataJSON authData userHandle, (fst s, Suc (snd s))))"

definition buildAuthData_prog :: "'key crypto \<Rightarrow> bool \<Rightarrow> ('key auth_state, string, bytes) prog" where
  "buildAuthData_prog C attested = atom (\<lambda>s. (buildAuthData C (fst s) attested, s))"

definition Add_prog :: "32 word \<Rightarrow> ('key auth_state, string, unit) prog" where
  "Add_prog v = atom (\<lambda>s. (Inr (), ((fst s)\<lparr>signCount := signCount (fst s) + v\<rparr>, snd s)))"

definition Authenticate_prog ::
  "'key crypto \<Rightarrow> string \<Rightarrow> bytes \<Rightarrow> ('key auth_state, string, json) prog" where
  "Authenticate_prog C challenge userHandle =
     bindP (atom (\<lambda>s. (Inr (buildClientDataJSON ''webauthn.get'' challenge (origin (fst s))), s))) (\<lambda>clientDataJSON.
     bindP (Add_prog 1) (\<lambda>_.
     bindP (buildAuthData_prog C False) (sign_prog C clientDataJSON userHandle)))"

abbreviation build_phase :: "'key crypto \<Rightarrow> bytes \<Rightarrow> bytes \<Rightarrow> ('key auth_state, string, json) prog" where
  "build_phase C cd h \<equiv> bindP (buildAuthData_prog C False) (sign_prog C cd h)"

abbreviation count_phase :: "'key crypto \<Rightarrow> bytes \<Rightarrow> bytes \<Rightarrow> ('key auth_state, string, json) prog" where
  "count_phase C cd h \<equiv> bindP (Add_prog 1) (\<lambda>_. build_phase C cd h)"

lemma Authenticate_prog_alone:
  "uninterrupted (Authenticate_prog C challenge userHandle) s = Authenticate C s challenge userHandle"
  by (cases s)
     (simp add: Authenticate_prog_def Add_prog_def buildAuthData_prog_def sign_prog_def run_simps
      Authenticate_def Let_def act_defs split: sum.split prod.split)

section \<open>Calls that run side by side\<close>

text \<open>One of the programs makes its next step on the shared state, the others stay.\<close>

inductive par_step ::
  "'w \<times> ('w, 'e, 'a) prog list \<Rightarrow> 'w \<times> ('w, 'e, 'a) prog list \<Rightarrow> bool" where
  "i < length ps \<Longrightarrow> ps ! i = Step f \<Longrightarrow> f w = (p, w') \<Longrightarrow> par_step (w, ps) (w', ps[i := p])"

inductive_cases par_stepE: "par_step (w, ps) s"

text \<open>
  How far a call has come, seen from outside: before its increment, after it, past the
  reading of the counter (\<open>j\<close> is what a call made alone would have started from), or past
  the signature (\<open>d\<close> is the draw it was made with).
\<close>

datatype progress = Waiting | Counted | Loaded nat | Signed nat nat

fun read_at :: "progress \<Rightarrow> nat option" where
  "read_at (Loaded j) = Some j"
| "read_at (Signed j d) = Some j"
| "read_at _ = None"

fun drawn :: "progress \<Rightarrow> nat option" where
  "drawn (Signed j d) = Some d"
| "drawn _ = None"

abbreviation at_count :: "'key Authenticator \<Rightarrow> nat \<Rightarrow> 'key Authenticator" where
  "at_count a n \<equiv> a\<lparr>signCount := signCount a + word_of_nat n\<rparr>"

fun stage ::
  "'key crypto \<Rightarrow> 'key Authenticator \<Rightarrow> string \<times> bytes \<Rightarrow> progress \<Rightarrow> ('key auth_state, string, json) prog \<Rightarrow> bool" where
  "stage C a (ch, h) Waiting p \<longleftrightarrow> p = Authenticate_prog C ch h
     \<or> p = count_phase C (buildClientDataJSON ''webauthn.get'' ch (origin a)) h"
| "stage C a (ch, h) Counted p \<longleftrightarrow> p = build_phase C (buildClientDataJSON ''webauthn.get'' ch (origin a)) h"
| "stage C a (ch, h) (Loaded j) p \<longleftrightarrow>
     (\<exists>authData. buildAuthData C (at_count a (Suc j)) False = Inr authData
        \<and> p = sign_prog C (buildClientDataJSON ''webauthn.get'' ch (origin a)) h authData)"
| "stage C a (ch, h) (Signed j d) p \<longleftrightarrow> p = Done (fst (Authenticate C (at_count a j, d) ch h))"

lemmas prog_step_defs = Authenticate_prog_def Add_prog_def buildAuthData_prog_def sign_prog_def atom_def

lemma buildAuthData_assertion: "\<exists>authData. buildAuthData C a False = Inr authData"
  by (simp add: buildAuthData_def Let_def)

text \<open>A signature depends on the authenticator's key and id, not on its present counter.\<close>

lemma assertionResponse_at:
  assumes "buildAuthData C (at_count a (Suc j)) False = Inr authData"
  shows "fst (Authenticate C (at_count a j, d) ch h)
    = assertionResponse C (at_count a n) d (buildClientDataJSON ''webauthn.get'' ch (origin a)) authData h"
  using assms by (simp add: Authenticate_def assertionResponse_def Let_def ac_simps cong: option.case_cong)

lemma stage_step:
  assumes "stage C a (ch, h) g (Step f)" and "f (at_count a n, d) = (p, s')"
  shows "(g = Waiting \<and> stage C a (ch, h) Waiting p \<and> s' = (at_count a n, d))
    \<or> (g = Waiting \<and> stage C a (ch, h) Counted p \<and> s' = (at_count a (Suc n), d))
    \<or> (g = Counted \<and> (0 < n \<longrightarrow> stage C a (ch, h) (Loaded (n - 1)) p) \<and> s' = (at_count a n, d))
    \<or> (\<exists>j. g = Loaded j \<and> stage C a (ch, h) (Signed j d) p \<and> s' = (at_count a n, Suc d))"
proof (cases g)
  case Waiting
  with assms show ?thesis
    by (auto simp: prog_step_defs ac_simps cong: sum.case_cong)
next
  case Counted
  obtain authData where "buildAuthData C (at_count a n) False = Inr authData"
    using buildAuthData_assertion by blast
  with Counted assms show ?thesis
    by (auto simp: prog_step_defs)
next
  case (Loaded j)
  with assms show ?thesis
    by (auto simp: prog_step_defs assertionResponse_at [where n = n])
qed (use assms in simp)

section \<open>Every schedule\<close>

lemma count_where_update:
  "i < length gs \<Longrightarrow>
   count_where P (gs[i := g]) + of_bool (P (gs ! i)) = count_where P gs + of_bool (P g)"
proof (induction gs arbitrary: i)
  case (Cons x gs)
  then show ?case by (cases i) (use Cons.IH in fastforce)+
qed simp

text \<open>
  The invariant of the counter: it is the start plus the number of calls past their
  increment, no call has read more than that, and the latest value has been read or is about
  to be. The invariant of the draws: as many as calls past their signature, each used once.
\<close>

definition counted :: "progress list \<Rightarrow> nat" where
  "counted gs = count_where (\<lambda>g. g \<noteq> Waiting) gs"

definition signatures :: "progress list \<Rightarrow> nat" where
  "signatures gs = count_where (\<lambda>g. drawn g \<noteq> None) gs"

definition draws_ok :: "nat \<Rightarrow> progress list \<Rightarrow> bool" where
  "draws_ok n gs \<longleftrightarrow>
     (\<forall>i < length gs. \<forall>d. drawn (gs ! i) = Some d \<longrightarrow> n \<le> d \<and> d < n + signatures gs)
   \<and> (\<forall>i < length gs. \<forall>k < length gs. drawn (gs ! i) \<noteq> None \<longrightarrow> drawn (gs ! i) = drawn (gs ! k) \<longrightarrow> i = k)"

definition tracked ::
  "'key crypto \<Rightarrow> 'key auth_state \<Rightarrow> (string \<times> bytes) list \<Rightarrow> progress list
    \<Rightarrow> 'key auth_state \<times> ('key auth_state, string, json) prog list \<Rightarrow> bool" where
  "tracked C s0 calls gs s \<longleftrightarrow> fst s = (at_count (fst s0) (counted gs), snd s0 + signatures gs)
     \<and> length gs = length calls \<and> length (snd s) = length calls
     \<and> (\<forall>i < length calls. stage C (fst s0) (calls ! i) (gs ! i) (snd s ! i))
     \<and> (\<forall>j. Some j \<in> read_at ` set gs \<longrightarrow> j < counted gs)
     \<and> (0 < counted gs \<longrightarrow> Counted \<in> set gs \<or> Some (counted gs - 1) \<in> read_at ` set gs)
     \<and> draws_ok (snd s0) gs"

lemma tracked_start:
  "tracked C s calls (map (\<lambda>_. Waiting) calls) (s, map (\<lambda>(ch, h). Authenticate_prog C ch h) calls)"
  by (auto simp: tracked_def counted_def signatures_def draws_ok_def count_where_def split: prod.split)

lemma draws_ok_same:
  assumes "draws_ok n gs" and "i < length gs" and "drawn g = None" and "drawn (gs ! i) = None"
  shows "draws_ok n (gs[i := g])" and "signatures (gs[i := g]) = signatures gs"
proof -
  show "signatures (gs[i := g]) = signatures gs"
    using count_where_update [OF assms(2), of "\<lambda>g. drawn g \<noteq> None" g] assms(3,4) by (simp add: signatures_def)
  moreover have "drawn (gs[i := g] ! k) = drawn (gs ! k)" if "k < length gs" for k
    using assms(3,4) that by (cases "k = i") simp_all
  ultimately show "draws_ok n (gs[i := g])"
    using assms(1) by (simp add: draws_ok_def) metis
qed

lemma draws_ok_sign:
  assumes "draws_ok n gs" and "i < length gs" and "drawn g = Some (n + signatures gs)" and "drawn (gs ! i) = None"
  shows "draws_ok n (gs[i := g])" and "signatures (gs[i := g]) = Suc (signatures gs)"
proof -
  show new: "signatures (gs[i := g]) = Suc (signatures gs)"
    using count_where_update [OF assms(2), of "\<lambda>g. drawn g \<noteq> None" g] assms(3,4) by (simp add: signatures_def)
  have eq: "drawn (gs[i := g] ! k) = (if k = i then Some (n + signatures gs) else drawn (gs ! k))"
    if "k < length gs" for k
    using assms(3) that by (simp add: nth_list_update)
  have "drawn (gs ! k) \<noteq> Some (n + signatures gs)" if "k < length gs" for k
    using assms(1) that by (auto simp: draws_ok_def)
  then show "draws_ok n (gs[i := g])"
    using assms(1) unfolding draws_ok_def length_list_update new
    by (simp add: eq, intro conjI allI impI) (metis less_SucI, metis, metis)
qed

lemma tracked_move:
  assumes "tracked C s0 calls gs (s1, ps)" and "i < length calls"
    and "stage C (fst s0) (calls ! i) g p" and "s2 = (at_count (fst s0) (counted (gs[i := g])), snd s0 + signatures (gs[i := g]))"
    and "counted gs \<le> counted (gs[i := g])" and "\<And>j. read_at g = Some j \<Longrightarrow> j < counted gs"
    and "g = Counted \<or> counted (gs[i := g]) = counted gs \<and>
      (read_at g = Some (counted gs - 1) \<or> gs ! i = Waiting \<or> gs ! i \<noteq> Counted \<and> read_at (gs ! i) = read_at g)"
    and "draws_ok (snd s0) (gs[i := g])"
  shows "tracked C s0 calls (gs[i := g]) (s2, ps[i := p])"
proof -
  let ?gs = "gs[i := g]"
  have len: "i < length gs" "length ps = length calls" "length gs = length calls"
    using assms(1,2) by (simp_all add: tracked_def)
  have g: "g \<in> set ?gs"
    using len by (metis set_update_memI)
  have stay: "x \<in> set ?gs" if "x \<in> set gs" "x \<noteq> gs ! i" for x
    using that len by (metis in_set_conv_nth length_list_update nth_list_update_neq)
  have old: "\<forall>j. Some j \<in> read_at ` set gs \<longrightarrow> j < counted gs"
    and last: "0 < counted gs \<longrightarrow> Counted \<in> set gs \<or> Some (counted gs - 1) \<in> read_at ` set gs"
    using assms(1) by (simp_all add: tracked_def)
  have "j < counted ?gs" if "Some j \<in> read_at ` set ?gs" for j
  proof -
    from that obtain x where "x \<in> set ?gs" "read_at x = Some j" by auto
    then have "x = g \<or> x \<in> set gs"
      using set_update_subset_insert [of gs i g] by auto
    then have "j < counted gs"
      using \<open>read_at x = Some j\<close> assms(6) old by (metis image_eqI)
    then show ?thesis using assms(5) by simp
  qed
  moreover have "Counted \<in> set ?gs \<or> Some (counted ?gs - 1) \<in> read_at ` set ?gs" if "0 < counted ?gs"
  proof (cases "g = Counted \<or> read_at g = Some (counted gs - 1) \<and> counted ?gs = counted gs")
    case True
    then show ?thesis using g by (metis image_eqI)
  next
    case False
    with assms(7) have eq: "counted ?gs = counted gs"
      and same: "gs ! i = Waiting \<or> gs ! i \<noteq> Counted \<and> read_at (gs ! i) = read_at g" by blast+
    then have "Counted \<in> set gs \<or> Some (counted ?gs - 1) \<in> read_at ` set gs"
      using last that by simp
    then show ?thesis
    proof
      assume "Some (counted ?gs - 1) \<in> read_at ` set gs"
      then obtain x where x: "x \<in> set gs" "read_at x = Some (counted ?gs - 1)" by auto
      show ?thesis
      proof (cases "x = gs ! i")
        case True
        then have "read_at g = Some (counted ?gs - 1)" using same x(2) by auto
        with g show ?thesis by (metis image_eqI)
      next
        case False
        with stay x show ?thesis by (metis image_eqI)
      qed
    next
      assume "Counted \<in> set gs"
      with stay [of Counted] same show ?thesis by force
    qed
  qed
  moreover have "\<forall>k < length calls. stage C (fst s0) (calls ! k) (?gs ! k) (ps[i := p] ! k)"
    using assms(1,3) len by (simp add: tracked_def nth_list_update)
  ultimately show ?thesis
    using assms(4,8) len by (simp add: tracked_def)
qed

lemma tracked_step:
  assumes "tracked C s0 calls gs s" and "par_step s s'"
  shows "\<exists>gs'. tracked C s0 calls gs' s'"
proof -
  obtain i f s1 ps p s2 where s: "s = (s1, ps)" "s' = (s2, ps[i := p])" and i: "i < length ps"
    and f: "ps ! i = Step f" "f s1 = (p, s2)"
    using assms(2) by (cases s) (auto elim!: par_stepE)
  obtain ch h where call: "calls ! i = (ch, h)" by fastforce
  let ?a = "fst s0" and ?d = "snd s0 + signatures gs"
  have len: "i < length calls" "i < length gs" and s1: "s1 = (at_count ?a (counted gs), ?d)"
    and st: "stage C ?a (ch, h) (gs ! i) (Step f)" and ok: "draws_ok (snd s0) gs"
    using assms(1) i f(1) call by (auto simp: tracked_def s)
  have count: "counted (gs[i := g]) + of_bool (gs ! i \<noteq> Waiting) = counted gs + of_bool (g \<noteq> Waiting)" for g
    unfolding counted_def using len(2) by (rule count_where_update)
  have pos: "0 < counted gs" if "gs ! i \<noteq> Waiting"
    using that len(2) by (auto simp: counted_def count_where_pos)
  note move = tracked_move [OF assms(1) [unfolded s] len(1)] and same = draws_ok_same [OF ok len(2)]
  from stage_step [OF st f(2) [unfolded s1]] consider
      "gs ! i = Waiting" "stage C ?a (ch, h) Waiting p" "s2 = (at_count ?a (counted gs), ?d)"
    | "gs ! i = Waiting" "stage C ?a (ch, h) Counted p" "s2 = (at_count ?a (Suc (counted gs)), ?d)"
    | "gs ! i = Counted" "0 < counted gs \<longrightarrow> stage C ?a (ch, h) (Loaded (counted gs - 1)) p"
      "s2 = (at_count ?a (counted gs), ?d)"
    | j where "gs ! i = Loaded j" "stage C ?a (ch, h) (Signed j ?d) p" "s2 = (at_count ?a (counted gs), Suc ?d)"
    by blast
  then have "\<exists>g. tracked C s0 calls (gs[i := g]) (s2, ps[i := p])"
  proof cases
    case 1
    then show ?thesis
      using same [of Waiting] count [of Waiting] call
      by (intro exI [of _ Waiting] move) simp_all
  next
    case 2
    then show ?thesis
      using same [of Counted] count [of Counted] call
      by (intro exI [of _ Counted] move) simp_all
  next
    case 3
    then show ?thesis
      using same [of "Loaded (counted gs - 1)"] count [of "Loaded (counted gs - 1)"] call pos
      by (intro exI [of _ "Loaded (counted gs - 1)"] move) simp_all
  next
    case 4
    have "Some j \<in> read_at ` set gs"
      using 4(1) len(2) by (metis image_eqI nth_mem read_at.simps(1))
    then have "j < counted gs"
      using assms(1) by (simp add: tracked_def)
    with 4 show ?thesis
      using draws_ok_sign [OF ok len(2), of "Signed j ?d"] count [of "Signed j ?d"] call
      by (intro exI [of _ "Signed j ?d"] move) simp_all
  qed
  then show ?thesis using s(2) by blast
qed

lemma tracked_run:
  assumes "par_step\<^sup>*\<^sup>* (s0, map (\<lambda>(ch, h). Authenticate_prog C ch h) calls) s"
  shows "\<exists>gs. tracked C s0 calls gs s"
  using assms by induction (blast intro: tracked_start, blast intro: tracked_step)

lemma stage_Done:
  "stage C a c g (Done x) \<Longrightarrow> \<exists>j d. g = Signed j d \<and> x = fst (Authenticate C (at_count a j, d) (fst c) (snd c))"
  by (cases c; cases g) (auto simp: prog_step_defs)

text \<open>When all calls are past their signature, the draws are exactly the next ones.\<close>

lemma draws_exact:
  assumes "draws_ok n gs" and "\<forall>i < length gs. gs ! i = Signed (js ! i) (ds ! i)" and "length ds = length gs"
  shows "distinct ds" and "set ds = {n ..< n + length gs}" and "signatures gs = length gs"
proof -
  have "\<forall>g \<in> set gs. drawn g \<noteq> None"
    using assms(2) by (auto simp: in_set_conv_nth)
  then show all: "signatures gs = length gs"
    by (simp add: signatures_def count_where_def filter_id_conv)
  show dist: "distinct ds"
    using assms unfolding draws_ok_def distinct_conv_nth by (metis drawn.simps(1) option.discI)
  have "set ds \<subseteq> {n ..< n + length gs}"
    using assms all by (auto simp: draws_ok_def in_set_conv_nth)
  then show "set ds = {n ..< n + length gs}"
    using distinct_card [OF dist] assms(3) by (intro card_subset_eq) simp_all
qed

section \<open>Schedules\<close>

lemma par_step_at:
  "f w = (p, w') \<Longrightarrow> par_step (w, us @ Step f # vs) (w', us @ p # vs)"
  using par_step.intros [of "length us" "us @ Step f # vs" f w p w'] by simp

lemma call_steps:
  "par_step ((a, n), us @ Authenticate_prog C ch h # vs)
     ((a, n), us @ count_phase C (buildClientDataJSON ''webauthn.get'' ch (origin a)) h # vs)"
  "par_step ((a, n), us @ count_phase C cd h # vs) ((a\<lparr>signCount := signCount a + 1\<rparr>, n), us @ build_phase C cd h # vs)"
  "buildAuthData C a False = Inr d \<Longrightarrow>
     par_step ((a, n), us @ build_phase C cd h # vs) ((a, n), us @ sign_prog C cd h d # vs)"
  "par_step ((a, n), us @ sign_prog C cd h d # vs) ((a, Suc n), us @ Done (assertionResponse C a n cd d h) # vs)"
  by (simp_all add: prog_step_defs par_step_at cong: sum.case_cong)

text \<open>The steps of the first and of the second of two calls.\<close>

lemmas first_steps = call_steps [where us = "[]", unfolded append_Nil]
lemmas second_steps = call_steps [where us = "[_]" and vs = "[]", unfolded append_Cons append_Nil]

text \<open>Two calls that take turns: both increment before either reads the counter.\<close>

lemma overlapping_calls:
  "par_step\<^sup>*\<^sup>* ((a, n), [Authenticate_prog C ch1 h1, Authenticate_prog C ch2 h2])
     ((a\<lparr>signCount := signCount a + 2\<rparr>, n + 2),
      [Done (fst (Authenticate C (a\<lparr>signCount := signCount a + 1\<rparr>, n) ch1 h1)),
       Done (fst (Authenticate C (a\<lparr>signCount := signCount a + 1\<rparr>, Suc n) ch2 h2))])"
proof -
  let ?cd = "\<lambda>ch. buildClientDataJSON ''webauthn.get'' ch (origin a)"
  let ?a1 = "a\<lparr>signCount := signCount a + 1\<rparr>" and ?a2 = "a\<lparr>signCount := signCount a + 2\<rparr>"
  obtain d where d: "buildAuthData C ?a2 False = Inr d"
    using buildAuthData_assertion by blast
  have a2: "?a1\<lparr>signCount := signCount ?a1 + 1\<rparr> = ?a2" and n2: "n + 2 = Suc (Suc n)"
    by simp_all
  have response: "assertionResponse C ?a2 k (?cd ch) d h = fst (Authenticate C (?a1, k) ch h)" for k ch h
    using d by (simp add: Authenticate_def Let_def add.commute)
  note counting = second_steps(2) [of ?a1, unfolded a2]
  show ?thesis
    unfolding response [symmetric] n2
    by (rule converse_rtranclp_into_rtranclp, rule first_steps(1),
        rule converse_rtranclp_into_rtranclp, rule second_steps(1),
        rule converse_rtranclp_into_rtranclp, rule first_steps(2),
        rule converse_rtranclp_into_rtranclp, rule counting,
        rule converse_rtranclp_into_rtranclp, rule first_steps(3) [OF d],
        rule converse_rtranclp_into_rtranclp, rule second_steps(3) [OF d],
        rule converse_rtranclp_into_rtranclp, rule first_steps(4),
        rule r_into_rtranclp, rule second_steps(4))
qed

section \<open>Properties\<close>

text \<open>
  C39: the atomic counter loses nothing. When any number of concurrent calls of
  \<open>Authenticate\<close> have all returned, under whatever schedule of their steps, the counter has
  advanced by exactly the number of calls (modulo \<open>2 ^ 32\<close>), nothing else of the
  authenticator has changed, and each call has made one draw of \<open>rand.Reader\<close>, no two the
  same. Every call has returned what it would have returned if made alone with its draw on a
  counter between the start and the start plus the other calls, and the highest of these has
  been used.
\<close>

theorem concurrent_assertions_counted:
  assumes "par_step\<^sup>*\<^sup>* ((a, n), map (\<lambda>(ch, h). Authenticate_prog C ch h) calls) ((a', n'), ps)"
    and "\<forall>p \<in> set ps. \<exists>x. p = Done x"
  shows "a' = a\<lparr>signCount := signCount a + word_of_nat (length calls)\<rparr> \<and> n' = n + length calls
    \<and> (\<exists>js ds. length js = length calls \<and> length ds = length calls \<and> length ps = length calls
        \<and> distinct ds \<and> set ds = {n ..< n + length calls}
        \<and> (\<forall>i < length calls. js ! i < length calls
             \<and> ps ! i = Done (fst (Authenticate C (a\<lparr>signCount := signCount a + word_of_nat (js ! i)\<rparr>, ds ! i)
                                   (fst (calls ! i)) (snd (calls ! i)))))
        \<and> (calls \<noteq> [] \<longrightarrow> length calls - 1 \<in> set js))"
proof -
  obtain gs where gs: "tracked C (a, n) calls gs ((a', n'), ps)"
    using tracked_run [OF assms(1)] by blast
  define js where "js = map (\<lambda>g. the (read_at g)) gs"
  define ds where "ds = map (\<lambda>g. the (drawn g)) gs"
  have len: "length gs = length calls" "length ps = length calls"
    using gs by (simp_all add: tracked_def)
  have ended: "gs ! i = Signed (js ! i) (ds ! i)"
    "ps ! i = Done (fst (Authenticate C (at_count a (js ! i), ds ! i) (fst (calls ! i)) (snd (calls ! i))))"
    if i: "i < length calls" for i
  proof -
    obtain x where "ps ! i = Done x"
      using assms(2) len i by (metis nth_mem)
    moreover have "stage C a (calls ! i) (gs ! i) (ps ! i)"
      using gs i by (simp add: tracked_def)
    ultimately show "gs ! i = Signed (js ! i) (ds ! i)"
      "ps ! i = Done (fst (Authenticate C (at_count a (js ! i), ds ! i) (fst (calls ! i)) (snd (calls ! i))))"
      using i len by (auto simp: js_def ds_def dest!: stage_Done)
  qed
  have "\<forall>g \<in> set gs. g \<noteq> Waiting \<and> g \<noteq> Counted \<and> read_at g = Some (the (read_at g))"
  proof
    fix g assume "g \<in> set gs"
    then obtain i where "i < length calls" "g = gs ! i"
      using len by (metis in_set_conv_nth)
    with ended(1) show "g \<noteq> Waiting \<and> g \<noteq> Counted \<and> read_at g = Some (the (read_at g))"
      by (metis option.sel progress.distinct(5,9) read_at.simps(2))
  qed
  then have reads: "read_at ` set gs = Some ` set js" and past: "\<forall>g \<in> set gs. g \<noteq> Waiting" "Counted \<notin> set gs"
    by (auto simp: js_def image_image)
  then have all: "counted gs = length calls"
    using len by (simp add: counted_def count_where_def filter_id_conv)
  have ok: "draws_ok n gs"
    using gs by (simp add: tracked_def)
  have signed: "\<forall>i < length gs. gs ! i = Signed (js ! i) (ds ! i)"
    unfolding len(1) by (intro allI impI ended(1))
  have "length ds = length gs" by (simp add: ds_def)
  note draws = draws_exact [OF ok signed this, unfolded len(1)]
  have below: "\<forall>j \<in> set js. j < length calls"
    using gs all reads by (auto simp: tracked_def)
  have "\<forall>i < length calls. js ! i < length calls"
    using below len by (simp add: js_def)
  moreover have "length calls - 1 \<in> set js" if "calls \<noteq> []"
    using gs that all reads past(2) by (auto simp: tracked_def)
  moreover have "length js = length calls" "length ds = length calls"
    using len by (simp_all add: js_def ds_def)
  moreover have "a' = at_count a (length calls)" "n' = n + length calls"
    using gs all draws(3) by (simp_all add: tracked_def)
  ultimately show ?thesis
    using len(2) ended(2) draws(1,2) by (intro conjI exI [of _ js] exI [of _ ds]) simp_all
qed

text \<open>A run of two calls that overlap, on a new authenticator, after three draws.\<close>

theorem concurrent_assertions_counted_witness:
  "\<exists>ps. par_step\<^sup>*\<^sup>* ((toy_authenticator, 3), [Authenticate_prog toy_crypto ''Y2g'' [7], Authenticate_prog toy_crypto ''Y2h'' [8]])
       ((toy_authenticator\<lparr>signCount := 2\<rparr>, 5), ps)
    \<and> (\<exists>js ds. length js = 2 \<and> length ds = 2 \<and> distinct ds \<and> set ds = {3, 4} \<and> 1 \<in> set js
        \<and> ps ! 0 = Done (fst (Authenticate toy_crypto (toy_authenticator\<lparr>signCount := word_of_nat (js ! 0)\<rparr>, ds ! 0) ''Y2g'' [7]))
        \<and> ps ! 1 = Done (fst (Authenticate toy_crypto (toy_authenticator\<lparr>signCount := word_of_nat (js ! 1)\<rparr>, ds ! 1) ''Y2h'' [8])))"
proof -
  let ?calls = "[(''Y2g'', [7]), (''Y2h'', [8])] :: (string \<times> bytes) list"
  have zero: "signCount toy_authenticator = 0"
    by (simp add: toy_authenticator_def NewAuthenticator_def toy_crypto_def)
  obtain ps where run: "par_step\<^sup>*\<^sup>* ((toy_authenticator, 3), map (\<lambda>(ch, h). Authenticate_prog toy_crypto ch h) ?calls)
      ((toy_authenticator\<lparr>signCount := 2\<rparr>, 5), ps)" and ended: "\<forall>p \<in> set ps. \<exists>x. p = Done x"
    using overlapping_calls [of toy_authenticator 3 toy_crypto "''Y2g''" "[7]" "''Y2h''" "[8]"] zero by auto
  have two: "length ?calls = 2" "?calls \<noteq> []" by simp_all
  obtain js ds where "length js = 2" "length ds = 2" "distinct ds" "set ds = {3 ..< 3 + 2}" "2 - 1 \<in> set js"
    and calls: "\<forall>i < 2. js ! i < 2 \<and> ps ! i = Done (fst (Authenticate toy_crypto
        (toy_authenticator\<lparr>signCount := 0 + word_of_nat (js ! i)\<rparr>, ds ! i) (fst (?calls ! i)) (snd (?calls ! i))))"
    using concurrent_assertions_counted [OF run ended, unfolded zero two(1)] two(2) by blast
  moreover have "{3 ..< 3 + 2} = {3, 4 :: nat}" by auto
  ultimately show ?thesis
    using run calls [rule_format, of 0] calls [rule_format, of 1]
    by (intro exI [of _ ps] conjI exI [of _ js] exI [of _ ds]) simp_all
qed

text \<open>
  C40: but two calls may share a counter. The comments say that the counter is atomic so that
  assertions can run concurrently and that the server sees a strictly monotonic value on each
  call. From every state of the authenticator, two concurrent calls can both return what a call
  made alone returns on the counter after the first increment: both responses carry the start
  plus two.
\<close>

theorem concurrent_assertions_share_counter:
  "par_step\<^sup>*\<^sup>* ((a, n), [Authenticate_prog C ch1 h1, Authenticate_prog C ch2 h2])
     ((a\<lparr>signCount := signCount a + 2\<rparr>, n + 2),
      [Done (fst (Authenticate C (a\<lparr>signCount := signCount a + 1\<rparr>, n) ch1 h1)),
       Done (fst (Authenticate C (a\<lparr>signCount := signCount a + 1\<rparr>, Suc n) ch2 h2))])"
  by (rule overlapping_calls)

end
