(* ===== verification/Spec2Isabelle.thy ===== *)
theory Spec2Isabelle
  imports SoftDelete_Concurrency Service_Properties Startup_Properties Account_Lifecycle
    Response_Types Cookie_Policy Concurrent_Properties Authenticator_Concurrency
begin

text \<open>
  A passkey (WebAuthn) authentication service in Go: registration, login and logout with
  passkeys, anonymous guests that can be promoted to registered users, and the management of
  one's own passkeys, over PostgreSQL (users, credentials) and Redis (sessions, guest tokens,
  pending challenges).

  \<^bold>\<open>How the program is modelled\<close>

  A Go function that touches a store, the clock, the random source or the response becomes an
  action (\<open>Prelude\<close>): a function from a state to a result and a state, whose result is
  \<open>Inl\<close> for an error or an early \<open>return\<close> and \<open>Inr\<close> for going on. The state is the record
  \<open>world\<close> (theory \<open>World\<close>): the two SQL tables, a script of what PostgreSQL will do to the
  next statements (succeed, fail, lose the reply of a statement that took effect), the Redis
  server's state, the entropy stream, the clock, the response header under construction and
  the log. Errors are values (\<open>Domain\<close>). A byte slice that the program may find \<open>nil\<close> is an
  option (\<open>slice\<close>), since the PostgreSQL driver sends \<open>nil\<close> as \<open>NULL\<close>.

  \<^bold>\<open>Theories and sources\<close>

  \<^item> \<open>Prelude\<close>: value types, actions, the two-exit Hoare triple \<open>spec\<close>, the frame
    predicate \<open>keeps\<close> with their rule collections, rows in lists.
  \<^item> \<open>Domain\<close>: \<open>internal/domain\<close> (users, credentials, sentinel errors), requests,
    responses and cookies as the program uses them. \<open>World\<close>: the state, the uuid library.
  \<^item> \<open>Base64\<close>, \<open>Go_Stdlib\<close>: the parts of Go's library on which results depend, written
    out: URL-safe base64, \<open>strings.Split\<close>, \<open>strings.TrimSpace\<close>, \<open>time.ParseDuration\<close> with
    its \<open>uint64\<close> and \<open>float64\<close> arithmetic, \<open>Duration.Seconds\<close>.
  \<^item> \<open>Postgres_Users\<close>, \<open>Postgres_Credentials\<close>: \<open>internal/store/postgres/user.go\<close>,
    \<open>credential.go\<close> and the schema of \<open>migrations/000001_init.up.sql\<close>. Each statement is a
    function on rows, each method an action; counters keep their 32 bits through the signed
    column, and the keys, the foreign key, the partial indexes and the \<open>NOT NULL\<close> columns of
    the schema are enforced. \<open>SoftDelete_Concurrency\<close>: \<open>SoftDelete\<close> statement by statement,
    as a step relation over any number of transactions at READ COMMITTED, each of whose
    statements can fail and whose commit can lose its reply.
  \<^item> \<open>Redis_Client\<close>, \<open>Redis_Stores\<close>: \<open>internal/store/redis\<close>. The Redis commands are a
    parameter; the locale \<open>redis_service\<close> states what they promise, \<open>token_store\<close> what the
    session and guest stores promise to their clients.
  \<^item> \<open>WebAuthn_Service\<close>: \<open>internal/webauthn\<close> around the go-webauthn library (a parameter):
    options, attestation policy, user adapter.
  \<^item> \<open>Http\<close>, \<open>Auth_Handler\<close>, \<open>User_Handler\<close>, \<open>Health_Handler\<close>: \<open>internal/api/handler\<close>,
    every handler branch by branch; the decoding of request bodies follows the field rules of
    \<open>encoding/json\<close>. \<open>Middleware\<close>: \<open>internal/api/middleware\<close>. \<open>Router\<close>:
    \<open>internal/api/router.go\<close>, and the service as a state machine whose steps are requests,
    the passing of time and changes in the health of PostgreSQL.
  \<^item> \<open>Interleaving\<close>: interruptible programs (\<open>prog\<close>) with the same composition as actions,
    and the rely/guarantee judgement \<open>safe\<close>. \<open>Handler_Programs\<close>: every handler, middleware
    and the router translated a second time, as such programs, with one step per call of a
    store (per statement for \<open>SoftDelete\<close>). \<open>Concurrent_Service\<close>: the service as the Go
    server runs it, one thread per request on the shared stores, with arrivals, restarts in
    the middle of requests, the passing of time and failures.
  \<^item> \<open>Config\<close>: \<open>internal/config/config.go\<close>. \<open>Server_Main\<close>: \<open>cmd/server/main.go\<close>,
    \<open>NewPool\<close>, \<open>NewClient\<close>: start and end of the process as a trace of library calls.
  \<^item> \<open>Test_Authenticator\<close>: \<open>internal/testutil/webauthntest\<close>, the software passkey.
    \<open>Authenticator_Concurrency\<close>: its \<open>Authenticate\<close> as an interruptible program, one step per
    access to the counter or to \<open>rand.Reader\<close>, and any number of calls side by side.

  \<^bold>\<open>What is shown\<close>

  \<^item> Stores: every method on every branch; the schema's keys and indexes are invariants of
    all methods whatever fails; a username is claimed once; \<open>SoftDelete\<close> refines a guarded
    one-step delete and never takes the last passkey when run alone, whatever fails, and it does
    take it under a suitable interleaving of two transactions; transactions always finish. A challenge is
    consumed by its first \<open>Take\<close>; tokens resolve until they expire or are deleted.
  \<^item> \<open>Service_Invariants\<close>, \<open>Handler_Exits\<close>, \<open>Session_Views\<close>, \<open>Request_Log\<close>: the lemma
    libraries. The first shows that each handler keeps the invariant of the service, the
    second how a handler can end and what it did on the way (\<open>exits\<close>, the \<open>_on\<close>
    elimination rules), the third what happens to session tokens, the fourth that handlers
    only add to the log, and never a request line.
  \<^item> \<open>Register_Properties\<close>, \<open>Login_Properties\<close>, \<open>Guest_Properties\<close>, \<open>Refusal_Properties\<close>,
    \<open>Account_Properties\<close>, \<open>Service_Properties\<close>: what the endpoints achieve when they
    succeed, that refusals change nothing, that the flows do not mix (and where they do), that
    data under \<open>/users/me\<close> belongs to the owner of the session, and that every reachable state
    satisfies the invariant; every request is logged in one line, which never names the user.
  \<^item> \<open>Response_Types\<close>: the response structs as schemas; every response of every endpoint has
    the type its endpoint promises or is a documented error. \<open>Cookie_Policy\<close>: which endpoint
    sets which cookie, when and with which attributes; no error ever sets one.
  \<^item> \<open>Availability_Properties\<close>, \<open>Session_Lifecycle\<close>, \<open>Account_Lifecycle\<close>: a registration,
    login or promotion whose every precondition holds succeeds; the cookie of a login opens
    \<open>/users/me\<close> until it expires, unless its key is removed; a passkey that was registered is
    offered to the library, at a login, as the credential that it verified with the counter
    and flags of its last use, so that who registered can log in. A session id of the login
    flow gets through \<open>/register/complete\<close> up to the insertion of the passkey and leaves a
    user without a name.
  \<^item> \<open>Concurrent_Service\<close>, \<open>Concurrent_Properties\<close>: uninterrupted, the programs equal the
    sequential handlers, so the sequential service is one of the interleavings; every
    interleaving keeps the invariant of the service and loses neither users nor passkeys; a
    passkey is deleted only by its owner and a challenge completed only once, whatever other
    requests do between the steps. The contract of the stores is the locale
    \<open>service_invariant\<close>, extended by \<open>concurrent_invariant\<close> with what the last step of
    \<open>SoftDelete\<close> must keep on its own.
  \<^item> \<open>Startup_Properties\<close>: the server listens only with an accepted configuration, migrated
    schema and reachable stores; everything opened is closed. The positive times to live that
    other properties assume are established here.
  \<^item> \<open>Test_Authenticator\<close>, \<open>Authenticator_Concurrency\<close>: a reader of the WebAuthn format gets
    back what the authenticator wrote; concurrent assertions lose no increment of the counter,
    and sign with draws of their own, but two of them can carry the same counter.
  \<^item> \<open>Sample_Environment\<close>: concrete libraries and states for the worked instances.

  \<^bold>\<open>Parameters and what is assumed of them\<close>

  \<^item> go-redis and Redis: the laws of \<open>redis_service\<close>. Expiry is exact in the model; Redis
    counts whole milliseconds. Times to live are positive where a law depends on them.
  \<^item> google/uuid: printing and parsing are inverse (\<open>uuid_lib_ok\<close>); a generated id is new
    when a row is inserted, otherwise the primary key refuses it.
  \<^item> go-webauthn: nothing about its cryptography; only, where a round trip through the
    challenge store needs it, that its session data survive JSON (\<open>session_data_ok\<close>),
    and, where a login session is used for a registration, that the session of a discoverable
    login has no user id (\<open>login_sessions_anonymous\<close>).
  \<^item> chi: the matching of paths, what it writes for unmatched requests, and the requests that
    its \<open>RequestID\<close> and \<open>RealIP\<close> pass on. Its \<open>Recoverer\<close> and \<open>Timeout\<close> act only on a
    handler that panics or has not answered.
  \<^item> The embedded page: its text, or that it could not be read.
  \<^item> godotenv: existing variables are not overridden (\<open>godotenv_ok\<close>).
  \<^item> crypto/ecdsa, crypto/sha256 and the CBOR encoder of the test authenticator: a hash has
    32 bytes; a signature may depend on the draw of randomness it is made with.

  \<^bold>\<open>Bounds and termination\<close>

  No fuel is used. Loops are structural recursions or functions with a termination proof
  (string scanners by length, \<open>float64\<close> by the distance of the quotient from the range of 53
  bits). Schedules of \<open>n\<close> concurrent deletes have at most \<open>5 * n\<close> steps.

  \<^bold>\<open>Not modelled\<close>

  The script inside the demo page; panics and the time limits of contexts (a call that runs
  out of time is one that fails); the SQL migration runner beyond the order and outcome of its
  calls; the row locks of \<open>SoftDelete\<close> in the system of overlapping requests, which therefore
  has more interleavings than the service (they are modelled in \<open>SoftDelete_Concurrency\<close>);
  the memory model of Go: handlers share nothing but the stores, the log and the source of
  randomness; the signal handling beyond which event wakes the main goroutine.
\<close>

end
